(* ===== verification/VPNd_Prelude.thy ===== *)
theory VPNd_Prelude
  imports Main "HOL-Library.Word" "HOL-Library.Monad_Syntax"
begin

text \<open>
  Shared vocabulary of the development.

  \<^item> Machine integers: \<open>byte\<close>, \<open>u16\<close>, \<open>u32\<close> are words of the width the C code uses.
  \<^item> C buffers are byte lists of the size of the C object. \<open>mem_write\<close> and \<open>mem_read\<close> answer
    \<open>None\<close> when the access leaves the object. Throughout the development \<open>None\<close> at the outermost
    level of a result means: the C program has undefined behaviour here (an access outside an
    object, a use of freed memory, a second free). Error codes of the C functions are ordinary
    values inside \<open>Some\<close>.
  \<^item> A C pointer that owns its object (nobody else frees it) is a \<open>cptr\<close>: null, pointing to a live
    object, or dangling after a \<open>free\<close> that did not reset it. \<open>cfree\<close> is \<open>free\<close> and its OpenSSL
    relatives, which accept a null pointer.
\<close>

type_synonym byte = "8 word"
type_synonym u16 = "16 word"
type_synonym u32 = "32 word"

named_theorems mem_simps \<open>accesses to C buffers and owned pointers\<close>
named_theorems frame_simps \<open>fields an operation leaves alone\<close>

unbundle bit_operations_syntax

section \<open>Owned pointers\<close>

datatype 'a cptr = Null | Ptr 'a | Dangling

fun cfree :: "'a cptr \<Rightarrow> 'a cptr option" where
  "cfree Null = Some Null"
| "cfree (Ptr _) = Some Dangling"
| "cfree Dangling = None"

fun cderef :: "'a cptr \<Rightarrow> 'a option" where
  "cderef (Ptr x) = Some x"
| "cderef Null = None"
| "cderef Dangling = None"

text \<open>The test \<open>!p\<close> of the C code: reading a dangling pointer value is undefined.\<close>

fun cnull :: "'a cptr \<Rightarrow> bool option" where
  "cnull Null = Some True"
| "cnull (Ptr _) = Some False"
| "cnull Dangling = None"

text \<open>What a C function that returns null on failure hands out.\<close>

fun of_opt :: "'a option \<Rightarrow> 'a cptr" where
  "of_opt None = Null"
| "of_opt (Some x) = Ptr x"

lemma of_opt_eq [simp]:
  "of_opt x = Ptr y \<longleftrightarrow> x = Some y"
  "of_opt x = Null \<longleftrightarrow> x = None"
  "of_opt x \<noteq> Dangling"
  by (cases x; simp)+

lemma cfree_defined [mem_simps]: "(\<exists>q. cfree p = Some q) \<longleftrightarrow> p \<noteq> Dangling"
  by (cases p) auto

lemma cfree_NoneD: "cfree p = None \<longleftrightarrow> p = Dangling"
  by (cases p) auto

lemma cderef_eq_Some [mem_simps]: "cderef p = Some x \<longleftrightarrow> p = Ptr x"
  by (cases p) auto

lemma cderef_eq_None: "cderef p = None \<longleftrightarrow> p = Null \<or> p = Dangling"
  by (cases p) auto

section \<open>Buffers\<close>

definition mem_write :: "byte list \<Rightarrow> nat \<Rightarrow> byte list \<Rightarrow> byte list option" where
  "mem_write buf off bs =
     (if off + length bs \<le> length buf
      then Some (take off buf @ bs @ drop (off + length bs) buf) else None)"

definition mem_read :: "byte list \<Rightarrow> nat \<Rightarrow> nat \<Rightarrow> byte list option" where
  "mem_read buf off n =
     (if off + n \<le> length buf then Some (take n (drop off buf)) else None)"

lemma mem_write_defined [mem_simps]:
  "off + length bs \<le> length buf \<Longrightarrow>
     mem_write buf off bs = Some (take off buf @ bs @ drop (off + length bs) buf)"
  by (simp add: mem_write_def)

lemma mem_write_None [mem_simps]:
  "mem_write buf off bs = None \<longleftrightarrow> length buf < off + length bs"
  by (auto simp: mem_write_def)

lemma mem_write_length [mem_simps]:
  "mem_write buf off bs = Some buf' \<Longrightarrow> length buf' = length buf"
  by (auto simp: mem_write_def split: if_splits)

lemma mem_write_nth:
  "mem_write buf off bs = Some buf' \<Longrightarrow> i < length buf \<Longrightarrow>
     buf' ! i = (if off \<le> i \<and> i < off + length bs then bs ! (i - off) else buf ! i)"
  by (auto simp: mem_write_def nth_append min_def split: if_splits)

lemma mem_read_defined [mem_simps]:
  "off + n \<le> length buf \<Longrightarrow> mem_read buf off n = Some (take n (drop off buf))"
  by (simp add: mem_read_def)

lemma mem_read_None [mem_simps]: "mem_read buf off n = None \<longleftrightarrow> length buf < off + n"
  by (auto simp: mem_read_def)

lemma mem_read_length: "mem_read buf off n = Some bs \<Longrightarrow> length bs = n"
  by (auto simp: mem_read_def split: if_splits)

lemma mem_read_write_same:
  "mem_write buf off bs = Some buf' \<Longrightarrow> mem_read buf' off (length bs) = Some bs"
  by (auto simp: mem_write_def mem_read_def split: if_splits)

lemma mem_read_take:
  "off + n \<le> m \<Longrightarrow> m \<le> length buf \<Longrightarrow> mem_read (take m buf) off n = mem_read buf off n"
  by (auto simp: mem_read_def drop_take min_def)

text \<open>Writing two adjacent pieces is writing their concatenation.\<close>

lemma mem_write_append:
  assumes "off + length (xs @ ys) \<le> length buf"
  shows "Option.bind (mem_write buf off xs) (\<lambda>b. mem_write b (off + length xs) ys)
           = mem_write buf off (xs @ ys)"
  using assms by (simp add: mem_write_def min_absorb2 add.commute add.left_commute)

lemma list4_cases:
  assumes "4 \<le> length buf"
  obtains a b c d rest where "buf = a # b # c # d # rest"
  using assms by (auto simp: numeral_eq_Suc Suc_le_length_iff)

lemma take4_Cons [simp]: "take 4 (a # b # c # d # rest) = [a, b, c, d]"
  by (simp add: numeral_eq_Suc)

lemma update4_Cons [simp]:
  "(a # b # c # d # rest)[0 := p, Suc 0 := q, 2 := s, 3 := t] = p # q # s # t # rest"
  by (simp add: numeral_eq_Suc)

lemma take4_drop:
  assumes "off + 4 \<le> length xs"
  obtains a b c d where "take 4 (drop off xs) = [a, b, c, d]"
proof -
  have "4 \<le> length (drop off xs)" using assms by simp
  then obtain a b c d rest where "drop off xs = a # b # c # d # rest" by (rule list4_cases)
  with that show ?thesis by simp
qed

section \<open>Bytes of a 32-bit integer\<close>

text \<open>
  \<open>join32 b3 b2 b1 b0\<close> is \<open>(b3 << 24) | (b2 << 16) | (b1 << 8) | b0\<close> and \<open>byte_at k x\<close> is
  \<open>(x >> 8 k) & 0xff\<close>. \<open>host_u32\<close> is how a host of the given byte order loads four bytes as a
  \<open>uint32_t\<close>.
\<close>

definition join32 :: "byte \<Rightarrow> byte \<Rightarrow> byte \<Rightarrow> byte \<Rightarrow> u32" where
  "join32 b3 b2 b1 b0 =
     push_bit 24 (ucast b3) OR push_bit 16 (ucast b2) OR push_bit 8 (ucast b1) OR ucast b0"

definition byte_at :: "nat \<Rightarrow> u32 \<Rightarrow> byte" where
  "byte_at k x = ucast (drop_bit (8 * k) x AND 0xff)"

fun host_u32 :: "bool \<Rightarrow> byte list \<Rightarrow> u32 option" where
  "host_u32 le [a, b, c, d] = Some (if le then join32 d c b a else join32 a b c d)"
| "host_u32 le _ = None"

lemma ff_mask: "(0xff :: u32) = mask 8"
  by (simp add: mask_eq_exp_minus_1)

lemma bit_byte_at: "bit (byte_at k x) i \<longleftrightarrow> i < 8 \<and> bit x (8 * k + i)"
  by (auto simp: byte_at_def ff_mask bit_simps dest: bit_imp_le_length)

lemma bit_join32:
  "bit (join32 a b c d) i \<longleftrightarrow>
     i < 32 \<and> (if 24 \<le> i then bit a (i - 24) else if 16 \<le> i then bit b (i - 16)
     else if 8 \<le> i then bit c (i - 8) else bit d i)"
  by (auto simp: join32_def bit_simps dest: bit_imp_le_length)

lemma byte_at_join32 [simp]:
  "byte_at 3 (join32 a b c d) = a"
  "byte_at 2 (join32 a b c d) = b"
  "byte_at (Suc 0) (join32 a b c d) = c"
  "byte_at 0 (join32 a b c d) = d"
  by (rule bit_word_eqI; auto simp: bit_byte_at bit_join32)+

lemma join32_byte_at [simp]:
  "join32 (byte_at 3 x) (byte_at 2 x) (byte_at (Suc 0) x) (byte_at 0 x) = x"
  by (rule bit_word_eqI) (auto simp: bit_byte_at bit_join32)

lemma join32_eq_iff [simp]:
  "join32 a b c d = join32 a' b' c' d' \<longleftrightarrow> a = a' \<and> b = b' \<and> c = c' \<and> d = d'"
  by (metis byte_at_join32)

section \<open>Lists searched front to back\<close>

text \<open>\<open>find_index P xs\<close>: the position at which the walk \<open>for (i = list; i; i = i->next)\<close> stops.\<close>

fun find_index :: "('a \<Rightarrow> bool) \<Rightarrow> 'a list \<Rightarrow> nat option" where
  "find_index P [] = None"
| "find_index P (x # xs) = (if P x then Some 0 else map_option Suc (find_index P xs))"

lemma find_index_None: "find_index P xs = None \<longleftrightarrow> (\<forall>x \<in> set xs. \<not> P x)"
  by (induction xs) auto

lemma find_index_Some:
  "find_index P xs = Some i \<longleftrightarrow> i < length xs \<and> P (xs ! i) \<and> (\<forall>j < i. \<not> P (xs ! j))"
proof (induction xs arbitrary: i)
  case Nil
  then show ?case by simp
next
  case (Cons x xs)
  then show ?case by (cases i) (auto simp: nth_Cons less_Suc_eq_0_disj split: nat.splits)
qed

lemma find_index_SomeD:
  "find_index P xs = Some i \<Longrightarrow> i < length xs"
  "find_index P xs = Some i \<Longrightarrow> P (xs ! i)"
  by (simp_all add: find_index_Some)

lemma find_index_cong:
  "length xs = length ys \<Longrightarrow> (\<And>i. i < length xs \<Longrightarrow> P (xs ! i) = Q (ys ! i)) \<Longrightarrow>
     find_index P xs = find_index Q ys"
proof (induction xs ys rule: list_induct2)
  case Nil
  then show ?case by simp
next
  case (Cons x xs y ys)
  have "P x = Q y" using Cons.prems [of 0] by simp
  moreover have "find_index P xs = find_index Q ys"
    using Cons.prems [of "Suc i" for i] by (intro Cons.IH) force
  ultimately show ?case by simp
qed

section \<open>Transition systems\<close>

text \<open>An invariant of a transition system: what every initial state has and every step keeps.\<close>

locale invariant_system =
  fixes step :: "'s \<Rightarrow> 's \<Rightarrow> bool"
    and inv :: "'s \<Rightarrow> bool"
  assumes inv_step: "inv s \<Longrightarrow> step s s' \<Longrightarrow> inv s'"
begin

lemma inv_reachable: "step\<^sup>*\<^sup>* s s' \<Longrightarrow> inv s \<Longrightarrow> inv s'"
  by (induction rule: rtranclp_induct) (auto intro: inv_step)

lemma inv_until: "step\<^sup>*\<^sup>* s s' \<Longrightarrow> inv s \<Longrightarrow> step s' s'' \<Longrightarrow> inv s''"
  using inv_reachable inv_step by blast

end

end
