(* ===== verification/OS_Model.thy ===== *)
theory OS_Model
  imports VPNd_Prelude
begin

text \<open>
  The operating system as the program sees it. The answers of the kernel and of the allocator are
  scripts in the state, consumed one per call; an exhausted script means success. What the program
  makes the kernel do is recorded: the bytes each socket accepted, the packets the TUN/TAP device
  accepted, the descriptors closed. The static variables of the source files are added to this
  record component by component.

  The C code has the loop \<open>while (total < n) { m = write(...); if (m <= 0) break; total += m; }\<close>
  three times (twice in \<open>send_data_to_peer\<close>, once in \<open>tuntap_write\<close>). \<open>put_all\<close> is that loop over
  any such call, and the locale \<open>byte_sink\<close> states what the loop relies on.
\<close>

record os =
  host_le :: bool
  mallocs :: "bool list"
  rng :: nat
  send_rets :: "int list"
  wire :: "int \<Rightarrow> byte list"
  write_rets :: "int list"
  tun_out :: "byte list list"
  closed :: "int list"

definition os_init :: os where
  "os_init = \<lparr>host_le = True, mallocs = [], rng = 0, send_rets = [], wire = (\<lambda>_. []),
     write_rets = [], tun_out = [], closed = []\<rparr>"

definition malloc :: "'a os_scheme \<Rightarrow> bool \<times> 'a os_scheme" where
  "malloc w = (case mallocs w of [] \<Rightarrow> (True, w) | b # bs \<Rightarrow> (b, w\<lparr>mallocs := bs\<rparr>))"

lemma mallocE:
  assumes "malloc w = (ok, w')"
  obtains bs where "w' = w\<lparr>mallocs := bs\<rparr>"
proof (cases "mallocs w")
  case Nil
  with assms that [of "mallocs w"] show thesis by (simp add: malloc_def)
next
  case (Cons b bs)
  with assms that [of bs] show thesis by (simp add: malloc_def)
qed

lemma malloc_Nil [simp]: "mallocs w = [] \<Longrightarrow> malloc w = (True, w)"
  by (simp add: malloc_def)

definition sys_close :: "int \<Rightarrow> 'a os_scheme \<Rightarrow> 'a os_scheme" where
  "sys_close fd w = w\<lparr>closed := closed w @ [fd]\<rparr>"

text \<open>A call that accepts bytes: the script gives its result, never more than was offered.\<close>

definition sock_send :: "int \<Rightarrow> 'a os_scheme \<Rightarrow> byte list \<Rightarrow> int \<times> 'a os_scheme" where
  "sock_send fd w bs =
     (case send_rets w of
        [] \<Rightarrow> (int (length bs), w\<lparr>wire := (wire w)(fd := wire w fd @ bs)\<rparr>)
      | r # rs \<Rightarrow>
          (let m = min r (int (length bs))
           in (m, w\<lparr>send_rets := rs, wire := (wire w)(fd := wire w fd @ take (nat m) bs)\<rparr>)))"

definition dev_write :: "'a os_scheme \<Rightarrow> byte list \<Rightarrow> int \<times> 'a os_scheme" where
  "dev_write w bs =
     (case write_rets w of
        [] \<Rightarrow> (int (length bs), w\<lparr>tun_out := tun_out w @ [bs]\<rparr>)
      | r # rs \<Rightarrow>
          (let m = min r (int (length bs))
           in (m, if m \<le> 0 then w\<lparr>write_rets := rs\<rparr>
                  else w\<lparr>write_rets := rs, tun_out := tun_out w @ [take (nat m) bs]\<rparr>)))"

section \<open>The write loop\<close>

function put_all :: "('s \<Rightarrow> byte list \<Rightarrow> int \<times> 's) \<Rightarrow> 's \<Rightarrow> byte list \<Rightarrow> nat \<times> 's" where
  "put_all put s bs =
     (if bs = [] then (0, s)
      else case put s bs of
             (m, s') \<Rightarrow>
               (if m \<le> 0 then (0, s')
                else case put_all put s' (drop (nat m) bs) of
                       (t, s'') \<Rightarrow> (nat m + t, s'')))"
  by pat_completeness auto
termination
  by (relation "measure (\<lambda>(put, s, bs). length bs)") auto

declare put_all.simps [simp del]

lemma put_all_Nil [simp]: "put_all put s [] = (0, s)"
  by (simp add: put_all.simps)

lemma put_all_Cons:
  "bs \<noteq> [] \<Longrightarrow>
     put_all put s bs =
       (case put s bs of
          (m, s') \<Rightarrow>
            (if m \<le> 0 then (0, s')
             else case put_all put s' (drop (nat m) bs) of (t, s'') \<Rightarrow> (nat m + t, s'')))"
  by (subst put_all.simps) simp

text \<open>Whatever every single call keeps, the loop keeps.\<close>

lemma put_all_preserves:
  assumes "P s" and "\<And>s bs. P s \<Longrightarrow> P (snd (put s bs))"
  shows "P (snd (put_all put s bs))"
  using assms
proof (induction put s bs rule: put_all.induct)
  case (1 put s bs)
  show ?case
  proof (cases "bs = []")
    case True
    with "1.prems" show ?thesis by simp
  next
    case False
    obtain m s' where ms: "put s bs = (m, s')" by (cases "put s bs")
    with "1.prems"(2) [OF "1.prems"(1), of bs] have "P s'" by simp
    moreover from this "1.prems"(2) ms
    have "\<not> m \<le> 0 \<Longrightarrow> P (snd (put_all put s' (drop (nat m) bs)))"
      by (intro "1.IH" [OF False, of m s']) auto
    ultimately show ?thesis
      using False ms by (auto simp: put_all_Cons split: prod.splits)
  qed
qed

text \<open>A field the call does not look at can be changed before or after the loop.\<close>

lemma put_all_commute:
  assumes "\<And>s bs. put (f s) bs = map_prod id f (put s bs)"
  shows "put_all put (f s) bs = map_prod id f (put_all put s bs)"
proof (induction bs arbitrary: s rule: length_induct)
  case (1 bs)
  show ?case
  proof (cases "bs = []")
    case True
    then show ?thesis by simp
  next
    case False
    obtain m s' where ms: "put s bs = (m, s')" by (cases "put s bs")
    have "\<not> m \<le> 0 \<Longrightarrow> length (drop (nat m) bs) < length bs" using False by simp
    with 1 have "\<not> m \<le> 0 \<Longrightarrow>
        put_all put (f s') (drop (nat m) bs) = map_prod id f (put_all put s' (drop (nat m) bs))" by blast
    with False ms show ?thesis
      by (simp add: put_all_Cons assms split: prod.split)
  qed
qed

locale byte_sink =
  fixes put :: "'s \<Rightarrow> byte list \<Rightarrow> int \<times> 's"
    and got :: "'s \<Rightarrow> byte list"
  assumes put_le: "put s bs = (m, s') \<Longrightarrow> m \<le> int (length bs)"
    and put_got: "put s bs = (m, s') \<Longrightarrow> got s' = got s @ take (nat m) bs"
begin

text \<open>The loop delivers a prefix of the data, of the length it reports.\<close>

lemma put_all_prefix:
  "put_all put s bs = (t, s') \<Longrightarrow> t \<le> length bs \<and> got s' = got s @ take t bs"
proof (induction bs arbitrary: s t s' rule: length_induct)
  case (1 bs)
  show ?case
  proof (cases "bs = []")
    case True
    with "1.prems" show ?thesis by simp
  next
    case False
    obtain m s1 where ms: "put s bs = (m, s1)" by (cases "put s bs")
    note le = put_le [OF ms] and got1 = put_got [OF ms]
    show ?thesis
    proof (cases "m \<le> 0")
      case True
      with "1.prems" False ms got1 show ?thesis by (simp add: put_all_Cons)
    next
      case pos: False
      obtain u s2 where rec: "put_all put s1 (drop (nat m) bs) = (u, s2)"
        by (cases "put_all put s1 (drop (nat m) bs)")
      have "length (drop (nat m) bs) < length bs" using False pos by simp
      with "1.IH" rec have "u \<le> length (drop (nat m) bs) \<and> got s2 = got s1 @ take u (drop (nat m) bs)"
        by blast
      moreover from "1.prems" False ms pos rec have "t = nat m + u" "s' = s2"
        by (simp_all add: put_all_Cons)
      ultimately show ?thesis using le got1 pos by (auto simp: take_add)
    qed
  qed
qed

end

locale reliable_sink = byte_sink +
  fixes good :: "'s \<Rightarrow> bool"
  assumes good_put: "good s \<Longrightarrow> bs \<noteq> [] \<Longrightarrow> put s bs = (m, s') \<Longrightarrow> 0 < m \<and> good s'"
begin

text \<open>While no call fails, the loop delivers everything, however the calls split the data.\<close>

lemma put_all_complete:
  "good s \<Longrightarrow> put_all put s bs = (t, s') \<Longrightarrow>
     t = length bs \<and> got s' = got s @ bs \<and> good s'"
proof (induction bs arbitrary: s t s' rule: length_induct)
  case (1 bs)
  show ?case
  proof (cases "bs = []")
    case True
    with "1.prems" show ?thesis by simp
  next
    case False
    obtain m s1 where ms: "put s bs = (m, s1)" by (cases "put s bs")
    with good_put [OF "1.prems"(1) False ms] have pos: "0 < m" and g1: "good s1" by auto
    obtain u s2 where rec: "put_all put s1 (drop (nat m) bs) = (u, s2)"
      by (cases "put_all put s1 (drop (nat m) bs)")
    have "length (drop (nat m) bs) < length bs" using False pos by simp
    with "1.IH" g1 rec have "u = length (drop (nat m) bs) \<and> got s2 = got s1 @ drop (nat m) bs \<and> good s2"
      by blast
    moreover from "1.prems"(2) False ms pos rec have "t = nat m + u" "s' = s2"
      by (simp_all add: put_all_Cons)
    ultimately show ?thesis using put_le [OF ms] put_got [OF ms] pos by simp
  qed
qed

end

section \<open>The two sinks of the program\<close>

definition send_good :: "'a os_scheme \<Rightarrow> bool" where
  "send_good w \<longleftrightarrow> list_all (\<lambda>r. 0 < r) (send_rets w)"

definition write_good :: "'a os_scheme \<Rightarrow> bool" where
  "write_good w \<longleftrightarrow> list_all (\<lambda>r. 0 < r) (write_rets w)"

interpretation sock: reliable_sink "sock_send fd" "\<lambda>w. wire w fd" send_good for fd
  by unfold_locales
    (auto simp: sock_send_def send_good_def Let_def split: list.splits)

interpretation dev: reliable_sink dev_write "\<lambda>w. concat (tun_out w)" write_good
  by unfold_locales
    (auto simp: dev_write_def write_good_def Let_def min_le_iff_disj split: list.splits if_splits)

text \<open>What the loops leave alone: everything but the sink they write to.\<close>

lemma put_all_sendE:
  assumes "put_all (sock_send fd) w bs = (t, w')"
  obtains rs out where "w' = w\<lparr>send_rets := rs, wire := (wire w)(fd := out)\<rparr>"
proof -
  have "\<exists>rs out. snd (put_all (sock_send fd) w bs) = w\<lparr>send_rets := rs, wire := (wire w)(fd := out)\<rparr>"
  proof (rule put_all_preserves)
    show "\<exists>rs out. w = w\<lparr>send_rets := rs, wire := (wire w)(fd := out)\<rparr>"
      by (intro exI [of _ "send_rets w"] exI [of _ "wire w fd"]) simp
  next
    fix s bs
    assume "\<exists>rs out. s = w\<lparr>send_rets := rs, wire := (wire w)(fd := out)\<rparr>"
    then obtain rs out where s: "s = w\<lparr>send_rets := rs, wire := (wire w)(fd := out)\<rparr>" by blast
    show "\<exists>rs out. snd (sock_send fd s bs) = w\<lparr>send_rets := rs, wire := (wire w)(fd := out)\<rparr>"
      by (cases rs) (auto simp: s sock_send_def Let_def)
  qed
  with assms that show ?thesis by auto
qed

lemma put_all_writeE:
  assumes "put_all dev_write w bs = (t, w')"
  obtains rs out where "w' = w\<lparr>write_rets := rs, tun_out := out\<rparr>"
proof -
  have "\<exists>rs out. snd (put_all dev_write w bs) = w\<lparr>write_rets := rs, tun_out := out\<rparr>"
  proof (rule put_all_preserves)
    show "\<exists>rs out. w = w\<lparr>write_rets := rs, tun_out := out\<rparr>"
      by (intro exI [of _ "write_rets w"] exI [of _ "tun_out w"]) simp
  next
    fix s bs
    assume "\<exists>rs out. s = w\<lparr>write_rets := rs, tun_out := out\<rparr>"
    then obtain rs out where s: "s = w\<lparr>write_rets := rs, tun_out := out\<rparr>" by blast
    show "\<exists>rs out. snd (dev_write s bs) = w\<lparr>write_rets := rs, tun_out := out\<rparr>"
      by (intro exI [of _ "write_rets (snd (dev_write s bs))"] exI [of _ "tun_out (snd (dev_write s bs))"])
        (cases rs; simp add: s dev_write_def Let_def)
  qed
  with assms that show ?thesis by auto
qed

end
