(* ===== verification/Netroute.thy ===== *)
theory Netroute
  imports OS_Model
begin

text \<open>
  \<open>src/netroute.c\<close> over HOL lists: the route record of \<open>include/structs.h\<close>, comparison, search,
  appending, and the text form used by the logs and by \<open>dump_peers\<close>. (The same functions on an
  explicit heap with \<open>next\<close> pointers are in \<open>Netroute_Heap\<close>, which refines this theory.)

  Two routes are the same address for the program when their \<open>route_key\<close>s are equal; a route list
  stands for the set of its keys. The locale \<open>route_table\<close> states this abstraction as the interface
  the peers rely on.
\<close>

record netroute =
  mac :: bool
  ip4 :: bool
  addr :: "byte list"

definition wf_route :: "netroute \<Rightarrow> bool" where
  "wf_route r \<longleftrightarrow> length (addr r) = 16"

definition compare_netroutes :: "netroute \<Rightarrow> netroute \<Rightarrow> bool" where
  "compare_netroutes r1 r2 =
     (if mac r1 \<noteq> mac r2 \<or> ip4 r1 \<noteq> ip4 r2 then False
      else
        (let limit = (if \<not> mac r1 then (if ip4 r1 then 4 else 16) else 6)
         in take limit (addr r1) = take limit (addr r2)))"

definition route_key :: "netroute \<Rightarrow> bool \<times> bool \<times> byte list" where
  "route_key r = (mac r, ip4 r, take (if mac r then 6 else if ip4 r then 4 else 16) (addr r))"

lemma compare_netroutes_key: "compare_netroutes r1 r2 \<longleftrightarrow> route_key r1 = route_key r2"
  by (auto simp: compare_netroutes_def route_key_def Let_def)

section \<open>Lists of routes\<close>

definition netroute_in_array :: "netroute \<Rightarrow> netroute list \<Rightarrow> nat option" where
  "netroute_in_array route array = find_index (compare_netroutes route) array"

definition append_route :: "netroute \<Rightarrow> netroute list \<Rightarrow> netroute list" where
  "append_route route array = array @ [route]"

definition add_netroute :: "netroute \<Rightarrow> netroute list \<Rightarrow> 'a os_scheme \<Rightarrow> netroute list \<times> 'a os_scheme" where
  "add_netroute route array w =
     (case malloc w of
        (False, w') \<Rightarrow> (array, w')
      | (True, w') \<Rightarrow> (append_route route array, w'))"

definition route_known :: "netroute \<Rightarrow> netroute list \<Rightarrow> bool" where
  "route_known r rs \<longleftrightarrow> netroute_in_array r rs \<noteq> None"

definition route_keys :: "netroute list \<Rightarrow> (bool \<times> bool \<times> byte list) set" where
  "route_keys rs = set (map route_key rs)"

locale route_table =
  fixes add :: "'r \<Rightarrow> 't \<Rightarrow> 't"
    and has :: "'r \<Rightarrow> 't \<Rightarrow> bool"
    and key :: "'r \<Rightarrow> 'k"
    and keys :: "'t \<Rightarrow> 'k set"
  assumes has_iff: "has r t \<longleftrightarrow> key r \<in> keys t"
    and keys_add: "keys (add r t) = insert (key r) (keys t)"
begin

lemma has_add [simp]: "has r (add r t)"
  by (simp add: has_iff keys_add)

lemma has_add_iff: "has r (add s t) \<longleftrightarrow> key r = key s \<or> has r t"
  by (simp add: has_iff keys_add)

lemma has_cong: "key r = key s \<Longrightarrow> has r t \<longleftrightarrow> has s t"
  by (simp add: has_iff)

text \<open>Adding only what is missing, as every caller does, gives the same set of addresses.\<close>

lemma keys_learn: "keys (if has r t then t else add r t) = insert (key r) (keys t)"
  by (auto simp: has_iff keys_add)

end

locale route_list = route_table add has key "\<lambda>t. set (keylist t)"
  for add :: "'r \<Rightarrow> 't \<Rightarrow> 't" and has :: "'r \<Rightarrow> 't \<Rightarrow> bool" and key :: "'r \<Rightarrow> 'k"
    and keylist :: "'t \<Rightarrow> 'k list" +
  assumes keylist_add: "keylist (add r t) = keylist t @ [key r]"
begin

lemma learn_distinct:
  "distinct (keylist t) \<Longrightarrow> distinct (keylist (if has r t then t else add r t))"
  by (simp add: has_iff keylist_add)

end

lemma route_known_key: "route_known r rs \<longleftrightarrow> route_key r \<in> route_keys rs"
  by (auto simp: route_known_def netroute_in_array_def route_keys_def compare_netroutes_key
      dest!: find_index_None [THEN iffD1, OF sym] find_index_SomeD
      intro: nth_mem simp: find_index_None)

interpretation routes: route_list append_route route_known route_key "map route_key"
  by unfold_locales (auto simp: route_known_key route_keys_def append_route_def)

lemma route_known_Nil [simp]: "\<not> route_known r []"
  by (simp add: route_known_key route_keys_def)

lemma netroute_in_array_first:
  "netroute_in_array r rs = Some i \<longleftrightarrow>
     i < length rs \<and> route_key r = route_key (rs ! i) \<and>
     (\<forall>j < i. route_key r \<noteq> route_key (rs ! j))"
  by (simp add: netroute_in_array_def find_index_Some compare_netroutes_key)

lemma add_netroute_keys:
  assumes "add_netroute r rs w = (rs', w')"
  shows "route_keys rs' = (if fst (malloc w) then insert (route_key r) (route_keys rs) else route_keys rs)"
  using assms by (auto simp: add_netroute_def route_keys_def append_route_def split: prod.splits bool.splits)

section \<open>The text of an address\<close>

definition digit :: "nat \<Rightarrow> char" where
  "digit n = ''0123456789abcdef'' ! n"

definition hex2 :: "byte \<Rightarrow> string" where \<comment> \<open>the conversion 02x\<close>
  "hex2 b = [digit (unat b div 16), digit (unat b mod 16)]"

definition dec_byte :: "byte \<Rightarrow> string" where \<comment> \<open>the conversion u\<close>
  "dec_byte b =
     (let n = unat b
      in if n < 10 then [digit n]
         else if n < 100 then [digit (n div 10), digit (n mod 10)]
         else [digit (n div 100), digit (n div 10 mod 10), digit (n mod 10)])"

definition hex_word :: "nat \<Rightarrow> string" where \<comment> \<open>the conversion x of a 16-bit group\<close>
  "hex_word n =
     (if n < 16 then [digit n]
      else if n < 256 then [digit (n div 16), digit (n mod 16)]
      else if n < 4096 then [digit (n div 256), digit (n div 16 mod 16), digit (n mod 16)]
      else [digit (n div 4096), digit (n div 256 mod 16), digit (n div 16 mod 16), digit (n mod 16)])"

definition inet_ntop4 :: "byte list \<Rightarrow> string" where
  "inet_ntop4 bs =
     dec_byte (bs ! 0) @ ''.'' @ dec_byte (bs ! 1) @ ''.'' @ dec_byte (bs ! 2) @ ''.'' @ dec_byte (bs ! 3)"

text \<open>
  The library's IPv6 form: the eight groups in hexadecimal, the first longest run of at least two
  zero groups abbreviated, the last 32 bits of an IPv4-compatible or -mapped address in dotted form.
\<close>

fun ip6_groups :: "byte list \<Rightarrow> nat list" where
  "ip6_groups (a # b # bs) = (unat a * 256 + unat b) # ip6_groups bs"
| "ip6_groups _ = []"

fun better_run :: "(nat \<times> nat) option \<Rightarrow> (nat \<times> nat) option \<Rightarrow> (nat \<times> nat) option" where
  "better_run None best = best"
| "better_run (Some cur) None = Some cur"
| "better_run (Some (cb, cl)) (Some (bb, bl)) = (if cl > bl then Some (cb, cl) else Some (bb, bl))"

fun zero_run :: "nat \<Rightarrow> (nat \<times> nat) option \<Rightarrow> (nat \<times> nat) option \<Rightarrow> nat list \<Rightarrow> (nat \<times> nat) option" where
  "zero_run i cur best [] = better_run cur best"
| "zero_run i cur best (g # gs) =
     (if g = 0 then
        zero_run (Suc i) (case cur of None \<Rightarrow> Some (i, 1) | Some (b, l) \<Rightarrow> Some (b, Suc l)) best gs
      else zero_run (Suc i) None (better_run cur best) gs)"

definition best_zero_run :: "nat list \<Rightarrow> (nat \<times> nat) option" where
  "best_zero_run gs =
     (case zero_run 0 None None gs of
        Some (b, l) \<Rightarrow> if l < 2 then None else Some (b, l)
      | None \<Rightarrow> None)"

fun ip6_text :: "(nat \<times> nat) option \<Rightarrow> bool \<Rightarrow> string \<Rightarrow> nat \<Rightarrow> nat list \<Rightarrow> string" where
  "ip6_text best v4 dotted i [] =
     (case best of Some (b, l) \<Rightarrow> if b + l = 8 then '':'' else '''' | None \<Rightarrow> '''')"
| "ip6_text best v4 dotted i (g # gs) =
     (if (case best of Some (b, l) \<Rightarrow> b \<le> i \<and> i < b + l | None \<Rightarrow> False)
      then (if (case best of Some (b, l) \<Rightarrow> i = b | None \<Rightarrow> False) then '':'' else '''')
           @ ip6_text best v4 dotted (Suc i) gs
      else (if i \<noteq> 0 then '':'' else '''') @
           (if i = 6 \<and> v4 then dotted else hex_word g @ ip6_text best v4 dotted (Suc i) gs))"

definition inet_ntop6 :: "byte list \<Rightarrow> string" where
  "inet_ntop6 bs =
     (let gs = ip6_groups bs;
          best = best_zero_run gs;
          v4 = (case best of
                  Some (b, l) \<Rightarrow> b = 0 \<and> (l = 6 \<or> (l = 5 \<and> gs ! 5 = 0xffff))
                | None \<Rightarrow> False)
      in ip6_text best v4 (inet_ntop4 (drop 12 bs)) 0 gs)"

text \<open>\<open>inet_ntop\<close> fails, leaving the destination alone, when text and terminator do not fit.\<close>

definition inet_ntop_into :: "string \<Rightarrow> string \<Rightarrow> nat \<Rightarrow> string" where
  "inet_ntop_into txt dest maxlen = (if length txt + 1 \<le> maxlen then txt else dest)"

definition get_netroute_addr :: "bool \<Rightarrow> netroute \<Rightarrow> string \<Rightarrow> nat \<Rightarrow> string" where
  "get_netroute_addr le route dest maxlen =
     (if mac route then
        (let txt = hex2 (addr route ! 0) @ '':'' @ hex2 (addr route ! 1) @ '':'' @
                   hex2 (addr route ! 2) @ '':'' @ hex2 (addr route ! 3) @ '':'' @
                   hex2 (addr route ! 4) @ '':'' @ hex2 (addr route ! 5)
         in if maxlen = 0 then dest else take (maxlen - 1) txt)
      else if ip4 route then
        (if le then
           (let ordered_ip = [addr route ! 3, addr route ! 2, addr route ! 1, addr route ! 0]
            in inet_ntop_into (inet_ntop4 ordered_ip) dest maxlen)
         else inet_ntop_into (inet_ntop4 (addr route)) dest maxlen)
      else inet_ntop_into (inet_ntop6 (addr route)) dest maxlen)"

definition INET6_ADDRSTRLEN :: nat where "INET6_ADDRSTRLEN = 46"

lemma length_dec_byte [simp]: "length (dec_byte b) \<le> 3"
  by (simp add: dec_byte_def Let_def)

lemma length_hex_word [simp]: "length (hex_word n) \<le> 4"
  by (simp add: hex_word_def)

lemma length_hex2 [simp]: "length (hex2 b) = 2"
  by (simp add: hex2_def)

lemma length_inet_ntop4: "length (inet_ntop4 bs) \<le> 15"
  using length_dec_byte [of "bs ! 0"] length_dec_byte [of "bs ! 1"]
    length_dec_byte [of "bs ! 2"] length_dec_byte [of "bs ! 3"]
  unfolding inet_ntop4_def length_append by (simp del: length_dec_byte)

lemma length_ip6_text: "length (ip6_text best False d i gs) \<le> 5 * length gs + 1"
proof (induction gs arbitrary: i)
  case Nil
  then show ?case by (simp split: option.splits)
next
  case (Cons g gs)
  from Cons.IH [of "Suc i"] length_hex_word [of g] show ?case by (auto simp del: length_hex_word)
qed

lemma length_ip6_groups: "length (ip6_groups bs) = length bs div 2"
  by (induction bs rule: ip6_groups.induct) auto

lemma list8_cases:
  assumes "length gs = 8"
  obtains a b c d e f g h where "gs = [a, b, c, d, e, f, g, h]"
  using assms by (auto simp: numeral_eq_Suc length_Suc_conv)

lemma length_ip6_text_v4:
  assumes "length gs = 8" and "l = 5 \<or> l = 6" and "length d \<le> 15"
  shows "length (ip6_text (Some (0, l)) True d 0 gs) \<le> 22"
proof -
  from assms(1) obtain a b c e f g h k where gs: "gs = [a, b, c, e, f, g, h, k]"
    by (rule list8_cases)
  show ?thesis
    using assms(2,3) length_hex_word [of g] by (auto simp: gs simp del: length_hex_word)
qed

lemma length_inet_ntop6:
  assumes "length bs = 16"
  shows "length (inet_ntop6 bs) \<le> 45"
proof -
  have len: "length (ip6_groups bs) = 8" using assms by (simp add: length_ip6_groups)
  show ?thesis
  proof (cases "\<exists>l. best_zero_run (ip6_groups bs) = Some (0, l) \<and>
                  (l = 6 \<or> (l = 5 \<and> ip6_groups bs ! 5 = 0xffff))")
    case True
    then obtain l where "best_zero_run (ip6_groups bs) = Some (0, l)"
      and "l = 6 \<or> (l = 5 \<and> ip6_groups bs ! 5 = 0xffff)" by blast
    then show ?thesis
      using length_ip6_text_v4 [OF len, of l "inet_ntop4 (drop 12 bs)"] length_inet_ntop4 [of "drop 12 bs"]
      by (auto simp: inet_ntop6_def Let_def)
  next
    case False
    then have "inet_ntop6 bs =
        ip6_text (best_zero_run (ip6_groups bs)) False (inet_ntop4 (drop 12 bs)) 0 (ip6_groups bs)"
      by (auto simp: inet_ntop6_def Let_def split: option.splits)
    then show ?thesis
      using length_ip6_text [of "best_zero_run (ip6_groups bs)" "inet_ntop4 (drop 12 bs)" 0 "ip6_groups bs"]
      by (simp add: len)
  qed
qed

section \<open>Properties\<close>

text \<open>\<open>compare_netroutes\<close> is an equivalence relation, and it decides equality of the address kind and
  of the first 6, 4 or 16 address bytes (MAC, IPv4, IPv6); the other bytes of the array never
  matter.\<close>

theorem compare_netroutes_equivalence:
  "equivp compare_netroutes \<and>
   (compare_netroutes r1 r2 \<longleftrightarrow>
      mac r1 = mac r2 \<and> ip4 r1 = ip4 r2 \<and>
      take (if mac r1 then 6 else if ip4 r1 then 4 else 16) (addr r1) =
      take (if mac r1 then 6 else if ip4 r1 then 4 else 16) (addr r2))"
proof
  show "equivp compare_netroutes"
    by (rule equivpI) (auto simp: reflp_def symp_def transp_def compare_netroutes_key)
qed (auto simp: compare_netroutes_def Let_def)

text \<open>The text of every address fits the \<open>INET6_ADDRSTRLEN\<close> bytes its callers reserve: nothing is
  truncated or refused, whatever the destination held.\<close>

theorem netroute_text_fits:
  assumes "wf_route r"
  shows "length (get_netroute_addr le r dest INET6_ADDRSTRLEN) < INET6_ADDRSTRLEN \<and>
         get_netroute_addr le r dest INET6_ADDRSTRLEN = get_netroute_addr le r dest' (INET6_ADDRSTRLEN + k)"
proof -
  have six: "length (inet_ntop6 (addr r)) < 46" "length (inet_ntop6 (addr r)) \<le> 45 + j" for j
    using assms length_inet_ntop6 [of "addr r"] by (simp_all add: wf_route_def)
  have four: "length (inet_ntop4 bs) < 46" "length (inet_ntop4 bs) \<le> 45 + j" for bs j
    using length_inet_ntop4 [of bs] by simp_all
  from six(2) [of 0] four(2) [of _ 0] show ?thesis
    by (auto simp: get_netroute_addr_def inet_ntop_into_def INET6_ADDRSTRLEN_def Let_def six four)
qed

theorem netroute_text_fits_witness:
  "wf_route \<lparr>mac = True, ip4 = False, addr = [1, 2, 3, 4, 5, 6, 0, 0, 0, 0, 0, 0, 0, 0, 0, 0]\<rparr> \<and>
   get_netroute_addr True
     \<lparr>mac = False, ip4 = False, addr = [0x20, 1, 0, 0, 0, 0, 0, 0, 0, 0, 0, 0, 0, 0, 0, 1]\<rparr> ''x'' 46
     = ''2001::1'' \<and>
   get_netroute_addr True
     \<lparr>mac = False, ip4 = False, addr = [0x20, 1, 0, 0, 0, 0, 0, 0, 0, 0, 0, 0, 0, 0, 0, 1]\<rparr> ''y'' 100
     = ''2001::1''"
proof -
  let ?r = "\<lparr>mac = False, ip4 = False, addr = [0x20, 1, 0, 0, 0, 0, 0, 0, 0, 0, 0, 0, 0, 0, 0, 1]\<rparr> :: netroute"
  have shown: "get_netroute_addr True ?r ''x'' 46 = ''2001::1''"
    by (simp add: get_netroute_addr_def inet_ntop6_def inet_ntop_into_def best_zero_run_def
        hex_word_def digit_def)
  have "get_netroute_addr True ?r ''x'' 46 = get_netroute_addr True ?r ''y'' 100"
    using netroute_text_fits [of ?r True "''x''" "''y''" 54]
    by (simp add: wf_route_def INET6_ADDRSTRLEN_def)
  with shown show ?thesis by (simp add: wf_route_def)
qed

end
