(* ===== verification/Chain.thy ===== *)
theory Chain
  imports OS_Model
begin

text \<open>
  Linked lists on a heap, shared by the route lists, the peer table and the trusted keys. A heap maps
  addresses to cells, \<open>nxt\<close> reads the link of a cell, \<open>None\<close> is the null pointer; an access to an address
  with no cell is undefined. \<open>chain nxt h p as\<close> says that from the pointer \<open>p\<close> the links lead through
  the addresses \<open>as\<close> to null.
\<close>

fun chain :: "('n \<Rightarrow> nat option) \<Rightarrow> (nat \<Rightarrow> 'n option) \<Rightarrow> nat option \<Rightarrow> nat list \<Rightarrow> bool" where
  "chain nxt h p [] \<longleftrightarrow> p = None"
| "chain nxt h p (a # as) \<longleftrightarrow> p = Some a \<and> (case h a of None \<Rightarrow> False | Some n \<Rightarrow> chain nxt h (nxt n) as)"

text \<open>The loop \<open>while (last->next) last = last->next;\<close> of \<open>src/netroute.c\<close> and \<open>src/rsa.c\<close>.\<close>

partial_function (option) last_node :: "('n \<Rightarrow> nat option) \<Rightarrow> (nat \<Rightarrow> 'n option) \<Rightarrow> nat \<Rightarrow> nat option" where
  "last_node nxt h q =
     do { n \<leftarrow> h q; case nxt n of None \<Rightarrow> Some q | Some p \<Rightarrow> last_node nxt h p }"

text \<open>Loops that follow the links are proved by this induction.\<close>

lemma chain_induct [consumes 1, case_names null cell]:
  assumes "chain nxt h p as" and "P None []"
    and "\<And>a n as. h a = Some n \<Longrightarrow> chain nxt h (nxt n) as \<Longrightarrow> P (nxt n) as \<Longrightarrow> P (Some a) (a # as)"
  shows "P p as"
  using assms(1)
proof (induction as arbitrary: p)
  case Nil
  then show ?case using assms(2) by simp
next
  case (Cons a as)
  then obtain n where "p = Some a" "h a = Some n" "chain nxt h (nxt n) as" by (auto split: option.splits)
  with Cons.IH assms(3) show ?case by blast
qed

lemma chain_cong: "(\<And>a. a \<in> set as \<Longrightarrow> h a = h' a) \<Longrightarrow> chain nxt h p as = chain nxt h' p as"
  by (induction as arbitrary: p) (auto split: option.splits)

lemma chain_outside [simp]: "b \<notin> set as \<Longrightarrow> chain nxt (h(b := x)) p as = chain nxt h p as"
  by (rule chain_cong) auto

lemma chain_dom: "chain nxt h p as \<Longrightarrow> a \<in> set as \<Longrightarrow> \<exists>n. h a = Some n"
  by (induction as arbitrary: p) (auto split: option.splits)

lemma chain_null: "chain nxt h p as \<Longrightarrow> p = None \<longleftrightarrow> as = []"
  by (cases as) auto

lemma last_node_chain: "chain nxt h p as \<Longrightarrow> p = Some q \<Longrightarrow> last_node nxt h q = Some (last as)"
proof (induction arbitrary: q rule: chain_induct)
  case null
  then show ?case by simp
next
  case (cell a n as)
  show ?case
  proof (cases "nxt n")
    case None
    with cell show ?thesis using chain_null [OF cell(2)] by (subst last_node.simps) simp
  next
    case (Some b)
    with cell show ?thesis using chain_null [OF cell(2)] by (subst last_node.simps) simp
  qed
qed

lemma chain_last: "chain nxt h p as \<Longrightarrow> as \<noteq> [] \<Longrightarrow> \<exists>n. h (last as) = Some n \<and> nxt n = None"
proof (induction rule: chain_induct)
  case null
  then show ?case by simp
next
  case (cell a n as)
  then show ?case using chain_null [OF cell(2)] by (cases "as = []") auto
qed

text \<open>From any cell on, the rest of a chain is a chain.\<close>

lemma chain_drop: "chain nxt h p as \<Longrightarrow> i < length as \<Longrightarrow> chain nxt h (Some (as ! i)) (drop i as)"
proof (induction arbitrary: i rule: chain_induct)
  case null
  then show ?case by simp
next
  case (cell a n as)
  then show ?case by (cases i) auto
qed

text \<open>Cells that are only changed in their contents keep the chain.\<close>

lemma chain_update:
  assumes "h a = Some n" and "nxt n' = nxt n"
  shows "chain nxt (h(a \<mapsto> n')) p as = chain nxt h p as"
  using assms by (induction as arbitrary: p) (auto split: option.splits)

section \<open>Linking a cell\<close>

locale link_field =
  fixes nxt :: "'n \<Rightarrow> nat option"
    and link_to :: "nat \<Rightarrow> 'n \<Rightarrow> 'n"
  assumes nxt_link_to: "nxt (link_to d n) = Some d"
begin

text \<open>Linking a fresh cell behind the last one extends the chain by it.\<close>

lemma chain_snoc:
  "chain nxt h p as \<Longrightarrow> distinct as \<Longrightarrow> as \<noteq> [] \<Longrightarrow> d \<notin> set as \<Longrightarrow> h d = Some n \<Longrightarrow> nxt n = None \<Longrightarrow>
     h (last as) = Some l \<Longrightarrow> chain nxt (h(last as \<mapsto> link_to d l)) p (as @ [d])"
proof (induction as arbitrary: p)
  case Nil
  then show ?case by simp
next
  case (Cons a as)
  show ?case
  proof (cases "as = []")
    case True
    with Cons.prems show ?thesis by (auto simp: nxt_link_to)
  next
    case False
    then have "last as \<noteq> a" using Cons.prems(2) by auto
    with False Cons show ?thesis by (auto split: option.splits)
  qed
qed

end

end
