(* ===== verification/Netroute_Heap.thy ===== *)
theory Netroute_Heap
  imports Netroute Chain
begin

text \<open>
  \<open>src/netroute.c\<close> at the level of pointers. A route list is a chain of heap cells linked by
  \<open>next\<close>; addresses are natural numbers, \<open>None\<close> is the null pointer, and an access to an address
  with no cell is undefined. \<open>malloc\<close> hands out addresses never used before. The loops of the code
  walk whatever chain is there, so they are \<open>partial_function\<close>s: they need not return on a cyclic
  one.

  \<open>list_at h p as rs\<close> relates a head pointer to the list of routes it stands for. The properties say
  that on such chains every function of the file returns, touches no freed cell, leaves the rest of
  the heap alone, and computes what the list functions of \<open>Netroute\<close> compute.
\<close>

record node =
  nd_route :: netroute
  nd_next :: "nat option"

record route_heap = os +
  cells :: "nat \<Rightarrow> node option"
  brk :: nat

definition heap_wf :: "'a route_heap_scheme \<Rightarrow> bool" where
  "heap_wf w \<longleftrightarrow> (\<forall>a n. cells w a = Some n \<longrightarrow> a < brk w)"

definition duplicate_netroute :: "node \<Rightarrow> 'a route_heap_scheme \<Rightarrow> nat option \<times> 'a route_heap_scheme" where
  "duplicate_netroute route w =
     (case malloc w of
        (False, w') \<Rightarrow> (None, w')
      | (True, w') \<Rightarrow>
          (let dupr = brk w'
           in (Some dupr,
               w'\<lparr>cells := (cells w')(dupr \<mapsto> \<lparr>nd_route = nd_route route, nd_next = nd_next route\<rparr>),
                  brk := Suc dupr\<rparr>)))"

definition heap_add_netroute ::
  "node \<Rightarrow> nat option \<Rightarrow> 'a route_heap_scheme \<Rightarrow> (nat option \<times> 'a route_heap_scheme) option" where
  "heap_add_netroute route array w =
     (case duplicate_netroute route w of
        (None, w1) \<Rightarrow> Some (array, w1)
      | (Some dupr, w1) \<Rightarrow>
          do {
            n \<leftarrow> cells w1 dupr;
            let w2 = w1\<lparr>cells := (cells w1)(dupr \<mapsto> n\<lparr>nd_next := None\<rparr>)\<rparr>;
            case array of
              None \<Rightarrow> Some (Some dupr, w2)
            | Some head \<Rightarrow>
                do {
                  q \<leftarrow> last_node nd_next (cells w2) head;
                  ln \<leftarrow> cells w2 q;
                  Some (Some head, w2\<lparr>cells := (cells w2)(q \<mapsto> ln\<lparr>nd_next := Some dupr\<rparr>)\<rparr>)
                }
          })"

partial_function (option) destroy_netroutes ::
  "(nat \<Rightarrow> node option) \<Rightarrow> nat option \<Rightarrow> (nat \<Rightarrow> node option) option" where
  "destroy_netroutes h current =
     (case current of
        None \<Rightarrow> Some h
      | Some p \<Rightarrow> do { n \<leftarrow> h p; destroy_netroutes (h(p := None)) (nd_next n) })"

partial_function (option) heap_netroute_in_array ::
  "netroute \<Rightarrow> (nat \<Rightarrow> node option) \<Rightarrow> nat option \<Rightarrow> nat option option" where
  "heap_netroute_in_array route h i =
     (case i of
        None \<Rightarrow> Some None
      | Some p \<Rightarrow>
          do {
            n \<leftarrow> h p;
            if compare_netroutes route (nd_route n) then Some (Some p)
            else heap_netroute_in_array route h (nd_next n)
          })"

section \<open>Route lists on the heap\<close>

interpretation route_link: link_field nd_next "\<lambda>d n. n\<lparr>nd_next := Some d\<rparr>"
  by unfold_locales simp

definition route_at :: "(nat \<Rightarrow> node option) \<Rightarrow> nat \<Rightarrow> netroute" where
  "route_at h a = nd_route (the (h a))"

definition list_at :: "(nat \<Rightarrow> node option) \<Rightarrow> nat option \<Rightarrow> nat list \<Rightarrow> netroute list \<Rightarrow> bool" where
  "list_at h p as rs \<longleftrightarrow> chain nd_next h p as \<and> distinct as \<and> rs = map (route_at h) as"

lemma destroy_chain:
  "chain nd_next h p as \<Longrightarrow> distinct as \<Longrightarrow> destroy_netroutes h p = Some (h |` (- set as))"
proof (induction as arbitrary: h p)
  case Nil
  then show ?case by (simp add: destroy_netroutes.simps)
next
  case (Cons a as)
  then obtain n where n: "h a = Some n" and p: "p = Some a" and rest: "chain nd_next h (nd_next n) as"
    by (auto split: option.splits)
  have "destroy_netroutes (h(a := None)) (nd_next n) = Some ((h(a := None)) |` (- set as))"
  proof (rule Cons.IH)
    show "chain nd_next (h(a := None)) (nd_next n) as" using rest Cons.prems(2) by (subst chain_outside) auto
  qed (use Cons.prems(2) in simp)
  moreover have "(h(a := None)) |` (- set as) = h |` (- set (a # as))"
    by (auto simp: restrict_map_def)
  ultimately show ?case
    using n unfolding p by (subst destroy_netroutes.simps) simp
qed

lemma in_array_chain:
  "chain nd_next h p as \<Longrightarrow>
     heap_netroute_in_array r h p =
       Some (map_option (\<lambda>i. as ! i) (netroute_in_array r (map (route_at h) as)))"
proof (induction rule: chain_induct)
  case null
  then show ?case by (simp add: heap_netroute_in_array.simps netroute_in_array_def)
next
  case (cell a n as)
  then show ?case
    by (subst heap_netroute_in_array.simps)
      (simp add: netroute_in_array_def route_at_def [abs_def] option.map_comp comp_def)
qed

text \<open>The chain after an append: the old cells, then the new one.\<close>

lemma heap_add_chain:
  assumes lst: "list_at (cells w) p as rs" and wf: "heap_wf w" and ok: "malloc w = (True, w1)"
  shows "\<exists>p' w'. heap_add_netroute r p w = Some (p', w') \<and>
           list_at (cells w') p' (as @ [brk w]) (rs @ [nd_route r]) \<and> heap_wf w' \<and>
           (\<forall>a. a \<notin> set as \<longrightarrow> a \<noteq> brk w \<longrightarrow> cells w' a = cells w a)"
proof -
  let ?d = "brk w" and ?n = "\<lparr>nd_route = nd_route r, nd_next = None\<rparr>"
  let ?h = "(cells w)(?d \<mapsto> ?n)"
  obtain bs where w1: "w1 = w\<lparr>mallocs := bs\<rparr>" using ok by (rule mallocE)
  from lst have ch: "chain nd_next (cells w) p as" and ds: "distinct as" and rs: "rs = map (route_at (cells w)) as"
    by (simp_all add: list_at_def)
  have fresh: "?d \<notin> set as"
    using chain_dom [OF ch] wf by (fastforce simp: heap_wf_def)
  have ch': "chain nd_next ?h p as" using ch fresh by simp
  show ?thesis
  proof (cases p)
    case None
    with ch have "as = []" by (cases as) auto
    with None wf rs show ?thesis
      by (auto simp: heap_add_netroute_def duplicate_netroute_def ok w1 Let_def list_at_def route_at_def
          heap_wf_def intro: less_SucI)
  next
    case (Some hd)
    with ch have ne: "as \<noteq> []" by auto
    obtain l where l: "cells w (last as) = Some l"
      using chain_dom [OF ch, of "last as"] ne by auto
    have lne: "last as \<noteq> ?d" using fresh ne last_in_set by metis
    have lst_node: "last_node nd_next ?h hd = Some (last as)"
      using ch' Some by (rule last_node_chain)
    let ?w' = "w1\<lparr>cells := ?h(last as \<mapsto> l\<lparr>nd_next := Some ?d\<rparr>), brk := Suc ?d\<rparr>"
    have "heap_add_netroute r p w = Some (Some hd, ?w')"
      using Some l lne lst_node
      by (simp add: heap_add_netroute_def duplicate_netroute_def ok w1 Let_def)
    moreover have "chain nd_next (cells ?w') (Some hd) (as @ [?d])"
      using route_link.chain_snoc [OF ch' ds ne fresh, of ?n l] Some l lne by simp
    moreover have "map (route_at (cells ?w')) (as @ [?d]) = rs @ [nd_route r]"
      using l fresh lne by (auto simp: rs route_at_def)
    moreover have "heap_wf ?w'"
      using wf l by (auto simp: heap_wf_def less_Suc_eq w1)
    ultimately show ?thesis
      using ds fresh ne w1 by (intro exI [of _ "Some hd"] exI [of _ ?w']) (auto simp: list_at_def)
  qed
qed

text \<open>While the routes it passes do not match, the search goes on from cell to cell.\<close>

lemma search_reaches:
  assumes "list_at h p as rs" and "i < length as" and "\<forall>j < i. \<not> compare_netroutes r (rs ! j)"
  shows "heap_netroute_in_array r h p = heap_netroute_in_array r h (Some (as ! i))"
  using assms(2,3)
proof (induction i)
  case 0
  then show ?case using assms(1) by (cases as) (auto simp: list_at_def)
next
  case (Suc i)
  have "chain nd_next h (Some (as ! i)) (as ! i # as ! Suc i # drop (Suc (Suc i)) as)"
    using chain_drop [of nd_next h p as i] assms(1) Suc.prems(1) by (simp add: list_at_def Cons_nth_drop_Suc)
  then obtain n where n: "h (as ! i) = Some n" "nd_next n = Some (as ! Suc i)" by (auto split: option.splits)
  have "rs ! i = nd_route n" using assms(1) Suc.prems(1) n(1) by (simp add: list_at_def route_at_def)
  then have "\<not> compare_netroutes r (nd_route n)" using Suc.prems(2) by (metis lessI)
  then have "heap_netroute_in_array r h (Some (as ! i)) = heap_netroute_in_array r h (Some (as ! Suc i))"
    using n by (subst heap_netroute_in_array.simps) simp
  with Suc show ?case by simp
qed

section \<open>Properties\<close>

text \<open>C28. \<open>add_netroute\<close> on the heap implements \<open>add_netroute\<close> on lists: it returns, and the list found
  from the new head is the old list followed by a copy of the route; when the allocation fails the
  list is unchanged. Cells outside the list keep their contents.\<close>

theorem heap_add_refines:
  assumes "list_at (cells w) p as rs" and "heap_wf w"
  shows "\<exists>p' w' as'. heap_add_netroute r p w = Some (p', w') \<and> heap_wf w' \<and>
           list_at (cells w') p' as' (fst (add_netroute (nd_route r) rs w)) \<and>
           (\<forall>a < brk w. a \<notin> set as \<longrightarrow> cells w' a = cells w a)"
proof (cases "malloc w")
  case (Pair ok w1)
  then obtain bs where w1: "w1 = w\<lparr>mallocs := bs\<rparr>" by (rule mallocE)
  show ?thesis
  proof (cases ok)
    case True
    with heap_add_chain [OF assms, of w1 r] Pair show ?thesis
      by (fastforce simp: add_netroute_def append_route_def)
  next
    case False
    with Pair assms w1 show ?thesis
      by (auto simp: heap_add_netroute_def duplicate_netroute_def add_netroute_def heap_wf_def)
  qed
qed

definition heap_of :: "(nat \<Rightarrow> node option) \<Rightarrow> nat \<Rightarrow> route_heap" where
  "heap_of h b = os.extend os_init \<lparr>cells = h, brk = b\<rparr>"

definition mac_route :: "byte \<Rightarrow> netroute" where
  "mac_route b = \<lparr>mac = True, ip4 = False, addr = b # replicate 15 0\<rparr>"

theorem heap_add_refines_witness:
  "\<exists>p' w' as'.
     heap_add_netroute \<lparr>nd_route = mac_route 2, nd_next = None\<rparr> (Some 0)
       (heap_of [0 \<mapsto> \<lparr>nd_route = mac_route 1, nd_next = None\<rparr>] 1) = Some (p', w') \<and>
     list_at (cells w') p' as' [mac_route 1, mac_route 2]"
proof -
  let ?w = "heap_of [0 \<mapsto> \<lparr>nd_route = mac_route 1, nd_next = None\<rparr>] 1"
  have 1: "list_at (cells ?w) (Some 0) [0] [mac_route 1]"
    by (simp add: list_at_def heap_of_def os.defs route_at_def)
  have 2: "heap_wf ?w" by (simp add: heap_wf_def heap_of_def os.defs)
  have 3: "mallocs ?w = []" by (simp add: heap_of_def os.defs os_init_def)
  show ?thesis
    using heap_add_refines [OF 1 2, of "\<lparr>nd_route = mac_route 2, nd_next = None\<rparr>"] 3
    by (auto simp: add_netroute_def append_route_def)
qed

text \<open>\<open>destroy_netroutes\<close> returns on every well-formed list, frees each of its cells exactly once
  (a second free or a read of a freed cell would be undefined) and frees nothing else.\<close>

theorem destroy_frees_exactly:
  assumes "list_at h p as rs"
  shows "destroy_netroutes h p = Some (h |` (- set as))"
  using assms by (simp add: list_at_def destroy_chain)

theorem destroy_frees_exactly_witness:
  "destroy_netroutes [0 \<mapsto> \<lparr>nd_route = mac_route 1, nd_next = Some 3\<rparr>,
                      3 \<mapsto> \<lparr>nd_route = mac_route 2, nd_next = None\<rparr>] (Some 0) = Some Map.empty"
proof -
  let ?h = "[0 \<mapsto> \<lparr>nd_route = mac_route 1, nd_next = Some 3\<rparr>,
             3 \<mapsto> \<lparr>nd_route = mac_route 2, nd_next = None\<rparr>] :: nat \<Rightarrow> node option"
  have "list_at ?h (Some 0) [0, 3] [mac_route 1, mac_route 2]"
    by (simp add: list_at_def route_at_def)
  from destroy_frees_exactly [OF this] show ?thesis by (simp add: restrict_map_def fun_eq_iff)
qed

text \<open>\<open>netroute_in_array\<close> on the heap returns, and returns the cell at the position the list search
  finds: the first cell whose route is the same address, null when there is none.\<close>

theorem heap_search_refines:
  assumes "list_at h p as rs"
  shows "heap_netroute_in_array r h p = Some (map_option (\<lambda>i. as ! i) (netroute_in_array r rs))"
  using assms by (simp add: list_at_def in_array_chain)

theorem heap_search_refines_witness:
  "heap_netroute_in_array (mac_route 2)
     [0 \<mapsto> \<lparr>nd_route = mac_route 1, nd_next = Some 3\<rparr>,
      3 \<mapsto> \<lparr>nd_route = mac_route 2, nd_next = None\<rparr>] (Some 0) = Some (Some 3)"
proof -
  let ?h = "[0 \<mapsto> \<lparr>nd_route = mac_route 1, nd_next = Some 3\<rparr>,
             3 \<mapsto> \<lparr>nd_route = mac_route 2, nd_next = None\<rparr>] :: nat \<Rightarrow> node option"
  have "list_at ?h (Some 0) [0, 3] [mac_route 1, mac_route 2]"
    by (simp add: list_at_def route_at_def)
  from heap_search_refines [OF this, of "mac_route 2"] show ?thesis
    by (simp add: netroute_in_array_def compare_netroutes_def mac_route_def)
qed

text \<open>C25. A search and the destruction of the same list do not go together: whichever cell of the list the
  search has come to when another thread destroys it, its next access is to freed memory. (The device
  thread searches the routes of a peer in \<open>get_peer_route\<close> without a lock, and \<open>set_peer_info\<close> destroys
  them when the accepting thread reuses the slot.)\<close>

theorem route_walk_race:
  assumes "list_at h p as rs" and "i < length as" and "\<forall>j < i. \<not> compare_netroutes r (rs ! j)"
  shows "heap_netroute_in_array r h p = heap_netroute_in_array r h (Some (as ! i)) \<and>
         (\<exists>h'. destroy_netroutes h p = Some h' \<and> heap_netroute_in_array r h' (Some (as ! i)) = None)"
proof
  show "heap_netroute_in_array r h p = heap_netroute_in_array r h (Some (as ! i))"
    using assms by (rule search_reaches)
  have "destroy_netroutes h p = Some (h |` (- set as))" using assms(1) by (simp add: list_at_def destroy_chain)
  moreover have "heap_netroute_in_array r (h |` (- set as)) (Some (as ! i)) = None"
    using assms(2) by (subst heap_netroute_in_array.simps) (simp add: restrict_map_def)
  ultimately show "\<exists>h'. destroy_netroutes h p = Some h' \<and> heap_netroute_in_array r h' (Some (as ! i)) = None" by blast
qed

theorem route_walk_race_witness:
  "heap_netroute_in_array (mac_route 3)
     [0 \<mapsto> \<lparr>nd_route = mac_route 1, nd_next = Some 3\<rparr>, 3 \<mapsto> \<lparr>nd_route = mac_route 2, nd_next = None\<rparr>] (Some 0) = Some None \<and>
   (\<exists>h'. destroy_netroutes
      [0 \<mapsto> \<lparr>nd_route = mac_route 1, nd_next = Some 3\<rparr>, 3 \<mapsto> \<lparr>nd_route = mac_route 2, nd_next = None\<rparr>] (Some 0) = Some h' \<and>
    heap_netroute_in_array (mac_route 3) h' (Some 3) = None)"
proof -
  let ?h = "[0 \<mapsto> \<lparr>nd_route = mac_route 1, nd_next = Some 3\<rparr>,
             3 \<mapsto> \<lparr>nd_route = mac_route 2, nd_next = None\<rparr>] :: nat \<Rightarrow> node option"
  have lst: "list_at ?h (Some 0) [0, 3] [mac_route 1, mac_route 2]" by (simp add: list_at_def route_at_def)
  have i: "1 < length [0, 3 :: nat]" by simp
  have no: "\<forall>j < 1. \<not> compare_netroutes (mac_route 3) ([mac_route 1, mac_route 2] ! j)"
    by (simp add: compare_netroutes_def mac_route_def)
  have ch: "chain nd_next ?h (Some 0) [0, 3]" by simp
  have "heap_netroute_in_array (mac_route 3) ?h (Some 0) = Some None"
    using in_array_chain [OF ch, of "mac_route 3"]
    by (simp add: netroute_in_array_def compare_netroutes_def mac_route_def route_at_def)
  then show ?thesis using route_walk_race [OF lst i no] by simp
qed

end
