(* ===== verification/OpenSSL_API.thy ===== *)
theory OpenSSL_API
  imports VPNd_Prelude
begin

text \<open>
  The OpenSSL functions the sources call, as a record of parameters: \<open>'k\<close> is an RSA key object,
  \<open>'c\<close> the state of a cipher context. No definition of the cryptography is given. Randomised calls
  take the number of the call. A failed call answers \<open>None\<close>.

  What the code relies on is stated here as predicates on the parameters, from OpenSSL's
  documentation: \<open>cbc_sizes\<close> (how many bytes a CBC context with padding hands out), \<open>cbc_pairs\<close>
  (decrypting undoes encrypting under the same key and IV) and \<open>pem_text\<close> (the PEM form of a key is
  text). \<open>toy_ssl\<close> is a concrete record that satisfies them, for the witnesses.
\<close>

record ('k, 'c) openssl =
  pem_write_pub :: "'k \<Rightarrow> byte list"
  pem_read_pub :: "byte list \<Rightarrow> 'k option"
  pem_read_priv :: "byte list \<Rightarrow> 'k option"
  rsa_size :: "'k \<Rightarrow> nat"
  rsa_public_encrypt :: "nat \<Rightarrow> 'k \<Rightarrow> byte list \<Rightarrow> byte list option"
  rsa_private_decrypt :: "'k \<Rightarrow> byte list \<Rightarrow> byte list option"
  rand_priv_bytes :: "nat \<Rightarrow> nat \<Rightarrow> byte list option"
  evp_enc_init :: "byte list \<Rightarrow> byte list \<Rightarrow> 'c option"
  evp_enc_reset :: "'c \<Rightarrow> 'c option"
  evp_enc_update :: "'c \<Rightarrow> int \<Rightarrow> byte list \<Rightarrow> ('c \<times> byte list) option"
  evp_enc_final :: "'c \<Rightarrow> ('c \<times> byte list) option"
  evp_dec_init :: "byte list \<Rightarrow> byte list \<Rightarrow> 'c option"
  evp_dec_reset :: "'c \<Rightarrow> 'c option"
  evp_dec_update :: "'c \<Rightarrow> int \<Rightarrow> byte list \<Rightarrow> ('c \<times> byte list) option"
  evp_dec_final :: "'c \<Rightarrow> ('c \<times> byte list) option"

definition cbc_padded :: "nat \<Rightarrow> nat" where
  "cbc_padded n = 16 * (n div 16 + 1)"

text \<open>
  Sizes. After a reset, an update hands out whole blocks and the final call the padded rest; an
  encryption of \<open>n\<close> bytes has \<open>cbc_padded n\<close> bytes, a decryption never more bytes than it was given,
  and a decrypting update at most one block more than its input.
\<close>

definition cbc_sizes :: "('k, 'c) openssl \<Rightarrow> bool" where
  "cbc_sizes ssl \<longleftrightarrow>
     (\<forall>c c1 bs c2 o1. evp_enc_reset ssl c = Some c1 \<longrightarrow>
        evp_enc_update ssl c1 (int (length bs)) bs = Some (c2, o1) \<longrightarrow>
        length o1 \<le> length bs \<and>
        (\<forall>c3 o2. evp_enc_final ssl c2 = Some (c3, o2) \<longrightarrow>
           length o1 + length o2 = cbc_padded (length bs))) \<and>
     (\<forall>c c1 bs c2 o1. evp_dec_reset ssl c = Some c1 \<longrightarrow>
        evp_dec_update ssl c1 (int (length bs)) bs = Some (c2, o1) \<longrightarrow>
        length o1 \<le> length bs + 16 \<and>
        (\<forall>c3 o2. evp_dec_final ssl c2 = Some (c3, o2) \<longrightarrow> length o1 + length o2 < length bs))"

definition evp_enc_run :: "('k, 'c) openssl \<Rightarrow> 'c \<Rightarrow> byte list \<Rightarrow> ('c \<times> byte list) option" where
  "evp_enc_run ssl c data =
     do {
       c1 \<leftarrow> evp_enc_reset ssl c;
       (c2, o1) \<leftarrow> evp_enc_update ssl c1 (int (length data)) data;
       (c3, o2) \<leftarrow> evp_enc_final ssl c2;
       Some (c3, o1 @ o2)
     }"

definition evp_dec_run :: "('k, 'c) openssl \<Rightarrow> 'c \<Rightarrow> byte list \<Rightarrow> ('c \<times> byte list) option" where
  "evp_dec_run ssl c data =
     do {
       c1 \<leftarrow> evp_dec_reset ssl c;
       (c2, o1) \<leftarrow> evp_dec_update ssl c1 (int (length data)) data;
       (c3, o2) \<leftarrow> evp_dec_final ssl c2;
       Some (c3, o1 @ o2)
     }"

text \<open>
  \<open>R ce cd\<close>: the encrypting context \<open>ce\<close> and the decrypting context \<open>cd\<close> were initialised with the
  same key and IV. Uses do not separate them, because every use starts with a reset.
\<close>

definition cbc_pairs :: "('k, 'c) openssl \<Rightarrow> ('c \<Rightarrow> 'c \<Rightarrow> bool) \<Rightarrow> bool" where
  "cbc_pairs ssl R \<longleftrightarrow>
     (\<forall>key iv ce cd. evp_enc_init ssl key iv = Some ce \<longrightarrow> evp_dec_init ssl key iv = Some cd \<longrightarrow> R ce cd) \<and>
     (\<forall>ce cd data. R ce cd \<longrightarrow> length data < 2 ^ 31 \<longrightarrow>
        (\<exists>ce' cd' ct. evp_enc_run ssl ce data = Some (ce', ct) \<and>
           evp_dec_run ssl cd ct = Some (cd', data) \<and> R ce' cd \<and> R ce cd' \<and> R ce' cd'))"

text \<open>PEM: the text of a key has no zero byte and is read back as the key.\<close>

definition pem_text :: "('k, 'c) openssl \<Rightarrow> bool" where
  "pem_text ssl \<longleftrightarrow>
     (\<forall>k. 0 \<notin> set (pem_write_pub ssl k) \<and> pem_read_pub ssl (pem_write_pub ssl k) = Some k)"

text \<open>
  \<open>rsa_pair ssl pub priv\<close>: OAEP encryption takes up to \<open>rsa_size - 42\<close> bytes, its result is not longer
  than the modulus, and the private key undoes it. \<open>rand_ok\<close>: \<open>RAND_priv_bytes\<close> fills its buffer.
  \<open>evp_ready\<close>: a context can be initialised with any 32-byte key and 16-byte IV.
\<close>

definition rsa_pair :: "('k, 'c) openssl \<Rightarrow> 'k \<Rightarrow> 'k \<Rightarrow> bool" where
  "rsa_pair ssl pub priv \<longleftrightarrow>
     rsa_size ssl pub = rsa_size ssl priv \<and>
     (\<forall>call m. length m + 42 \<le> rsa_size ssl pub \<longrightarrow>
        (\<exists>ct. rsa_public_encrypt ssl call pub m = Some ct \<and> ct \<noteq> [] \<and> length ct \<le> rsa_size ssl pub \<and>
              rsa_private_decrypt ssl priv ct = Some m))"

definition rand_ok :: "('k, 'c) openssl \<Rightarrow> bool" where
  "rand_ok ssl \<longleftrightarrow> (\<forall>call n. \<exists>bs. rand_priv_bytes ssl call n = Some bs \<and> length bs = n)"

definition evp_ready :: "('k, 'c) openssl \<Rightarrow> bool" where
  "evp_ready ssl \<longleftrightarrow>
     (\<forall>key iv. length key = 32 \<longrightarrow> length iv = 16 \<longrightarrow> evp_enc_init ssl key iv \<noteq> None \<and> evp_dec_init ssl key iv \<noteq> None)"

text \<open>
  \<open>rsa_sizes\<close>: an encryption is not longer than the modulus, nor is the decryption of a text that is
  not. \<open>rand_sizes\<close>: what \<open>RAND_priv_bytes\<close> hands out has the size that was asked for.
\<close>

definition rsa_sizes :: "('k, 'c) openssl \<Rightarrow> bool" where
  "rsa_sizes ssl \<longleftrightarrow>
     (\<forall>call k m ct. rsa_public_encrypt ssl call k m = Some ct \<longrightarrow> length ct \<le> rsa_size ssl k) \<and>
     (\<forall>k ct m. rsa_private_decrypt ssl k ct = Some m \<longrightarrow> length ct \<le> rsa_size ssl k \<longrightarrow> length m \<le> rsa_size ssl k)"

definition rand_sizes :: "('k, 'c) openssl \<Rightarrow> bool" where
  "rand_sizes ssl \<longleftrightarrow> (\<forall>call n bs. rand_priv_bytes ssl call n = Some bs \<longrightarrow> length bs = n)"

lemma cbc_sizesD:
  assumes "cbc_sizes ssl"
  shows "evp_enc_reset ssl c = Some c1 \<Longrightarrow>
           evp_enc_update ssl c1 (int (length bs)) bs = Some (c2, o1) \<Longrightarrow> length o1 \<le> length bs"
    and "evp_enc_reset ssl c = Some c1 \<Longrightarrow>
           evp_enc_update ssl c1 (int (length bs)) bs = Some (c2, o1) \<Longrightarrow>
           evp_enc_final ssl c2 = Some (c3, o2) \<Longrightarrow> length o1 + length o2 = cbc_padded (length bs)"
    and "evp_dec_reset ssl c = Some c1 \<Longrightarrow>
           evp_dec_update ssl c1 (int (length bs)) bs = Some (c2, o1) \<Longrightarrow> length o1 \<le> length bs + 16"
    and "evp_dec_reset ssl c = Some c1 \<Longrightarrow>
           evp_dec_update ssl c1 (int (length bs)) bs = Some (c2, o1) \<Longrightarrow>
           evp_dec_final ssl c2 = Some (c3, o2) \<Longrightarrow> length o1 + length o2 < length bs"
  using assms unfolding cbc_sizes_def by (metis, metis, metis, metis)

lemma cbc_pairsD:
  assumes "cbc_pairs ssl R" and "R ce cd" and "length data < 2 ^ 31"
  obtains ce' cd' ct where "evp_enc_run ssl ce data = Some (ce', ct)"
    and "evp_dec_run ssl cd ct = Some (cd', data)" and "R ce' cd" and "R ce cd'" and "R ce' cd'"
  using assms unfolding cbc_pairs_def by metis

section \<open>A concrete instance\<close>

text \<open>
  Two keys, whose PEM forms are two-letter texts; RSA encryption tags the message with the key; the
  cipher only pads. It satisfies the laws above and nothing more is claimed of it.
\<close>

definition toy_pad :: "byte list \<Rightarrow> byte list" where
  "toy_pad bs = replicate (16 - length bs mod 16) (of_nat (16 - length bs mod 16))"

definition toy_tag :: "bool \<Rightarrow> byte" where
  "toy_tag k = (if k then 84 else 70)"

definition toy_ssl :: "(bool, byte list) openssl" where
  "toy_ssl = \<lparr>
     pem_write_pub = (\<lambda>k. [45, toy_tag k]),
     pem_read_pub = (\<lambda>bs. if bs = [45, 84] then Some True else if bs = [45, 70] then Some False else None),
     pem_read_priv = (\<lambda>bs. if bs = [84] then Some True else if bs = [70] then Some False else None),
     rsa_size = (\<lambda>_. 256),
     rsa_public_encrypt = (\<lambda>_ k bs. if length bs \<le> 214 then Some (toy_tag k # bs) else None),
     rsa_private_decrypt = (\<lambda>k bs. case bs of [] \<Rightarrow> None | b # rest \<Rightarrow> if b = toy_tag k then Some rest else None),
     rand_priv_bytes = (\<lambda>i n. Some (replicate n (of_nat i))),
     evp_enc_init = (\<lambda>_ _. Some []),
     evp_enc_reset = (\<lambda>_. Some []),
     evp_enc_update = (\<lambda>c n bs. if n \<le> 0 then (if n = 0 then Some ([], []) else None)
                               else Some (bs, take (16 * (length bs div 16)) bs)),
     evp_enc_final = (\<lambda>c. Some ([], drop (16 * (length c div 16)) c @ toy_pad c)),
     evp_dec_init = (\<lambda>_ _. Some []),
     evp_dec_reset = (\<lambda>_. Some []),
     evp_dec_update = (\<lambda>c n bs. if n \<le> 0 then None else Some (bs, take (length bs - 16) bs)),
     evp_dec_final = (\<lambda>c. if c = [] \<or> length c mod 16 \<noteq> 0 \<or> last c = 0 \<or> 16 < unat (last c) then None
                          else Some ([], take (16 - unat (last c)) (drop (length c - 16) c)))\<rparr>"

lemma toy_cbc_sizes: "cbc_sizes toy_ssl"
proof -
  have "length bs - 16 + min (length bs - (length bs - 16)) (16 - unat (last bs)) < length bs"
    if "bs \<noteq> []" "16 dvd length bs" "last bs \<noteq> 0" for bs :: "byte list"
  proof -
    have "16 \<le> length bs" using that(1,2) by (auto dest: dvd_imp_le)
    moreover have "0 < unat (last bs)" using that(3) by (simp add: unat_gt_0)
    ultimately show ?thesis by simp
  qed
  then show ?thesis
    by (auto simp: cbc_sizes_def toy_ssl_def cbc_padded_def toy_pad_def split: if_splits)
qed

lemma toy_rsa_pair: "rsa_pair toy_ssl k k"
  by (simp add: rsa_pair_def toy_ssl_def)

lemma toy_rsa_sizes: "rsa_sizes toy_ssl"
  by (auto simp: rsa_sizes_def toy_ssl_def split: list.splits if_splits)

lemma toy_rand_sizes: "rand_sizes toy_ssl"
  by (simp add: rand_sizes_def toy_ssl_def)

lemma toy_rand_ok: "rand_ok toy_ssl"
  by (simp add: rand_ok_def toy_ssl_def)

lemma toy_evp_ready: "evp_ready toy_ssl"
  by (simp add: evp_ready_def toy_ssl_def)

lemma toy_pem_text: "pem_text toy_ssl"
  by (simp add: pem_text_def toy_ssl_def toy_tag_def)

lemma toy_enc_run: "evp_enc_run toy_ssl ce data = Some ([], data @ toy_pad data)"
  by (cases "data = []") (simp_all add: evp_enc_run_def toy_ssl_def toy_pad_def)

lemma toy_dec_run: "evp_dec_run toy_ssl cd (data @ toy_pad data) = Some ([], data)"
proof -
  define q where "q = length data div 16"
  define m where "m = length data mod 16"
  have n: "length data = 16 * q + m" by (simp add: q_def m_def)
  have m: "m < 16" by (simp add: m_def)
  have pad: "toy_pad data = replicate (16 - m) (of_nat (16 - m))"
    by (simp add: toy_pad_def m_def)
  have len: "length (data @ toy_pad data) = 16 * q + 16"
    using n m by (simp add: pad)
  have lst: "last (data @ toy_pad data) = of_nat (16 - m)"
    using m by (simp add: pad)
  have u: "unat (of_nat (16 - m) :: byte) = 16 - m"
    using m by (simp only: unat_of_nat) simp
  have nz: "(of_nat (16 - m) :: byte) \<noteq> 0"
    using u m by (metis diff_is_0_eq not_less unat_0)
  have 1: "take (16 * q) (data @ toy_pad data) = take (16 * q) data"
    using n by simp
  have 2: "take m (drop (16 * q) (data @ toy_pad data)) = drop (16 * q) data"
    using n by simp
  have ne: "data @ toy_pad data \<noteq> []" using len by auto
  define ct where "ct = data @ toy_pad data"
  note facts = len lst ne 1 2
  have "evp_dec_run toy_ssl cd ct = Some ([], data)"
    using facts [folded ct_def] u nz m by (simp add: evp_dec_run_def toy_ssl_def)
  then show ?thesis by (simp add: ct_def)
qed

lemma toy_cbc_pairs: "cbc_pairs toy_ssl (\<lambda>_ _. True)"
  by (auto simp: cbc_pairs_def toy_enc_run toy_dec_run)

end
