(* ===== verification/Logger.thy ===== *)
theory Logger
  imports OS_Model
begin

text \<open>
  \<open>src/logger.c\<close>. The static \<open>log_level\<close> joins the process state together with the lines printed
  on the two standard streams. A log call is given the rendered message (the C code renders its
  format with \<open>vfprintf\<close>). The other components' log calls only print, and are left out of their
  models.
\<close>

datatype loglevel = LOG_CRIT | LOG_ERROR | LOG_WARN | LOG_INFO | LOG_DEBUG

text \<open>The \<open>#define\<close>d values; a larger value is a less severe level.\<close>

primrec level_value :: "loglevel \<Rightarrow> int" where
  "level_value LOG_DEBUG = 5"
| "level_value LOG_INFO = 4"
| "level_value LOG_WARN = 3"
| "level_value LOG_ERROR = 2"
| "level_value LOG_CRIT = 1"

lemma level_value_inj [simp]: "level_value a = level_value b \<longleftrightarrow> a = b"
  by (cases a; cases b) simp_all

lemma level_value_bounds [simp]: "1 \<le> level_value l" "level_value l \<le> 5"
  by (cases l; simp)+

instantiation loglevel :: linorder
begin

definition less_eq_loglevel :: "loglevel \<Rightarrow> loglevel \<Rightarrow> bool" where
  "less_eq_loglevel a b \<longleftrightarrow> level_value a \<le> level_value b"

definition less_loglevel :: "loglevel \<Rightarrow> loglevel \<Rightarrow> bool" where
  "less_loglevel a b \<longleftrightarrow> level_value a < level_value b"

instance
  by standard (auto simp: less_eq_loglevel_def less_loglevel_def)

end

record log_state = os +
  log_level :: int
  out_lines :: "string list"
  err_lines :: "string list"

definition log_init :: log_state where
  "log_init = os.extend os_init
     \<lparr>log_level = level_value LOG_WARN, out_lines = [], err_lines = []\<rparr>"

definition log_levels_str :: "string list" where
  "log_levels_str = [''debug'', ''info'', ''warn'', ''error'', ''crit'']"

definition log_levels :: "int list" where
  "log_levels = map level_value [LOG_DEBUG, LOG_INFO, LOG_WARN, LOG_ERROR, LOG_CRIT]"

definition set_logging_level :: "int \<Rightarrow> 'a log_state_scheme \<Rightarrow> int \<times> 'a log_state_scheme" where
  "set_logging_level level w =
     (if level \<ge> level_value LOG_CRIT \<and> level \<le> level_value LOG_DEBUG
      then (0, w\<lparr>log_level := level\<rparr>) else (-1, w))"

definition set_logging_level_str :: "string \<Rightarrow> 'a log_state_scheme \<Rightarrow> int \<times> 'a log_state_scheme" where
  "set_logging_level_str level w =
     (case find_index (\<lambda>s. level = s) log_levels_str of
        Some i \<Rightarrow> set_logging_level (log_levels ! i) w
      | None \<Rightarrow> (-1, w))"

fun print_logging_levels_from :: "string list \<Rightarrow> string" where
  "print_logging_levels_from [] = ''''"
| "print_logging_levels_from [s] = s"
| "print_logging_levels_from (s # t # rest) = s @ '', '' @ print_logging_levels_from (t # rest)"

definition print_logging_levels_str :: string where
  "print_logging_levels_str = print_logging_levels_from log_levels_str"

definition print_logging_level_str :: "int \<Rightarrow> string" where
  "print_logging_level_str level =
     concat (map (\<lambda>(l, s). if level = l then s else '''') (zip log_levels log_levels_str))"

definition logger :: "int \<Rightarrow> string \<Rightarrow> 'a log_state_scheme \<Rightarrow> 'a log_state_scheme" where
  "logger level msg w =
     (if level \<le> log_level w then
        (let line = print_logging_level_str level @ '': '' @ msg
         in if level \<ge> level_value LOG_INFO then w\<lparr>out_lines := out_lines w @ [line]\<rparr>
            else w\<lparr>err_lines := err_lines w @ [line]\<rparr>)
      else w)"

text \<open>The name printed for a level is the name that selects it.\<close>

lemma print_level_name:
  "print_logging_level_str (level_value l) =
     (case l of LOG_DEBUG \<Rightarrow> ''debug'' | LOG_INFO \<Rightarrow> ''info'' | LOG_WARN \<Rightarrow> ''warn''
      | LOG_ERROR \<Rightarrow> ''error'' | LOG_CRIT \<Rightarrow> ''crit'')"
  by (cases l) (simp_all add: print_logging_level_str_def log_levels_def log_levels_str_def)

lemma print_level_values [simp]:
  "print_logging_level_str 5 = ''debug''" "print_logging_level_str 4 = ''info''"
  "print_logging_level_str 3 = ''warn''" "print_logging_level_str 2 = ''error''"
  "print_logging_level_str 1 = ''crit''"
  by (simp_all add: print_logging_level_str_def log_levels_def log_levels_str_def)

lemma set_level_of_name:
  "set_logging_level_str (print_logging_level_str (level_value l)) w =
     (0, w\<lparr>log_level := level_value l\<rparr>)"
  by (cases l)
    (simp_all add: set_logging_level_str_def log_levels_str_def log_levels_def set_logging_level_def)

lemma level_name_cases:
  "s \<in> set log_levels_str \<longleftrightarrow> (\<exists>l. s = print_logging_level_str (level_value l))"
proof
  have names: "t = print_logging_level_str (level_value l) \<Longrightarrow>
      \<exists>l. t = print_logging_level_str (level_value l)" for t l by blast
  assume "s \<in> set log_levels_str"
  then have "s = ''debug'' \<or> s = ''info'' \<or> s = ''warn'' \<or> s = ''error'' \<or> s = ''crit''"
    by (simp add: log_levels_str_def)
  then show "\<exists>l. s = print_logging_level_str (level_value l)"
    using names [of s LOG_DEBUG] names [of s LOG_INFO] names [of s LOG_WARN]
      names [of s LOG_ERROR] names [of s LOG_CRIT] by (elim disjE) simp_all
next
  assume "\<exists>l. s = print_logging_level_str (level_value l)"
  then obtain l where "s = print_logging_level_str (level_value l)" by blast
  then show "s \<in> set log_levels_str"
    by (cases l) (simp_all add: log_levels_str_def)
qed

lemma set_level_str_other:
  "s \<notin> set log_levels_str \<Longrightarrow> set_logging_level_str s w = (-1, w)"
  using find_index_None [of "\<lambda>t. s = t" log_levels_str]
  by (auto simp: set_logging_level_str_def)

definition level_ok :: "'a log_state_scheme \<Rightarrow> bool" where
  "level_ok w \<longleftrightarrow> log_level w \<in> set log_levels"

lemma level_value_in: "level_value l \<in> set log_levels"
  by (cases l) (simp_all add: log_levels_def)

section \<open>Properties\<close>

text \<open>After the log level has been set by the name of level \<open>l\<close>, a message of level \<open>m\<close> is printed
  exactly when \<open>m\<close> is at least as severe as \<open>l\<close>, as one line that starts with the level's name, on
  standard output for the levels info and debug and on standard error for the others.\<close>

theorem logger_threshold:
  "logger (level_value m) msg (snd (set_logging_level_str (print_logging_level_str (level_value l)) w)) =
     (let w' = w\<lparr>log_level := level_value l\<rparr>;
          line = print_logging_level_str (level_value m) @ '': '' @ msg
      in if l < m then w'
         else if LOG_INFO \<le> m then w'\<lparr>out_lines := out_lines w @ [line]\<rparr>
         else w'\<lparr>err_lines := err_lines w @ [line]\<rparr>)"
  by (simp add: set_level_of_name logger_def Let_def less_loglevel_def less_eq_loglevel_def)

text \<open>\<open>set_logging_level_str\<close> accepts exactly the five documented names; any other string is refused
  with -1 and changes nothing; a level that was valid stays valid.\<close>

theorem set_level_str_total:
  "fst (set_logging_level_str s w) = (if s \<in> set log_levels_str then 0 else -1) \<and>
   (fst (set_logging_level_str s w) = -1 \<longrightarrow> snd (set_logging_level_str s w) = w) \<and>
   (level_ok w \<longrightarrow> level_ok (snd (set_logging_level_str s w)))"
proof (cases "s \<in> set log_levels_str")
  case True
  then obtain l where "s = print_logging_level_str (level_value l)"
    by (auto simp: level_name_cases)
  with True show ?thesis
    by (simp add: set_level_of_name level_ok_def level_value_in)
next
  case False
  then show ?thesis by (simp add: set_level_str_other)
qed

theorem set_level_str_total_witness:
  "snd (set_logging_level_str ''loud'' log_init) = log_init \<and>
   level_ok (snd (set_logging_level_str ''info'' log_init))"
  using set_level_str_total [of "''loud''" log_init] set_level_str_total [of "''info''" log_init]
  by (simp add: log_levels_str_def level_ok_def log_init_def log_levels_def os.defs)

end
