(* ===== verification/Config.thy ===== *)
theory Config
  imports Logger
begin

text \<open>
  \<open>src/config.c\<close>: the static \<open>config_dir\<close>, an owned string, and \<open>join_paths\<close>. Strings are C strings
  without their terminator. Results: \<open>None\<close> for undefined behaviour, \<open>Some None\<close> for the null
  pointer that reports an exhausted allocator.
\<close>

record cfg_state = log_state +
  config_dir :: "string cptr"

definition cfg_init :: cfg_state where
  "cfg_init = log_state.extend log_init \<lparr>config_dir = Null\<rparr>"

text \<open>
  \<open>path1[path1_len - 1]\<close> is read whatever the length: an empty first path reads the byte before
  the string. \<open>path2[0]\<close> is the terminator when the second path is empty.
\<close>

definition join_paths :: "string \<Rightarrow> string \<Rightarrow> 'a os_scheme \<Rightarrow> (string option \<times> 'a os_scheme) option" where
  "join_paths path1 path2 w =
     (case malloc w of
        (False, w') \<Rightarrow> Some (None, w')
      | (True, w') \<Rightarrow>
          (if path1 = [] then None
           else
             (let slash1 = (last path1 = CHR ''/'');
                  slash2 = (path2 \<noteq> [] \<and> hd path2 = CHR ''/'')
              in if \<not> slash1 \<and> \<not> slash2 then Some (Some (path1 @ ''/'' @ path2), w')
                 else if slash1 \<and> slash2 then Some (Some (path1 @ tl path2), w')
                 else Some (Some (path1 @ path2), w'))))"

definition daemon_config_dir :: "'a cfg_state_scheme \<Rightarrow> string cptr" where
  "daemon_config_dir w = config_dir w"

definition free_config_dir :: "'a cfg_state_scheme \<Rightarrow> 'a cfg_state_scheme option" where
  "free_config_dir w = do { p \<leftarrow> cfree (config_dir w); Some (w\<lparr>config_dir := p\<rparr>) }"

definition set_config_dir :: "string \<Rightarrow> 'a cfg_state_scheme \<Rightarrow> (string cptr \<times> 'a cfg_state_scheme) option"
  where
  "set_config_dir dir w =
     do {
       w1 \<leftarrow> free_config_dir w;
       let (ok, w2) = malloc w1;
       let w3 = w2\<lparr>config_dir := (if ok then Ptr dir else Null)\<rparr>;
       Some (config_dir w3, w3)
     }"

text \<open>Reference: drop one trailing slash, drop one leading slash, put one slash between.\<close>

definition drop_last_slash :: "string \<Rightarrow> string" where
  "drop_last_slash p = (if p \<noteq> [] \<and> last p = CHR ''/'' then butlast p else p)"

definition drop_first_slash :: "string \<Rightarrow> string" where
  "drop_first_slash p = (if p \<noteq> [] \<and> hd p = CHR ''/'' then tl p else p)"

lemma join_paths_reference:
  assumes "path1 \<noteq> []" and "mallocs w = []"
  shows "join_paths path1 path2 w =
           Some (Some (drop_last_slash path1 @ ''/'' @ drop_first_slash path2), w)"
proof (cases path1 rule: rev_cases)
  case Nil
  with assms show ?thesis by simp
next
  case (snoc p c)
  with assms(2) show ?thesis
    by (cases path2)
      (simp_all add: join_paths_def malloc_def Let_def drop_last_slash_def drop_first_slash_def)
qed

lemma join_pathsE:
  assumes "join_paths p q w = Some (r, w')"
  obtains ms where "w' = w\<lparr>mallocs := ms\<rparr>"
proof -
  obtain b w1 where m: "malloc w = (b, w1)" by (cases "malloc w")
  then have "w' = w1" using assms by (cases b) (auto simp: join_paths_def Let_def split: if_splits)
  then show thesis using m that by (elim mallocE) simp
qed

lemma join_paths_same: "join_paths p q w = Some (r, w') \<Longrightarrow> mallocs w = [] \<Longrightarrow> w' = w"
  by (auto simp: join_paths_def Let_def split: if_splits)

lemma join_paths_mallocs: "join_paths p q w = Some (r, w') \<Longrightarrow> mallocs w = [] \<Longrightarrow> mallocs w' = []"
  using join_paths_same by metis

lemma join_paths_bind:
  "Option.bind (join_paths d n w) (\<lambda>(p, w1). f p w1) = Some r \<Longrightarrow> mallocs w = [] \<Longrightarrow> \<exists>p. f p w = Some r"
  by (auto simp: Option.bind_eq_Some_conv dest!: join_paths_same)

section \<open>Properties\<close>

text \<open>For a non-empty first path and a successful allocation \<open>join_paths\<close> is the reference: exactly one
  slash stands at the seam, whichever of the two paths brought one; the result with its terminator
  fits the \<open>path1_len + strlen(path2) + 2\<close> bytes the code allocates.\<close>

theorem join_paths_one_slash:
  assumes "path1 \<noteq> []" and "mallocs w = []"
  shows "\<exists>p. join_paths path1 path2 w = Some (Some p, w) \<and>
           p = drop_last_slash path1 @ ''/'' @ drop_first_slash path2 \<and>
           length p + 1 \<le> length path1 + length path2 + 2"
  using join_paths_reference [OF assms, of path2]
  by (auto simp: drop_last_slash_def drop_first_slash_def)

theorem join_paths_one_slash_witness:
  "join_paths ''./'' ''key.priv'' os_init = Some (Some ''./key.priv'', os_init)"
  using join_paths_one_slash [of "''./''" os_init "''key.priv''"]
  by (simp add: os_init_def drop_last_slash_def drop_first_slash_def)

text \<open>An empty first path makes \<open>join_paths\<close> read outside its argument, and an empty directory is
  accepted by \<open>set_config_dir\<close> (it is what \<open>--config ""\<close> passes), so the fault is reachable from the
  command line.\<close>

theorem empty_config_dir_fault:
  assumes "config_dir w \<noteq> Dangling" and "mallocs w = []"
  shows "\<exists>w'. set_config_dir '''' w = Some (Ptr '''', w') \<and> daemon_config_dir w' = Ptr '''' \<and>
           join_paths '''' name w' = None"
  using assms
  by (cases "config_dir w")
    (simp_all add: set_config_dir_def free_config_dir_def malloc_def daemon_config_dir_def
      join_paths_def)

theorem empty_config_dir_fault_witness:
  "\<exists>w'. set_config_dir '''' cfg_init = Some (Ptr '''', w') \<and> daemon_config_dir w' = Ptr '''' \<and>
     join_paths '''' ''key.pub'' w' = None"
  by (rule empty_config_dir_fault)
    (simp_all add: cfg_init_def log_init_def os_init_def os.defs log_state.defs)

end
