(* ===== verification/Interface.thy ===== *)
theory Interface
  imports Config
begin

text \<open>
  \<open>src/interface.c\<close>: the TUN/TAP device. The statics \<open>if_fd\<close>, \<open>if_tap\<close> and \<open>devname\<close> join the
  process state. The answers of \<open>open\<close> and \<open>ioctl\<close>, and the name the kernel gives the device, are
  arguments of \<open>tuntap_open\<close>; what a \<open>read\<close> of the device answers is an argument of \<open>tuntap_read\<close>;
  \<open>write\<close> is \<open>dev_write\<close> of \<open>OS_Model\<close>. The device mutex is held during the whole write loop, so the
  loop is one step.
\<close>

definition IFNAMSIZ :: nat where "IFNAMSIZ = 16"

record iface_state = cfg_state +
  if_fd :: int
  if_tap :: bool
  devname :: string

definition iface_init :: iface_state where
  "iface_init = cfg_state.extend cfg_init \<lparr>if_fd = -1, if_tap = False, devname = ''''\<rparr>"

definition tuntap_fildes :: "'a iface_state_scheme \<Rightarrow> int" where
  "tuntap_fildes w = if_fd w"

definition tuntap_tap_mode :: "'a iface_state_scheme \<Rightarrow> bool" where
  "tuntap_tap_mode w = if_tap w"

definition tuntap_devname :: "'a iface_state_scheme \<Rightarrow> string" where
  "tuntap_devname w = devname w"

definition tuntap_close :: "'a iface_state_scheme \<Rightarrow> 'a iface_state_scheme" where
  "tuntap_close w = (if if_fd w > 0 then (sys_close (if_fd w) w)\<lparr>if_fd := -1\<rparr> else w)"

text \<open>
  \<open>dev\<close> is the caller's name buffer (\<open>None\<close>: a null pointer, which the final \<open>strcpy\<close> does not
  survive). The result is the return value, the buffer afterwards and the state.
\<close>

definition tuntap_open ::
  "int \<Rightarrow> int \<Rightarrow> (string \<Rightarrow> string) \<Rightarrow> string option \<Rightarrow> bool \<Rightarrow> 'a iface_state_scheme
     \<Rightarrow> (int \<times> string option \<times> 'a iface_state_scheme) option" where
  "tuntap_open open_ret ioctl_ret kernel_name dev tap_mode w =
     (if if_fd w > 0 then Some (-1, dev, w)
      else
        (let fd = open_ret
         in if fd < 0 then Some (-1, dev, w)
            else
              (let requested = (case dev of None \<Rightarrow> '''' | Some d \<Rightarrow> take (IFNAMSIZ - 1) d);
                   ifr_name = take (IFNAMSIZ - 1) (kernel_name requested)
               in if ioctl_ret < 0 then Some (-1, dev, sys_close fd w)
                  else
                    (case dev of
                       None \<Rightarrow> None
                     | Some _ \<Rightarrow>
                         Some (fd, Some ifr_name,
                               w\<lparr>devname := ifr_name, if_fd := fd, if_tap := tap_mode\<rparr>)))))"

definition tuntap_write :: "byte list \<Rightarrow> 'a iface_state_scheme \<Rightarrow> int \<times> 'a iface_state_scheme" where
  "tuntap_write buf w =
     (if if_fd w < 0 then (-1, w)
      else (case put_all dev_write w buf of (t, w') \<Rightarrow> (int t, w')))"

text \<open>A read hands over one packet, cut to the size of the buffer; \<open>None\<close> is an error.\<close>

definition tuntap_read :: "byte list option \<Rightarrow> nat \<Rightarrow> 'a iface_state_scheme \<Rightarrow> int \<times> byte list" where
  "tuntap_read packet nbytes w =
     (if if_fd w < 0 then (-1, [])
      else (case packet of None \<Rightarrow> (-1, [])
            | Some p \<Rightarrow> (int (length (take nbytes p)), take nbytes p)))"

lemma tuntap_writeE:
  assumes "tuntap_write buf w = (r, w')"
  obtains rs out where "w' = w\<lparr>write_rets := rs, tun_out := out\<rparr>"
proof (cases "if_fd w < 0")
  case True
  with assms that [of "tun_out w" "write_rets w"] show thesis by (simp add: tuntap_write_def)
next
  case False
  obtain t w1 where "put_all dev_write w buf = (t, w1)" by (cases "put_all dev_write w buf")
  with assms False that show thesis
    by (auto simp: tuntap_write_def elim: put_all_writeE)
qed

lemma tuntap_write_empty: "tuntap_write [] w = (if if_fd w < 0 then -1 else 0, w)"
  by (simp add: tuntap_write_def)

lemma tuntap_write_delivers:
  assumes "0 \<le> if_fd w" and "write_rets w = []" and "buf \<noteq> []"
  shows "tuntap_write buf w = (int (length buf), w\<lparr>tun_out := tun_out w @ [buf]\<rparr>)"
  using assms by (simp add: tuntap_write_def put_all_Cons dev_write_def)

section \<open>Properties\<close>

text \<open>\<open>tuntap_write\<close> delivers to the device exactly the first bytes of the buffer, as many as it
  reports, in order, however the kernel splits the writes; with no failing write it delivers and
  reports all of them.\<close>

theorem tuntap_write_prefix:
  assumes "0 \<le> if_fd w" and "tuntap_write buf w = (r, w')"
  shows "0 \<le> r \<and> r \<le> int (length buf) \<and>
         concat (tun_out w') = concat (tun_out w) @ take (nat r) buf \<and>
         (write_good w \<longrightarrow> r = int (length buf))"
proof -
  obtain t where t: "put_all dev_write w buf = (t, w')" and r: "r = int t"
    using assms by (auto simp: tuntap_write_def split: prod.splits)
  show ?thesis
    using dev.put_all_prefix [OF t] dev.put_all_complete [OF _ t] by (auto simp: r)
qed

theorem tuntap_write_prefix_witness:
  "concat (tun_out (snd (tuntap_write [1, 2, 3] (iface_init\<lparr>if_fd := 7, write_rets := [2, 5]\<rparr>)))) = [1, 2, 3]"
proof -
  let ?w = "iface_init\<lparr>if_fd := 7, write_rets := [2, 5]\<rparr>"
  have fd: "0 \<le> if_fd ?w" by simp
  have good: "write_good ?w" by (simp add: write_good_def)
  have init: "concat (tun_out ?w) = []"
    by (simp add: iface_init_def cfg_init_def log_init_def os_init_def os.defs log_state.defs cfg_state.defs)
  show ?thesis
    using tuntap_write_prefix [OF fd surjective_pairing, of "[1, 2, 3]"] good init by simp
qed

text \<open>C40. The device is a two-state machine: a failed \<open>tuntap_open\<close> changes no static and closes every
  descriptor it obtained; a successful one makes the descriptor, the mode and the name visible; while
  a descriptor is in use a second open is refused; \<open>tuntap_close\<close> closes exactly that descriptor and
  from then on reads and writes are refused. A second close does nothing.\<close>

theorem tuntap_open_close:
  assumes "tuntap_open open_ret ioctl_ret kn (Some d) tap w = Some (r, d', w1)"
  shows "(r = -1 \<longrightarrow> if_fd w1 = if_fd w \<and> if_tap w1 = if_tap w \<and> devname w1 = devname w \<and> d' = Some d \<and>
            closed w1 = closed w @ (if 0 \<le> open_ret \<and> if_fd w \<le> 0 then [open_ret] else [])) \<and>
         (r \<noteq> -1 \<longrightarrow> r = open_ret \<and> tuntap_fildes w1 = open_ret \<and> tuntap_tap_mode w1 = tap \<and>
            d' = Some (tuntap_devname w1) \<and> length (tuntap_devname w1) < IFNAMSIZ \<and>
            closed w1 = closed w) \<and>
         (0 < r \<longrightarrow>
            tuntap_open o2 i2 kn2 (Some e) tap2 w1 = Some (-1, Some e, w1) \<and>
            closed (tuntap_close w1) = closed w @ [open_ret] \<and>
            fst (tuntap_write buf (tuntap_close w1)) = -1 \<and>
            fst (tuntap_read pkt n (tuntap_close w1)) = -1 \<and>
            tuntap_close (tuntap_close w1) = tuntap_close w1)"
  using assms
  by (auto simp: tuntap_open_def tuntap_close_def tuntap_write_def tuntap_read_def Let_def sys_close_def
      tuntap_fildes_def tuntap_tap_mode_def tuntap_devname_def IFNAMSIZ_def split: if_splits)

theorem tuntap_open_close_witness:
  "\<exists>w1. tuntap_open 5 0 (\<lambda>s. s) (Some ''vpnd'') True iface_init = Some (5, Some ''vpnd'', w1) \<and>
     closed (tuntap_close w1) = [5]"
proof -
  let ?w = "iface_init\<lparr>devname := ''vpnd'', if_fd := 5, if_tap := True\<rparr>"
  have o: "tuntap_open 5 0 (\<lambda>s. s) (Some ''vpnd'') True iface_init = Some (5, Some ''vpnd'', ?w)"
    by (simp add: tuntap_open_def iface_init_def cfg_state.defs IFNAMSIZ_def Let_def)
  show ?thesis
    using tuntap_open_close [OF o] o
    by (simp add: iface_init_def cfg_init_def log_init_def os_init_def os.defs log_state.defs cfg_state.defs)
qed

end
