(* ===== verification/Rsa.thy ===== *)
theory Rsa
  imports OpenSSL_API Interface
begin

text \<open>
  \<open>src/rsa.c\<close>: the daemon's key pair, the trusted keys, and the RSA calls. The statics join the
  process state: \<open>daemon_privkey\<close> and \<open>daemon_pubkey\<close> are owned pointers, \<open>trusted_keys\<close> is the
  linked list of live keys in order. The file system is a parameter: \<open>fs path\<close> is the content of a
  readable file, a directory listing is the list of its entries (regular file or not, name).
\<close>

record 'k key_state = iface_state +
  daemon_privkey :: "'k cptr"
  daemon_pubkey :: "'k cptr"
  trusted_keys :: "'k list"

definition key_init :: "'k key_state" where
  "key_init = iface_state.extend iface_init
     \<lparr>daemon_privkey = Null, daemon_pubkey = Null, trusted_keys = []\<rparr>"

section \<open>Loading and using keys\<close>

text \<open>
  \<open>BIO_new_mem_buf(key, len)\<close>: the length is an \<open>int\<close>, and a negative one means that the data ends
  at the first zero byte.
\<close>

definition bio_mem_buf :: "byte list \<Rightarrow> u32 \<Rightarrow> byte list option" where
  "bio_mem_buf buf len =
     (if 0 \<le> sint len then mem_read buf 0 (unat len)
      else if 0 \<in> set buf then Some (takeWhile (\<lambda>b. b \<noteq> 0) buf)
      else None)"

definition load_rsa_key_from_string ::
  "('k, 'c) openssl \<Rightarrow> byte list \<Rightarrow> u32 \<Rightarrow> bool \<Rightarrow> 'a os_scheme \<Rightarrow> ('k option \<times> 'a os_scheme) option" where
  "load_rsa_key_from_string ssl key key_len public w =
     (case malloc w of
        (False, w') \<Rightarrow> Some (None, w')
      | (True, w') \<Rightarrow>
          do {
            bs \<leftarrow> bio_mem_buf key key_len;
            Some (if public then pem_read_pub ssl bs else pem_read_priv ssl bs, w')
          })"

definition load_rsa_key ::
  "('k, 'c) openssl \<Rightarrow> (string \<Rightarrow> byte list option) \<Rightarrow> string \<Rightarrow> bool \<Rightarrow> 'k option" where
  "load_rsa_key ssl fs filepath public =
     (case fs filepath of
        None \<Rightarrow> None
      | Some content \<Rightarrow> if public then pem_read_pub ssl content else pem_read_priv ssl content)"

text \<open>\<open>(unsigned) RSA_MAXSIZE(k)\<close>: the difference is an \<open>int\<close> and wraps when converted.\<close>

definition RSA_MAXSIZE :: "('k, 'c) openssl \<Rightarrow> 'k \<Rightarrow> u32" where
  "RSA_MAXSIZE ssl k = of_int (int (rsa_size ssl k) - 41)"

definition rsa_encrypt ::
  "('k, 'c) openssl \<Rightarrow> nat \<Rightarrow> byte list \<Rightarrow> u32 \<Rightarrow> byte list \<Rightarrow> 'k option \<Rightarrow> (int \<times> byte list) option" where
  "rsa_encrypt ssl call src src_len dest pubkey =
     (case pubkey of
        None \<Rightarrow> Some (-1, dest)
      | Some k \<Rightarrow>
          (if src_len > RSA_MAXSIZE ssl k then Some (-1, dest)
           else
             do {
               bs \<leftarrow> mem_read src 0 (unat src_len);
               case rsa_public_encrypt ssl call k bs of
                 None \<Rightarrow> Some (-1, dest)
               | Some ct \<Rightarrow> do { d \<leftarrow> mem_write dest 0 ct; Some (int (length ct), d) }
             }))"

definition rsa_decrypt ::
  "('k, 'c) openssl \<Rightarrow> byte list \<Rightarrow> u32 \<Rightarrow> byte list \<Rightarrow> 'k option \<Rightarrow> (int \<times> byte list) option" where
  "rsa_decrypt ssl src src_len dest privkey =
     (case privkey of
        None \<Rightarrow> Some (-1, dest)
      | Some k \<Rightarrow>
          (if src_len > of_nat (rsa_size ssl k) then Some (-1, dest)
           else
             do {
               bs \<leftarrow> mem_read src 0 (unat src_len);
               case rsa_private_decrypt ssl k bs of
                 None \<Rightarrow> Some (-1, dest)
               | Some pt \<Rightarrow> do { d \<leftarrow> mem_write dest 0 pt; Some (int (length pt), d) }
             }))"

lemma rsa_encrypt_length: "rsa_encrypt ssl c s n d k = Some (r, d') \<Longrightarrow> length d' = length d"
  by (auto simp: rsa_encrypt_def Option.bind_eq_Some_conv mem_write_length split: option.splits if_splits)

section \<open>The daemon's keys\<close>

definition get_daemon_privkey :: "('k, 'a) key_state_scheme \<Rightarrow> 'k cptr" where
  "get_daemon_privkey w = daemon_privkey w"

definition get_daemon_pubkey :: "('k, 'a) key_state_scheme \<Rightarrow> 'k cptr" where
  "get_daemon_pubkey w = daemon_pubkey w"

definition load_daemon_privkey ::
  "('k, 'c) openssl \<Rightarrow> (string \<Rightarrow> byte list option) \<Rightarrow> ('k, 'a) key_state_scheme
     \<Rightarrow> ('k cptr \<times> ('k, 'a) key_state_scheme) option" where
  "load_daemon_privkey ssl fs w =
     do {
       dir \<leftarrow> cderef (daemon_config_dir w);
       (p, w1) \<leftarrow> join_paths dir ''key.priv'' w;
       case p of
         None \<Rightarrow> Some (daemon_privkey w1, w1)
       | Some path \<Rightarrow>
           do {
             _ \<leftarrow> cfree (daemon_privkey w1);
             let w2 = w1\<lparr>daemon_privkey := of_opt (load_rsa_key ssl fs path False)\<rparr>;
             Some (daemon_privkey w2, w2)
           }
     }"

definition load_daemon_pubkey ::
  "('k, 'c) openssl \<Rightarrow> (string \<Rightarrow> byte list option) \<Rightarrow> ('k, 'a) key_state_scheme
     \<Rightarrow> ('k cptr \<times> ('k, 'a) key_state_scheme) option" where
  "load_daemon_pubkey ssl fs w =
     do {
       dir \<leftarrow> cderef (daemon_config_dir w);
       (p, w1) \<leftarrow> join_paths dir ''key.pub'' w;
       case p of
         None \<Rightarrow> Some (daemon_privkey w1, w1)
       | Some path \<Rightarrow>
           do {
             _ \<leftarrow> cfree (daemon_pubkey w1);
             let w2 = w1\<lparr>daemon_pubkey := of_opt (load_rsa_key ssl fs path True)\<rparr>;
             Some (daemon_pubkey w2, w2)
           }
     }"

definition free_daemon_keys :: "('k, 'a) key_state_scheme \<Rightarrow> ('k, 'a) key_state_scheme option" where
  "free_daemon_keys w =
     do {
       pub \<leftarrow> cfree (daemon_pubkey w);
       priv \<leftarrow> cfree (daemon_privkey w);
       Some (w\<lparr>daemon_pubkey := pub, daemon_privkey := priv\<rparr>)
     }"

section \<open>Trusted keys\<close>

text \<open>\<open>strncmp(a, b, n) == 0\<close>: equal up to \<open>n\<close> characters or the first terminator.\<close>

fun strncmp_eq :: "byte list \<Rightarrow> byte list \<Rightarrow> nat \<Rightarrow> bool" where
  "strncmp_eq xs ys 0 = True"
| "strncmp_eq (x # xs) (y # ys) (Suc n) = (x = y \<and> (x = 0 \<or> strncmp_eq xs ys n))"
| "strncmp_eq xs ys (Suc n) = (xs = ys)"

definition keys_match :: "('k, 'c) openssl \<Rightarrow> 'k \<Rightarrow> 'k \<Rightarrow> 'a os_scheme \<Rightarrow> bool \<times> 'a os_scheme" where
  "keys_match ssl k1 k2 w =
     (let (b1, w1) = malloc w; (b2, w2) = malloc w1
      in if \<not> b1 \<or> \<not> b2 then (False, w2)
         else
           (let m1 = pem_write_pub ssl k1; m2 = pem_write_pub ssl k2
            in (length m1 = length m2 \<and> strncmp_eq m1 m2 (length m1), w2)))"

definition add_trusted_key :: "'k \<Rightarrow> ('k, 'a) key_state_scheme \<Rightarrow> ('k, 'a) key_state_scheme" where
  "add_trusted_key key w =
     (case malloc w of
        (False, w') \<Rightarrow> w'
      | (True, w') \<Rightarrow> w'\<lparr>trusted_keys := trusted_keys w' @ [key]\<rparr>)"

definition clear_trusted_keys :: "('k, 'a) key_state_scheme \<Rightarrow> ('k, 'a) key_state_scheme" where
  "clear_trusted_keys w = w\<lparr>trusted_keys := []\<rparr>"

text \<open>
  The loop of \<open>load_trusted_keys\<close>; \<open>True\<close> when it left through the branch that has already closed
  the directory. The function then closes the directory stream a second time, which is undefined.
\<close>

fun load_trusted_from ::
  "('k, 'c) openssl \<Rightarrow> (string \<Rightarrow> byte list option) \<Rightarrow> string \<Rightarrow> (bool \<times> string) list
     \<Rightarrow> ('k, 'a) key_state_scheme \<Rightarrow> (bool \<times> ('k, 'a) key_state_scheme) option" where
  "load_trusted_from ssl fs path [] w = Some (False, w)"
| "load_trusted_from ssl fs path ((regular, name) # elements) w =
     (if regular then
        do {
          (p, w1) \<leftarrow> join_paths path name w;
          case p of
            None \<Rightarrow> Some (True, w1)
          | Some fullpath \<Rightarrow>
              load_trusted_from ssl fs path elements
                (case load_rsa_key ssl fs fullpath True of
                   None \<Rightarrow> w1
                 | Some key \<Rightarrow> add_trusted_key key w1)
        }
      else load_trusted_from ssl fs path elements w)"

definition load_trusted_keys ::
  "('k, 'c) openssl \<Rightarrow> (string \<Rightarrow> byte list option) \<Rightarrow> (string \<Rightarrow> (bool \<times> string) list option)
     \<Rightarrow> ('k, 'a) key_state_scheme \<Rightarrow> ('k, 'a) key_state_scheme option" where
  "load_trusted_keys ssl fs dirs w =
     do {
       dir \<leftarrow> cderef (daemon_config_dir w);
       (p, w1) \<leftarrow> join_paths dir ''trusted_keys'' w;
       case p of
         None \<Rightarrow> Some w1
       | Some path \<Rightarrow>
           (case dirs path of
              None \<Rightarrow> Some w1
            | Some elements \<Rightarrow>
                do {
                  (closed_already, w2) \<leftarrow> load_trusted_from ssl fs path elements w1;
                  if closed_already then None else Some w2
                })
     }"

fun is_trusted_from :: "('k, 'c) openssl \<Rightarrow> 'k \<Rightarrow> 'k list \<Rightarrow> 'a os_scheme \<Rightarrow> bool \<times> 'a os_scheme" where
  "is_trusted_from ssl key [] w = (False, w)"
| "is_trusted_from ssl key (rkey # rkeys) w =
     (case keys_match ssl key rkey w of
        (True, w') \<Rightarrow> (True, w')
      | (False, w') \<Rightarrow> is_trusted_from ssl key rkeys w')"

definition is_trusted_key ::
  "('k, 'c) openssl \<Rightarrow> 'k \<Rightarrow> ('k, 'a) key_state_scheme \<Rightarrow> bool \<times> ('k, 'a) key_state_scheme" where
  "is_trusted_key ssl key w = is_trusted_from ssl key (trusted_keys w) w"

section \<open>Lemmas\<close>

lemma strncmp_eq_text:
  "length xs = length ys \<Longrightarrow> 0 \<notin> set xs \<Longrightarrow> strncmp_eq xs ys (length xs) \<longleftrightarrow> xs = ys"
  by (induction xs ys rule: list_induct2) auto

lemma keys_match_result:
  assumes "keys_match ssl k1 k2 w = (b, w')"
  shows "\<exists>ms. w' = w\<lparr>mallocs := ms\<rparr>"
    and "b \<Longrightarrow> pem_text ssl \<Longrightarrow> k1 = k2"
    and "mallocs w = [] \<Longrightarrow> w' = w \<and> (pem_text ssl \<longrightarrow> b = (k1 = k2))"
proof -
  have eq: "pem_text ssl \<Longrightarrow> length (pem_write_pub ssl k1) = length (pem_write_pub ssl k2) \<Longrightarrow>
      strncmp_eq (pem_write_pub ssl k1) (pem_write_pub ssl k2) (length (pem_write_pub ssl k1)) \<Longrightarrow> k1 = k2"
    by (metis option.inject pem_text_def strncmp_eq_text)
  obtain b1 w1 b2 w2 where m: "malloc w = (b1, w1)" "malloc w1 = (b2, w2)"
    by (meson surj_pair)
  then show "\<exists>ms. w' = w\<lparr>mallocs := ms\<rparr>"
    using assms by (auto simp: keys_match_def Let_def elim!: mallocE split: if_splits)
  show "k1 = k2" if b "pem_text ssl"
    using that assms m eq by (auto simp: keys_match_def Let_def split: if_splits)
  show "w' = w \<and> (pem_text ssl \<longrightarrow> b = (k1 = k2))" if "mallocs w = []"
    using that assms m eq strncmp_eq_text [of "pem_write_pub ssl k1" "pem_write_pub ssl k1"]
    by (auto simp: keys_match_def Let_def pem_text_def)
qed

lemma is_trusted_from_frame: "\<exists>ms. snd (is_trusted_from ssl key ks w) = w\<lparr>mallocs := ms\<rparr>"
proof (induction ks arbitrary: w)
  case Nil
  then show ?case by (auto intro: exI [of _ "mallocs w"])
next
  case (Cons k ks)
  obtain m w1 where mw: "keys_match ssl key k w = (m, w1)" by (cases "keys_match ssl key k w")
  from keys_match_result(1) [OF mw] obtain ms where w1: "w1 = w\<lparr>mallocs := ms\<rparr>" ..
  from Cons.IH [of w1] mw w1 show ?case by (cases m) auto
qed

lemma is_trusted_from_sound:
  assumes "pem_text ssl"
  shows "fst (is_trusted_from ssl key ks w) \<Longrightarrow> key \<in> set ks"
proof (induction ks arbitrary: w)
  case Nil
  then show ?case by simp
next
  case (Cons k ks)
  obtain m w1 where mw: "keys_match ssl key k w = (m, w1)" by (cases "keys_match ssl key k w")
  with Cons keys_match_result(2) [OF mw _ assms] show ?case by (cases m) auto
qed

lemma is_trusted_from_complete:
  assumes "pem_text ssl" and "mallocs w = []"
  shows "is_trusted_from ssl key ks w = (key \<in> set ks, w)"
proof (induction ks)
  case Nil
  then show ?case by simp
next
  case (Cons k ks)
  obtain m w1 where mw: "keys_match ssl key k w = (m, w1)" by (cases "keys_match ssl key k w")
  with keys_match_result(3) [OF mw assms(2)] assms(1) have "w1 = w" "m = (key = k)" by simp_all
  with Cons mw show ?case by (cases m) auto
qed

lemma is_trusted_keyE:
  assumes "is_trusted_key ssl key w = (b, w')"
  obtains ms where "w' = w\<lparr>mallocs := ms\<rparr>"
  using is_trusted_from_frame [of ssl key "trusted_keys w" w] assms that
  by (auto simp: is_trusted_key_def)

lemma is_trusted_key_sound:
  assumes "pem_text ssl" and "is_trusted_key ssl key w = (True, w')"
  shows "key \<in> set (trusted_keys w)"
  using is_trusted_from_sound [OF assms(1), of key "trusted_keys w" w] assms(2)
  by (simp add: is_trusted_key_def)

lemma is_trusted_key_complete:
  "pem_text ssl \<Longrightarrow> mallocs w = [] \<Longrightarrow> is_trusted_key ssl key w = (key \<in> set (trusted_keys w), w)"
  by (simp add: is_trusted_key_def is_trusted_from_complete)

text \<open>The keys the directory holds, in the order the entries are read.\<close>

definition listed_keys ::
  "('k, 'c) openssl \<Rightarrow> (string \<Rightarrow> byte list option) \<Rightarrow> string \<Rightarrow> (bool \<times> string) list \<Rightarrow> 'k list" where
  "listed_keys ssl fs path elements =
     List.map_filter
       (\<lambda>(regular, name).
          if regular then load_rsa_key ssl fs (drop_last_slash path @ ''/'' @ drop_first_slash name) True
          else None) elements"

lemma load_trusted_from_all:
  "path \<noteq> [] \<Longrightarrow> mallocs w = [] \<Longrightarrow>
     load_trusted_from ssl fs path elements w =
       Some (False, w\<lparr>trusted_keys := trusted_keys w @ listed_keys ssl fs path elements\<rparr>)"
proof (induction elements arbitrary: w)
  case Nil
  then show ?case by (simp add: listed_keys_def map_filter_simps)
next
  case (Cons e elements)
  obtain regular name where e: "e = (regular, name)" by (cases e)
  show ?case
    using Cons.IH [of w] Cons.IH [of "w\<lparr>trusted_keys := trusted_keys w @ [k]\<rparr>" for k] Cons.prems
    by (auto simp: e join_paths_reference add_trusted_key_def listed_keys_def map_filter_simps
        split: option.split)
qed

text \<open>What loading the keys may change.\<close>

definition sans_keys :: "('k, 'a) key_state_scheme \<Rightarrow> ('k, 'a) key_state_scheme" where
  "sans_keys w = w\<lparr>mallocs := [], daemon_pubkey := Null, daemon_privkey := Null, trusted_keys := []\<rparr>"

definition keys_only :: "('k, 'a) key_state_scheme \<Rightarrow> ('k, 'a) key_state_scheme \<Rightarrow> bool" where
  "keys_only w w' \<longleftrightarrow> sans_keys w' = sans_keys w"

lemma keys_only_trans: "keys_only w w1 \<Longrightarrow> keys_only w1 w2 \<Longrightarrow> keys_only w w2"
  by (simp add: keys_only_def)

lemma keys_only_updates [simp]:
  "keys_only w (u\<lparr>mallocs := ms\<rparr>) = keys_only w u" "keys_only w (u\<lparr>daemon_pubkey := p\<rparr>) = keys_only w u"
  "keys_only w (u\<lparr>daemon_privkey := p\<rparr>) = keys_only w u" "keys_only w (u\<lparr>trusted_keys := ks\<rparr>) = keys_only w u"
  "keys_only w w"
  by (simp_all add: keys_only_def sans_keys_def)

lemma join_paths_keys_only: "join_paths p q w = Some (r, w') \<Longrightarrow> keys_only w w'"
  by (erule join_pathsE) simp

lemma load_keys_only:
  "load_daemon_privkey ssl fs w = Some (p, w') \<Longrightarrow> keys_only w w'"
  "load_daemon_pubkey ssl fs w = Some (q, w') \<Longrightarrow> keys_only w w'"
  "free_daemon_keys w = Some w' \<Longrightarrow> keys_only w w'"
  unfolding load_daemon_privkey_def load_daemon_pubkey_def free_daemon_keys_def
  by (auto simp: Option.bind_eq_Some_conv Let_def split: option.splits dest!: join_paths_keys_only)

lemma add_trusted_key_only: "keys_only w (add_trusted_key k w)"
proof -
  obtain b w1 where m: "malloc w = (b, w1)" by (cases "malloc w")
  then obtain ms where "w1 = w\<lparr>mallocs := ms\<rparr>" by (elim mallocE) simp
  then show ?thesis by (cases b) (auto simp: add_trusted_key_def m intro: keys_only_trans)
qed

lemma load_trusted_from_only: "load_trusted_from ssl fs path es w = Some (b, w') \<Longrightarrow> keys_only w w'"
proof (induction ssl fs path es w rule: load_trusted_from.induct)
  case (1 ssl fs path w)
  then show ?case by simp
next
  case (2 ssl fs path regular name elements w)
  show ?case
  proof (cases regular)
    case False
    with 2 show ?thesis by simp
  next
    case True
    with 2(3) obtain p w1 where j: "join_paths path name w = Some (p, w1)"
      by (auto simp: Option.bind_eq_Some_conv)
    have k1: "keys_only w w1" using j by (rule join_paths_keys_only)
    show ?thesis
    proof (cases p)
      case None
      with 2(3) True j k1 show ?thesis by simp
    next
      case (Some full)
      let ?w2 = "case load_rsa_key ssl fs full True of None \<Rightarrow> w1 | Some key \<Rightarrow> add_trusted_key key w1"
      have "keys_only w1 ?w2" by (auto split: option.split intro: add_trusted_key_only)
      moreover have "keys_only ?w2 w'" using 2(1) [OF True j refl Some] 2(3) True j Some by simp
      ultimately show ?thesis using k1 keys_only_trans by blast
    qed
  qed
qed

lemma load_trusted_keys_only: "load_trusted_keys ssl fs ds w = Some w' \<Longrightarrow> keys_only w w'"
  by (auto simp: load_trusted_keys_def Option.bind_eq_Some_conv split: option.splits if_splits
      dest!: join_paths_keys_only load_trusted_from_only intro: keys_only_trans)

lemma keys_only_field:
  assumes "keys_only w w'" and "\<And>u. f (sans_keys u) = f u"
  shows "f w' = f w"
  using assms unfolding keys_only_def by metis

text \<open>Loading with a working allocator keeps it working.\<close>

lemma load_trusted_from_mallocs:
  "load_trusted_from ssl fs path es w = Some (b, w') \<Longrightarrow> mallocs w = [] \<Longrightarrow> mallocs w' = []"
proof (induction ssl fs path es w rule: load_trusted_from.induct)
  case (1 ssl fs path w)
  then show ?case by simp
next
  case (2 ssl fs path regular name elements w)
  show ?case
  proof (cases regular)
    case False
    with 2 show ?thesis by simp
  next
    case True
    with 2(3) obtain p where j: "join_paths path name w = Some (p, w)"
      using join_paths_same [OF _ 2(4)] by (fastforce simp: Option.bind_eq_Some_conv)
    show ?thesis
    proof (cases p)
      case None
      with 2(3,4) True j show ?thesis by simp
    next
      case (Some full)
      let ?w2 = "case load_rsa_key ssl fs full True of None \<Rightarrow> w | Some key \<Rightarrow> add_trusted_key key w"
      have "mallocs ?w2 = []" using 2(4) by (auto simp: add_trusted_key_def split: option.split)
      moreover have "load_trusted_from ssl fs path elements ?w2 = Some (b, w')" using 2(3) True j Some by simp
      ultimately show ?thesis using 2(1) [OF True j refl Some] by blast
    qed
  qed
qed

lemma load_privkey_mallocs:
  assumes "load_daemon_privkey ssl fs w = Some (k, w')" and "mallocs w = []"
  shows "mallocs w' = []"
proof -
  obtain dir where "daemon_config_dir w = Ptr dir"
    using assms(1) by (cases "daemon_config_dir w") (simp_all add: load_daemon_privkey_def)
  with assms obtain p where "(case p of
         None \<Rightarrow> Some (daemon_privkey w, w)
       | Some path \<Rightarrow>
           do {
             _ \<leftarrow> cfree (daemon_privkey w);
             let w2 = w\<lparr>daemon_privkey := of_opt (load_rsa_key ssl fs path False)\<rparr>;
             Some (daemon_privkey w2, w2)
           }) = Some (k, w')"
    unfolding load_daemon_privkey_def by (auto dest!: join_paths_bind)
  then show ?thesis
    using assms(2) by (auto simp: Option.bind_eq_Some_conv Let_def split: option.splits)
qed

lemma load_pubkey_mallocs:
  assumes "load_daemon_pubkey ssl fs w = Some (k, w')" and "mallocs w = []"
  shows "mallocs w' = []"
proof -
  obtain dir where "daemon_config_dir w = Ptr dir"
    using assms(1) by (cases "daemon_config_dir w") (simp_all add: load_daemon_pubkey_def)
  with assms obtain p where "(case p of
         None \<Rightarrow> Some (daemon_privkey w, w)
       | Some path \<Rightarrow>
           do {
             _ \<leftarrow> cfree (daemon_pubkey w);
             let w2 = w\<lparr>daemon_pubkey := of_opt (load_rsa_key ssl fs path True)\<rparr>;
             Some (daemon_pubkey w2, w2)
           }) = Some (k, w')"
    unfolding load_daemon_pubkey_def by (auto dest!: join_paths_bind)
  then show ?thesis
    using assms(2) by (auto simp: Option.bind_eq_Some_conv Let_def split: option.splits)
qed

lemma load_trusted_mallocs:
  assumes "load_trusted_keys ssl fs ds w = Some w'" and "mallocs w = []"
  shows "mallocs w' = []"
proof -
  obtain dir where "daemon_config_dir w = Ptr dir"
    using assms(1) by (cases "daemon_config_dir w") (simp_all add: load_trusted_keys_def)
  with assms obtain p where p: "(case p of
         None \<Rightarrow> Some w
       | Some path \<Rightarrow>
           (case ds path of
              None \<Rightarrow> Some w
            | Some elements \<Rightarrow>
                do {
                  (closed_already, w2) \<leftarrow> load_trusted_from ssl fs path elements w;
                  if closed_already then None else Some w2
                })) = Some w'"
    by (auto simp: load_trusted_keys_def dest!: join_paths_bind)
  then show ?thesis
    using assms(2) load_trusted_from_mallocs
    by (auto simp: Option.bind_eq_Some_conv split: option.splits if_splits)
qed

section \<open>Properties\<close>

text \<open>C31. A key is reported as trusted only if the very same key is in the list of trusted keys, even when
  allocations fail on the way, and with a working allocator exactly then; the check changes nothing
  else.\<close>

theorem trusted_key_check:
  assumes "pem_text ssl" and "is_trusted_key ssl key w = (b, w')"
  shows "(b \<longrightarrow> key \<in> set (trusted_keys w)) \<and>
         (mallocs w = [] \<longrightarrow> b = (key \<in> set (trusted_keys w)) \<and> w' = w) \<and>
         (\<exists>ms. w' = w\<lparr>mallocs := ms\<rparr>)"
proof (intro conjI impI)
  show "key \<in> set (trusted_keys w)" if b
    using is_trusted_key_sound [OF assms(1), of key w w'] assms(2) that by simp
  assume "mallocs w = []"
  then show "b = (key \<in> set (trusted_keys w))" "w' = w"
    using is_trusted_key_complete [OF assms(1), of w key] assms(2) by simp_all
next
  show "\<exists>ms. w' = w\<lparr>mallocs := ms\<rparr>" using assms(2) by (rule is_trusted_keyE) blast
qed

theorem trusted_key_check_witness:
  "is_trusted_key toy_ssl True (key_init\<lparr>trusted_keys := [False]\<rparr>)
     = (False, key_init\<lparr>trusted_keys := [False]\<rparr>)"
proof -
  let ?w = "key_init\<lparr>trusted_keys := [False]\<rparr> :: bool key_state"
  have m: "mallocs ?w = []"
    by (simp add: key_init_def iface_init_def cfg_init_def log_init_def os_init_def os.defs
        log_state.defs cfg_state.defs iface_state.defs)
  show ?thesis
    using trusted_key_check [OF toy_pem_text surjective_pairing, of True ?w] m
    by (simp add: prod_eq_iff)
qed

text \<open>C32. With a working allocator and a readable directory \<open>load_trusted_keys\<close> appends exactly the keys
  of the regular files that parse, in directory order, and touches nothing else.\<close>

theorem load_trusted_keys_exact:
  assumes "config_dir w = Ptr dir" and "dir \<noteq> []" and "mallocs w = []"
    and "dirs (drop_last_slash dir @ ''/'' @ ''trusted_keys'') = Some elements"
  shows "load_trusted_keys ssl fs dirs w =
           Some (w\<lparr>trusted_keys := trusted_keys w @
                     listed_keys ssl fs (drop_last_slash dir @ ''/'' @ ''trusted_keys'') elements\<rparr>)"
  using assms
  by (simp add: load_trusted_keys_def daemon_config_dir_def join_paths_reference load_trusted_from_all
      drop_first_slash_def)

theorem load_trusted_keys_exact_witness:
  "map_option trusted_keys
     (load_trusted_keys toy_ssl (\<lambda>p. if p = ''./trusted_keys/b'' then Some [45, 70] else None)
        (\<lambda>p. if p = ''./trusted_keys'' then Some [(False, ''.''), (True, ''a''), (True, ''b'')] else None)
        (key_init\<lparr>config_dir := Ptr ''./''\<rparr>)) = Some [False]"
proof -
  let ?w = "key_init\<lparr>config_dir := Ptr ''./''\<rparr> :: bool key_state"
  let ?dirs = "\<lambda>p. if p = ''./trusted_keys'' then Some [(False, ''.''), (True, ''a''), (True, ''b'')] else None"
  let ?fs = "\<lambda>p. if p = ''./trusted_keys/b'' then Some [45, 70 :: byte] else None"
  have m: "mallocs ?w = []" "trusted_keys ?w = []"
    by (simp_all add: key_init_def iface_init_def cfg_init_def log_init_def os_init_def os.defs
        log_state.defs cfg_state.defs iface_state.defs)
  have d: "?dirs (drop_last_slash ''./'' @ ''/'' @ ''trusted_keys'') =
      Some [(False, ''.''), (True, ''a''), (True, ''b'')]"
    by (simp add: drop_last_slash_def)
  have c: "config_dir ?w = Ptr ''./''" by simp
  have k: "listed_keys toy_ssl ?fs (drop_last_slash ''./'' @ ''/'' @ ''trusted_keys'')
      [(False, ''.''), (True, ''a''), (True, ''b'')] = [False]"
    by (simp add: listed_keys_def map_filter_simps drop_last_slash_def drop_first_slash_def
        load_rsa_key_def toy_ssl_def)
  show ?thesis
    using load_trusted_keys_exact [of ?w "''./''" ?dirs, OF c _ m(1) d, of toy_ssl ?fs] m(2) k by simp
qed

text \<open>If the allocation of an entry's path fails, \<open>load_trusted_keys\<close> closes the directory twice.\<close>

theorem load_trusted_keys_double_close:
  assumes "config_dir w = Ptr dir" and "dir \<noteq> []" and "mallocs w = [True, False]"
    and "dirs (drop_last_slash dir @ ''/'' @ ''trusted_keys'') = Some ((True, name) # elements)"
  shows "load_trusted_keys ssl fs dirs w = None"
proof -
  have "join_paths dir ''trusted_keys'' w =
          Some (Some (drop_last_slash dir @ ''/'' @ ''trusted_keys''), w\<lparr>mallocs := [False]\<rparr>)"
    using join_paths_reference [OF assms(2), of "w\<lparr>mallocs := []\<rparr>" "''trusted_keys''"] assms(3)
    by (auto simp: join_paths_def malloc_def Let_def drop_first_slash_def split: if_splits)
  then show ?thesis
    using assms(1,4) by (simp add: load_trusted_keys_def daemon_config_dir_def join_paths_def malloc_def)
qed

theorem load_trusted_keys_double_close_witness:
  "load_trusted_keys toy_ssl (\<lambda>_. None) (\<lambda>_. Some [(True, ''a'')])
     (key_init\<lparr>config_dir := Ptr ''./'', mallocs := [True, False]\<rparr>) = None"
  by (rule load_trusted_keys_double_close [of _ "''./''" _ "''a''" "[]"]) simp_all

end
