(* ===== verification/Peer.thy ===== *)
theory Peer
  imports Rsa Netroute
begin

text \<open>
  \<open>src/peer.c\<close>, the peer table: the record of \<open>include/structs.h\<close> and the list of peer slots. Slots
  are only appended while the daemon runs, so a peer pointer is its position in the list (\<open>Peer_Heap\<close>
  has the pointers). The
  statics \<open>peers\<close> and \<open>local_routes\<close> join the process state. The per-peer mutex only serialises the
  sends to one socket; it is modelled in \<open>Locks\<close>. The loop that reads the TUN/TAP device is in
  \<open>Tun_Broadcast\<close>, the threads in \<open>Connection\<close> and \<open>Daemon_System\<close>.
\<close>

record ('k, 'c) peer =
  sockfd :: int
  is_client :: bool
  address :: "string cptr"
  port :: u16
  alive :: bool
  pubkey :: "'k cptr"
  authenticated :: bool
  enc_ctx :: "'c cptr"
  dec_ctx :: "'c cptr"
  peer_routes :: "netroute list"

record ('k, 'c) peer_state = "'k key_state" +
  peers :: "('k, 'c) peer list"
  local_routes :: "netroute list"

definition peer_state_init :: "('k, 'c) peer_state" where
  "peer_state_init = key_state.extend key_init \<lparr>peers = [], local_routes = []\<rparr>"

definition get_peer_list :: "('k, 'c, 'a) peer_state_scheme \<Rightarrow> ('k, 'c) peer list" where
  "get_peer_list w = peers w"

text \<open>Every field is written, so the result does not depend on what the memory held.\<close>

definition initialize_peer :: "('k, 'c) peer" where
  "initialize_peer =
     \<lparr>sockfd = -1, is_client = False, address = Null, port = 0, alive = False, pubkey = Null,
      authenticated = False, enc_ctx = Null, dec_ctx = Null, peer_routes = []\<rparr>"

text \<open>
  The two cipher contexts are freed; then \<open>enc_ctx\<close> is reset, twice, and \<open>dec_ctx\<close> is not: it is left
  dangling when it was set.
\<close>

definition set_peer_info ::
  "string \<Rightarrow> u16 \<Rightarrow> int \<Rightarrow> bool \<Rightarrow> ('k, 'c) peer \<Rightarrow> 'a os_scheme \<Rightarrow> (('k, 'c) peer \<times> 'a os_scheme) option"
  where
  "set_peer_info adr prt s client p w =
     do {
       _ \<leftarrow> cfree (address p);
       let (dup, w1) = malloc w;
       let p = p\<lparr>address := (if dup then Ptr adr else Null), port := prt, is_client := client\<rparr>;
       _ \<leftarrow> cfree (pubkey p);
       let p = p\<lparr>pubkey := Null\<rparr>;
       enc \<leftarrow> cfree (enc_ctx p);
       dec \<leftarrow> cfree (dec_ctx p);
       let p = p\<lparr>enc_ctx := enc, dec_ctx := dec\<rparr>;
       let p = p\<lparr>enc_ctx := Null\<rparr>;
       let p = p\<lparr>enc_ctx := Null\<rparr>;
       Some (p\<lparr>authenticated := False, peer_routes := [], sockfd := s, alive := True\<rparr>, w1)
     }"

definition create_peer ::
  "string \<Rightarrow> u16 \<Rightarrow> int \<Rightarrow> bool \<Rightarrow> 'a os_scheme \<Rightarrow> (('k, 'c) peer option \<times> 'a os_scheme) option" where
  "create_peer adr prt s client w =
     (case malloc w of
        (False, w1) \<Rightarrow> Some (None, w1)
      | (True, w1) \<Rightarrow>
          do { (p, w2) \<leftarrow> set_peer_info adr prt s client initialize_peer w1; Some (Some p, w2) })"

text \<open>
  As one step: the wait for the peer's thread, at most ten seconds, is in \<open>Shutdown\<close>. A dangling pointer
  here is freed a second time.
\<close>

definition destroy_peer :: "('k, 'c) peer \<Rightarrow> 'a os_scheme \<Rightarrow> 'a os_scheme option" where
  "destroy_peer p w =
     do {
       let w1 = (if alive p then sys_close (sockfd p) w else w);
       _ \<leftarrow> cfree (pubkey p);
       _ \<leftarrow> cfree (enc_ctx p);
       _ \<leftarrow> cfree (dec_ctx p);
       _ \<leftarrow> cfree (address p);
       Some w1
     }"

fun destroy_peers_from :: "('k, 'c) peer list \<Rightarrow> 'a os_scheme \<Rightarrow> 'a os_scheme option" where
  "destroy_peers_from [] w = Some w"
| "destroy_peers_from (p # ps) w = do { w1 \<leftarrow> destroy_peer p w; destroy_peers_from ps w1 }"

definition destroy_peers :: "('k, 'c, 'a) peer_state_scheme \<Rightarrow> ('k, 'c, 'a) peer_state_scheme option" where
  "destroy_peers w =
     (let current = peers w; w1 = w\<lparr>peers := [], local_routes := []\<rparr>
      in destroy_peers_from current w1)"

definition add_peer ::
  "string \<Rightarrow> u16 \<Rightarrow> int \<Rightarrow> bool \<Rightarrow> ('k, 'c, 'a) peer_state_scheme
     \<Rightarrow> (nat option \<times> ('k, 'c, 'a) peer_state_scheme) option" where
  "add_peer adr prt s client w =
     (case find_index (\<lambda>p. alive p = False) (peers w) of
        Some i \<Rightarrow>
          do {
            (p, w1) \<leftarrow> set_peer_info adr prt s client (peers w ! i) w;
            Some (Some i, w1\<lparr>peers := (peers w1)[i := p]\<rparr>)
          }
      | None \<Rightarrow>
          do {
            (np, w1) \<leftarrow> create_peer adr prt s client w;
            case np of
              None \<Rightarrow> Some (None, w1)
            | Some p \<Rightarrow> Some (Some (length (peers w1)), w1\<lparr>peers := peers w1 @ [p]\<rparr>)
          })"

text \<open>The end of a peer's thread: the slot becomes free, then the socket is closed.\<close>

definition peer_disconnect :: "nat \<Rightarrow> ('k, 'c, 'a) peer_state_scheme \<Rightarrow> ('k, 'c, 'a) peer_state_scheme" where
  "peer_disconnect i w =
     (let w1 = w\<lparr>peers := (peers w)[i := (peers w ! i)\<lparr>alive := False\<rparr>]\<rparr>
      in sys_close (sockfd (peers w1 ! i)) w1)"

definition is_local_route :: "netroute \<Rightarrow> ('k, 'c, 'a) peer_state_scheme \<Rightarrow> bool" where
  "is_local_route route w \<longleftrightarrow> netroute_in_array route (local_routes w) \<noteq> None"

definition get_peer_route :: "netroute \<Rightarrow> ('k, 'c, 'a) peer_state_scheme \<Rightarrow> nat option" where
  "get_peer_route route w =
     find_index (\<lambda>p. alive p \<and> netroute_in_array route (peer_routes p) \<noteq> None) (peers w)"

section \<open>The dump of the peer table\<close>

fun dec_nat :: "nat \<Rightarrow> string" where
  "dec_nat n = (if n < 10 then [digit n] else dec_nat (n div 10) @ [digit (n mod 10)])"

declare dec_nat.simps [simp del]

definition c_str :: "string cptr \<Rightarrow> string option" where \<comment> \<open>printf of a null pointer prints (null)\<close>
  "c_str p = (case p of Ptr s \<Rightarrow> Some s | Null \<Rightarrow> Some ''(null)'' | Dangling \<Rightarrow> None)"

definition route_line :: "bool \<Rightarrow> netroute \<Rightarrow> string" where
  "route_line le route =
     replicate 12 CHR '' '' @ get_netroute_addr le route '''' INET6_ADDRSTRLEN @ '' ('' @
     (if mac route then ''mac'' else if ip4 route then ''ipv4'' else ''ipv6'') @ '')''"

fun dump_peers_from :: "bool \<Rightarrow> ('k, 'c) peer list \<Rightarrow> string list option" where
  "dump_peers_from le [] = Some []"
| "dump_peers_from le (p # ps) =
     do {
       a \<leftarrow> c_str (address p);
       rest \<leftarrow> dump_peers_from le ps;
       Some ([''    Peer '' @ a @ '':'' @ dec_nat (unat (port p)) @ '' ('' @
                (if alive p then ''alive'' else ''dead'') @ '')'',
              ''        Routes:''] @ map (route_line le) (peer_routes p) @ rest)
     }"

definition dump_peers :: "('k, 'c, 'a) peer_state_scheme \<Rightarrow> ('k, 'c, 'a) peer_state_scheme option" where
  "dump_peers w =
     do {
       ls \<leftarrow> dump_peers_from (host_le w) (peers w);
       Some (w\<lparr>out_lines := out_lines w @ ''Connected peers:'' # ls\<rparr>)
     }"

section \<open>Lemmas\<close>

lemma is_local_route_known: "is_local_route r w \<longleftrightarrow> route_known r (local_routes w)"
  by (simp add: is_local_route_def route_known_def)

lemma get_peer_route_eq:
  "get_peer_route r w = find_index (\<lambda>p. alive p \<and> route_known r (peer_routes p)) (peers w)"
  by (simp add: get_peer_route_def route_known_def)

lemma get_peer_route_SomeD:
  assumes "get_peer_route r w = Some i"
  shows "i < length (peers w)" and "alive (peers w ! i)" and "route_known r (peer_routes (peers w ! i))"
  using assms by (auto simp: get_peer_route_eq find_index_Some)

lemma get_peer_route_None:
  "get_peer_route r w = None \<longleftrightarrow> (\<forall>p \<in> set (peers w). alive p \<longrightarrow> \<not> route_known r (peer_routes p))"
  by (auto simp: get_peer_route_eq find_index_None)

text \<open>No pointer of a peer is dangling.\<close>

definition no_dangling :: "('k, 'c) peer \<Rightarrow> bool" where
  "no_dangling p \<longleftrightarrow> address p \<noteq> Dangling \<and> pubkey p \<noteq> Dangling \<and> enc_ctx p \<noteq> Dangling \<and> dec_ctx p \<noteq> Dangling"

text \<open>What a slot looks like right after \<open>set_peer_info\<close>; the decryption context is what it is.\<close>

definition fresh_peer :: "string cptr \<Rightarrow> u16 \<Rightarrow> int \<Rightarrow> bool \<Rightarrow> 'c cptr \<Rightarrow> ('k, 'c) peer" where
  "fresh_peer a prt s client d =
     \<lparr>sockfd = s, is_client = client, address = a, port = prt, alive = True, pubkey = Null,
      authenticated = False, enc_ctx = Null, dec_ctx = d, peer_routes = []\<rparr>"

lemma set_peer_info_result:
  "set_peer_info adr prt s client p w =
     (if no_dangling p
      then Some (fresh_peer (if fst (malloc w) then Ptr adr else Null) prt s client
                   (if dec_ctx p = Null then Null else Dangling), snd (malloc w))
      else None)"
proof (cases "no_dangling p")
  case True
  then show ?thesis
    by (cases "malloc w"; cases "address p"; cases "pubkey p"; cases "enc_ctx p"; cases "dec_ctx p")
      (simp_all add: set_peer_info_def no_dangling_def fresh_peer_def)
next
  case False
  then show ?thesis
    by (cases "malloc w"; cases "address p"; cases "pubkey p"; cases "enc_ctx p"; cases "dec_ctx p")
      (simp_all add: set_peer_info_def no_dangling_def)
qed

lemma no_dangling_init [simp]: "no_dangling initialize_peer"
  by (simp add: no_dangling_def initialize_peer_def)

lemma create_peer_ok:
  "mallocs w = [] \<Longrightarrow> create_peer adr prt s client w = Some (Some (fresh_peer (Ptr adr) prt s client Null), w)"
  by (simp add: create_peer_def set_peer_info_result) (simp add: initialize_peer_def)

lemma destroy_peer_defined:
  "destroy_peer p w =
     (if no_dangling p then Some (if alive p then sys_close (sockfd p) w else w) else None)"
  by (cases "address p"; cases "pubkey p"; cases "enc_ctx p"; cases "dec_ctx p")
    (simp_all add: destroy_peer_def no_dangling_def Let_def)

lemma destroy_peers_from_result:
  "destroy_peers_from ps w =
     (if list_all no_dangling ps
      then Some (w\<lparr>closed := closed w @ map sockfd (filter alive ps)\<rparr>) else None)"
  by (induction ps arbitrary: w) (auto simp: destroy_peer_defined sys_close_def)

lemma find_dead_slot:
  "find_index (\<lambda>p. \<not> alive p) ps =
     (if list_all alive ps then None else Some (length (takeWhile alive ps)))"
  by (induction ps) auto

lemma takeWhile_alive_all: "list_all alive ps \<Longrightarrow> takeWhile alive ps = ps"
  by (simp add: list_all_iff takeWhile_eq_all_conv)

lemma dead_slot:
  assumes "\<not> list_all alive ps"
  shows "length (takeWhile alive ps) < length ps" and "\<not> alive (ps ! length (takeWhile alive ps))"
proof -
  from assms have "find_index (\<lambda>p. \<not> alive p) ps = Some (length (takeWhile alive ps))"
    by (simp add: find_dead_slot)
  then show "length (takeWhile alive ps) < length ps" and "\<not> alive (ps ! length (takeWhile alive ps))"
    by (auto simp: find_index_Some)
qed

section \<open>Properties\<close>

text \<open>\<open>add_peer\<close> takes the first slot that is not alive, or appends one when all are alive. The slot
  becomes an alive, unauthenticated peer with the given socket and no routes; every other slot is
  unchanged, so no connected peer is ever disturbed.\<close>

theorem add_peer_slot:
  assumes "mallocs w = []" and "list_all no_dangling (peers w)"
  shows "\<exists>i w' d. add_peer adr prt s client w = Some (Some i, w') \<and>
           i = length (takeWhile alive (peers w)) \<and> i < length (peers w') \<and>
           peers w' ! i = fresh_peer (Ptr adr) prt s client d \<and>
           length (peers w') = max (length (peers w)) (i + 1) \<and>
           (\<forall>j < length (peers w). j \<noteq> i \<or> alive (peers w ! j) \<longrightarrow> peers w' ! j = peers w ! j)"
proof (cases "list_all alive (peers w)")
  case True
  with assms(1) show ?thesis
    by (auto simp: add_peer_def find_dead_slot create_peer_ok takeWhile_alive_all nth_append)
next
  case False
  let ?i = "length (takeWhile alive (peers w))"
  from dead_slot [OF False] have i: "?i < length (peers w)" "\<not> alive (peers w ! ?i)" .
  with assms(2) have "no_dangling (peers w ! ?i)" by (simp add: list_all_length)
  with assms(1) False i show ?thesis
    by (auto simp: add_peer_def find_dead_slot set_peer_info_result nth_list_update)
qed

theorem add_peer_slot_witness:
  "\<exists>w' d. add_peer ''10.0.0.1'' 7 9 False
            (peer_state_init\<lparr>peers := [initialize_peer\<lparr>alive := True\<rparr>, initialize_peer]\<rparr>) = Some (Some 1, w') \<and>
          peers w' ! 0 = initialize_peer\<lparr>alive := True\<rparr> \<and>
          peers w' ! 1 = fresh_peer (Ptr ''10.0.0.1'') 7 9 False d"
proof -
  let ?w = "peer_state_init\<lparr>peers := [initialize_peer\<lparr>alive := True\<rparr>, initialize_peer]\<rparr>"
  have m: "mallocs ?w = []"
    by (simp add: peer_state_init_def key_init_def iface_init_def cfg_init_def log_init_def os_init_def
        os.defs log_state.defs cfg_state.defs iface_state.defs key_state.defs)
  have d: "list_all no_dangling (peers ?w)" by (simp add: no_dangling_def initialize_peer_def)
  have 1: "takeWhile alive (peers ?w) = [initialize_peer\<lparr>alive := True\<rparr>]"
    by (simp add: initialize_peer_def)
  show ?thesis
    using add_peer_slot [OF m d, of "''10.0.0.1''" 7 9 False] unfolding 1 by auto
qed

text \<open>Reusing a slot frees both cipher contexts but resets only one pointer: a slot whose last
  connection was authenticated comes back with a dangling \<open>dec_ctx\<close>. Unless the new connection sets
  it, the next reuse of the slot, or the shutdown, frees the same context a second time.\<close>

theorem slot_reuse_double_free:
  assumes "no_dangling p" and "dec_ctx p = Ptr c"
  shows "\<exists>p' w'. set_peer_info adr prt s client p w = Some (p', w') \<and> dec_ctx p' = Dangling \<and>
           set_peer_info adr2 prt2 s2 client2 p' w' = None \<and> destroy_peer p' w' = None"
  using assms by (auto simp: set_peer_info_result destroy_peer_defined fresh_peer_def no_dangling_def)

theorem slot_reuse_double_free_witness:
  "\<exists>p' w'. set_peer_info ''10.0.0.2'' 1 5 False
             (initialize_peer\<lparr>enc_ctx := Ptr [], dec_ctx := Ptr []\<rparr> :: (bool, byte list) peer) os_init
             = Some (p', w') \<and>
           set_peer_info ''10.0.0.3'' 1 6 False p' w' = None"
  using slot_reuse_double_free
    [of "initialize_peer\<lparr>enc_ctx := Ptr [], dec_ctx := Ptr []\<rparr> :: (bool, byte list) peer" "[]"
        "''10.0.0.2''" 1 5 False os_init "''10.0.0.3''" 1 6 False]
  by (auto simp: no_dangling_def initialize_peer_def)

text \<open>\<open>get_peer_route\<close> returns a peer exactly when some connected peer has announced the address, and
  then the first such peer; disconnected peers are never returned, whatever routes they still hold.\<close>

theorem get_peer_route_first:
  "(get_peer_route r w = Some i \<longleftrightarrow>
      i < length (peers w) \<and> alive (peers w ! i) \<and> route_key r \<in> route_keys (peer_routes (peers w ! i)) \<and>
      (\<forall>j < i. \<not> (alive (peers w ! j) \<and> route_key r \<in> route_keys (peer_routes (peers w ! j))))) \<and>
   (get_peer_route r w = None \<longleftrightarrow>
      \<not> (\<exists>p \<in> set (peers w). alive p \<and> route_key r \<in> route_keys (peer_routes p)))"
  by (auto simp: get_peer_route_eq find_index_Some find_index_None route_known_key)

theorem get_peer_route_first_witness:
  "get_peer_route (\<lparr>mac = True, ip4 = False, addr = replicate 16 1\<rparr>)
     ((peer_state_init :: (bool, bool) peer_state)\<lparr>peers :=
        [initialize_peer\<lparr>peer_routes := [\<lparr>mac = True, ip4 = False, addr = replicate 16 1\<rparr>]\<rparr>]\<rparr>) = None"
  using get_peer_route_first
    [of "\<lparr>mac = True, ip4 = False, addr = replicate 16 1\<rparr>"
        "(peer_state_init :: (bool, bool) peer_state)\<lparr>peers :=
           [initialize_peer\<lparr>peer_routes := [\<lparr>mac = True, ip4 = False, addr = replicate 16 1\<rparr>]\<rparr>]\<rparr>" 0]
  by (simp add: initialize_peer_def)

text \<open>\<open>destroy_peers\<close> empties the peer table and the local routes and closes the socket of each
  connected peer once, in order; it is defined exactly when no slot holds a dangling pointer.\<close>

theorem destroy_peers_exact:
  "destroy_peers w =
     (if list_all no_dangling (peers w)
      then Some (w\<lparr>peers := [], local_routes := [],
                   closed := closed w @ map sockfd (filter alive (peers w))\<rparr>)
      else None)"
  by (simp add: destroy_peers_def destroy_peers_from_result)

end
