(* ===== verification/Peer_Heap.thy ===== *)
theory Peer_Heap
  imports Peer Chain
begin

text \<open>
  The peer table of \<open>src/peer.c\<close> at the level of pointers: \<open>peers\<close> points to the first cell, each cell
  holds a peer and the link \<open>next\<close>, and the functions walk the links as the code does. \<open>table_at w as v\<close>
  relates such a heap to the list of slots of \<open>Peer\<close>; the addresses \<open>as\<close> are the peer pointers the
  other threads hold. The properties say that each walk returns and does what \<open>Peer\<close> says.
\<close>

record ('k, 'c) peer_node =
  pn_peer :: "('k, 'c) peer"
  pn_next :: "nat option"

record ('k, 'c) peer_heap = os +
  pcells :: "nat \<Rightarrow> ('k, 'c) peer_node option"
  phead :: "nat option"
  pbrk :: nat

section \<open>The functions\<close>

text \<open>The loop of \<open>add_peer\<close>: the first free slot (\<open>True\<close>), or the last cell of the list.\<close>

partial_function (option) find_slot :: "(nat \<Rightarrow> ('k, 'c) peer_node option) \<Rightarrow> nat \<Rightarrow> (nat \<times> bool) option" where
  "find_slot h q =
     do {
       n \<leftarrow> h q;
       if alive (pn_peer n) = False then Some (q, True)
       else (case pn_next n of None \<Rightarrow> Some (q, False) | Some p \<Rightarrow> find_slot h p)
     }"

definition new_cell :: "('k, 'c) peer \<Rightarrow> ('k, 'c) peer_heap \<Rightarrow> nat \<times> ('k, 'c) peer_heap" where
  "new_cell p w =
     (pbrk w, w\<lparr>pcells := (pcells w)(pbrk w \<mapsto> \<lparr>pn_peer = p, pn_next = None\<rparr>), pbrk := Suc (pbrk w)\<rparr>)"

definition heap_add_peer ::
  "string \<Rightarrow> u16 \<Rightarrow> int \<Rightarrow> bool \<Rightarrow> ('k, 'c) peer_heap \<Rightarrow> (nat option \<times> ('k, 'c) peer_heap) option" where
  "heap_add_peer adr prt s client w =
     do {
       found \<leftarrow> (case phead w of None \<Rightarrow> Some None | Some q \<Rightarrow> map_option Some (find_slot (pcells w) q));
       case found of
         Some (q, True) \<Rightarrow>
           do {
             n \<leftarrow> pcells w q;
             (p, w1) \<leftarrow> set_peer_info adr prt s client (pn_peer n) w;
             Some (Some q, w1\<lparr>pcells := (pcells w1)(q \<mapsto> n\<lparr>pn_peer := p\<rparr>)\<rparr>)
           }
       | _ \<Rightarrow>
           do {
             (np, w1) \<leftarrow> create_peer adr prt s client w;
             let (a, w2) = (case np of None \<Rightarrow> (None, w1) | Some p \<Rightarrow> (case new_cell p w1 of (b, w') \<Rightarrow> (Some b, w')));
             case found of
               None \<Rightarrow> Some (a, w2\<lparr>phead := a\<rparr>)
             | Some (q, _) \<Rightarrow>
                 do {
                   l \<leftarrow> pcells w2 q;
                   Some (a, w2\<lparr>pcells := (pcells w2)(q \<mapsto> l\<lparr>pn_next := a\<rparr>)\<rparr>)
                 }
           }
     }"

partial_function (option) heap_get_peer_route ::
  "netroute \<Rightarrow> (nat \<Rightarrow> ('k, 'c) peer_node option) \<Rightarrow> nat option \<Rightarrow> nat option option" where
  "heap_get_peer_route route h peer =
     (case peer of
        None \<Rightarrow> Some None
      | Some a \<Rightarrow>
          do {
            n \<leftarrow> h a;
            if alive (pn_peer n) \<and> netroute_in_array route (peer_routes (pn_peer n)) \<noteq> None then Some (Some a)
            else heap_get_peer_route route h (pn_next n)
          })"

text \<open>\<open>destroy_peers\<close>: the link is read before the cell is freed.\<close>

partial_function (option) destroy_cells :: "nat option \<Rightarrow> ('k, 'c) peer_heap \<Rightarrow> ('k, 'c) peer_heap option" where
  "destroy_cells current w =
     (case current of
        None \<Rightarrow> Some w
      | Some a \<Rightarrow>
          do {
            n \<leftarrow> pcells w a;
            w1 \<leftarrow> destroy_peer (pn_peer n) w;
            destroy_cells (pn_next n) (w1\<lparr>pcells := (pcells w1)(a := None)\<rparr>)
          })"

definition heap_destroy_peers :: "('k, 'c) peer_heap \<Rightarrow> ('k, 'c) peer_heap option" where
  "heap_destroy_peers w = destroy_cells (phead w) (w\<lparr>phead := None\<rparr>)"

section \<open>The heap and the table\<close>

interpretation peer_link: link_field pn_next "\<lambda>d n. n\<lparr>pn_next := Some d\<rparr>"
  by unfold_locales simp

definition peer_at :: "(nat \<Rightarrow> ('k, 'c) peer_node option) \<Rightarrow> nat \<Rightarrow> ('k, 'c) peer" where
  "peer_at h a = pn_peer (the (h a))"

definition table_at :: "('k, 'c) peer_heap \<Rightarrow> nat list \<Rightarrow> ('k, 'c, 'a) peer_state_scheme \<Rightarrow> bool" where
  "table_at w as v \<longleftrightarrow>
     chain pn_next (pcells w) (phead w) as \<and> distinct as \<and> peers v = map (peer_at (pcells w)) as \<and>
     (\<forall>a \<in> dom (pcells w). a < pbrk w) \<and> os.truncate v = os.truncate w"

lemma table_atD:
  assumes "table_at w as v"
  shows "chain pn_next (pcells w) (phead w) as" and "distinct as" and "peers v = map (peer_at (pcells w)) as"
    and "length (peers v) = length as" and "pbrk w \<notin> set as"
  using assms chain_dom [of pn_next "pcells w" "phead w" as] by (fastforce simp: table_at_def)+

lemma table_at_cell:
  assumes "table_at w as v" and "i < length as"
  obtains n where "pcells w (as ! i) = Some n" and "peers v ! i = pn_peer n"
proof -
  obtain n where "pcells w (as ! i) = Some n"
    using chain_dom [OF table_atD(1) [OF assms(1)]] assms(2) by (metis nth_mem)
  with that table_atD(3) [OF assms(1)] assms(2) show thesis by (simp add: peer_at_def)
qed

text \<open>The loop of \<open>add_peer\<close> finds the first slot that is not alive.\<close>

lemma find_slot_chain:
  "chain pn_next h p as \<Longrightarrow> p = Some q \<Longrightarrow>
     find_slot h q =
       Some (case find_index (\<lambda>p. alive p = False) (map (peer_at h) as) of
               Some i \<Rightarrow> (as ! i, True) | None \<Rightarrow> (last as, False))"
proof (induction arbitrary: q rule: chain_induct)
  case null
  then show ?case by simp
next
  case (cell a n as)
  have at: "peer_at h a = pn_peer n" using cell(1) by (simp add: peer_at_def)
  show ?case
  proof (cases "pn_next n")
    case None
    then show ?thesis using cell at chain_null [OF cell(2)] by (subst find_slot.simps) simp
  next
    case (Some b)
    then show ?thesis using cell at chain_null [OF cell(2)]
      by (subst find_slot.simps) (simp split: option.split)
  qed
qed

lemma get_route_chain:
  "chain pn_next h p as \<Longrightarrow>
     heap_get_peer_route r h p =
       Some (map_option ((!) as)
         (find_index (\<lambda>p. alive p \<and> netroute_in_array r (peer_routes p) \<noteq> None) (map (peer_at h) as)))"
proof (induction rule: chain_induct)
  case null
  then show ?case by (simp add: heap_get_peer_route.simps)
next
  case (cell a n as)
  then show ?case
    by (subst heap_get_peer_route.simps)
      (simp add: peer_at_def [abs_def] option.map_comp comp_def del: not_None_eq)
qed

section \<open>The allocator\<close>

text \<open>Both sides ask the same allocator, and it answers them alike.\<close>

lemma malloc_alike:
  assumes "os.truncate v = os.truncate w"
  shows "fst (malloc v) = fst (malloc w)" and "os.truncate (snd (malloc v)) = os.truncate (snd (malloc w))"
  using assms by (auto simp: malloc_def os.defs split: list.split)

definition after_malloc :: "'a os_scheme \<Rightarrow> 'a os_scheme \<Rightarrow> bool" where
  "after_malloc w w' \<longleftrightarrow> (\<exists>bs. w' = w\<lparr>mallocs := bs\<rparr>)"

lemma after_malloc: "after_malloc w (snd (malloc w))"
  using mallocE [of w "fst (malloc w)" "snd (malloc w)"] by (auto simp: after_malloc_def)

lemma after_mallocs: "after_malloc w w' \<Longrightarrow> after_malloc w (snd (malloc w'))"
  using after_malloc [of w'] by (auto simp: after_malloc_def)

lemma create_peer_result:
  "create_peer adr prt s client w =
     Some (if fst (malloc w)
           then (Some (fresh_peer (if fst (malloc (snd (malloc w))) then Ptr adr else Null) prt s client Null),
                 snd (malloc (snd (malloc w))))
           else (None, snd (malloc w)))"
  by (cases "malloc w"; cases "fst (malloc w)")
    (simp_all add: create_peer_def set_peer_info_result, simp_all add: initialize_peer_def)

lemma after_malloc_heap: "after_malloc w w' \<Longrightarrow> pcells w' = pcells w \<and> phead w' = phead w \<and> pbrk w' = pbrk w"
  by (auto simp: after_malloc_def)

lemma after_malloc_table: "after_malloc v v' \<Longrightarrow> peers v' = peers v"
  by (auto simp: after_malloc_def)

lemma table_at_malloc:
  assumes "table_at w as v" and "after_malloc w w'" and "after_malloc v v'" and "os.truncate v' = os.truncate w'"
  shows "table_at w' as v'"
  using assms(1,4) after_malloc_heap [OF assms(2)] after_malloc_table [OF assms(3)] by (simp add: table_at_def)

text \<open>A slot is set, and a cell is appended, on both sides.\<close>

lemma table_at_set:
  assumes "table_at w as v" and "i < length as" and "pcells w (as ! i) = Some n"
    and "after_malloc w w'" and "after_malloc v v'" and "os.truncate v' = os.truncate w'"
  shows "table_at (w'\<lparr>pcells := (pcells w')(as ! i \<mapsto> n\<lparr>pn_peer := p\<rparr>)\<rparr>) as (v'\<lparr>peers := (peers v')[i := p]\<rparr>)"
proof -
  obtain bs cs where w': "w' = w\<lparr>mallocs := bs\<rparr>" and v': "v' = v\<lparr>mallocs := cs\<rparr>"
    using assms(4,5) by (auto simp: after_malloc_def)
  note t = table_atD [OF assms(1)]
  have "map (peer_at ((pcells w)(as ! i \<mapsto> n\<lparr>pn_peer := p\<rparr>))) as = (map (peer_at (pcells w)) as)[i := p]"
    using t(2) assms(2) by (intro nth_equalityI) (auto simp: peer_at_def nth_list_update nth_eq_iff_index_eq)
  then show ?thesis
    using assms(1,3,6) t(1,3) chain_update [of "pcells w" "as ! i" n pn_next "n\<lparr>pn_peer := p\<rparr>"]
    by (auto simp: table_at_def w' v' os.defs)
qed

definition link_cell :: "nat list \<Rightarrow> ('k, 'c) peer \<Rightarrow> ('k, 'c) peer_heap \<Rightarrow> ('k, 'c) peer_heap" where
  "link_cell as p w =
     (let a = pbrk w; h = (pcells w)(a \<mapsto> \<lparr>pn_peer = p, pn_next = None\<rparr>)
      in if as = [] then w\<lparr>pcells := h, pbrk := Suc a, phead := Some a\<rparr>
         else w\<lparr>pcells := h(last as \<mapsto> (the (h (last as)))\<lparr>pn_next := Some a\<rparr>), pbrk := Suc a\<rparr>)"

lemma table_at_append:
  assumes "table_at w as v"
  shows "table_at (link_cell as p w) (as @ [pbrk w]) (v\<lparr>peers := peers v @ [p]\<rparr>)"
proof (cases "as = []")
  case True
  then show ?thesis
    using assms by (auto simp: table_at_def link_cell_def Let_def peer_at_def os.defs less_Suc_eq)
next
  case False
  note t = table_atD [OF assms]
  obtain l where l: "pcells w (last as) = Some l" "pn_next l = None" using chain_last [OF t(1) False] by blast
  have lne: "last as \<noteq> pbrk w" using t(5) False last_in_set by metis
  let ?h = "(pcells w)(pbrk w \<mapsto> \<lparr>pn_peer = p, pn_next = None\<rparr>)"
  let ?h' = "?h(last as \<mapsto> l\<lparr>pn_next := Some (pbrk w)\<rparr>)"
  have cell: "link_cell as p w = w\<lparr>pcells := ?h', pbrk := Suc (pbrk w)\<rparr>"
    using False l lne by (simp add: link_cell_def Let_def)
  have ch: "chain pn_next ?h (phead w) as" using t(1,5) by simp
  have new: "?h (pbrk w) = Some \<lparr>pn_peer = p, pn_next = None\<rparr>" and old: "?h (last as) = Some l" using l lne by simp_all
  have "chain pn_next ?h' (phead w) (as @ [pbrk w])"
    by (rule peer_link.chain_snoc [OF ch t(2) False t(5) new _ old]) simp
  moreover have "map (peer_at ?h') (as @ [pbrk w]) = peers v @ [p]"
    using t(3,5) l lne by (auto simp: peer_at_def)
  ultimately show ?thesis
    using assms t(2,5) l by (auto simp: table_at_def cell os.defs less_Suc_eq)
qed

lemma heap_reuse:
  assumes "table_at w as v" and "find_index (\<lambda>p. \<not> alive p) (peers v) = Some i"
  shows "case add_peer adr prt s client v of
           None \<Rightarrow> heap_add_peer adr prt s client w = None
         | Some (j, v') \<Rightarrow> \<exists>w'. heap_add_peer adr prt s client w = Some (map_option ((!) as) j, w') \<and> table_at w' as v'"
proof -
  note t = table_atD [OF assms(1)]
  have i: "i < length as" using find_index_SomeD(1) [OF assms(2)] t(4) by simp
  then obtain n where n: "pcells w (as ! i) = Some n" "peers v ! i = pn_peer n" by (rule table_at_cell [OF assms(1)])
  obtain q where q: "phead w = Some q" using chain_null [OF t(1)] i by (cases "phead w") auto
  have slot: "find_slot (pcells w) q = Some (as ! i, True)"
    using find_slot_chain [OF t(1) q] assms(2) t(3) by simp
  have os: "os.truncate v = os.truncate w" using assms(1) by (simp add: table_at_def)
  let ?p = "fresh_peer (if fst (malloc w) then Ptr adr else Null) prt s client (if dec_ctx (pn_peer n) = Null then Null else Dangling)"
  have rel: "table_at ((snd (malloc w))\<lparr>pcells := (pcells (snd (malloc w)))(as ! i \<mapsto> n\<lparr>pn_peer := ?p\<rparr>)\<rparr>) as
      ((snd (malloc v))\<lparr>peers := (peers (snd (malloc v)))[i := ?p]\<rparr>)"
    using assms(1) i n(1) after_malloc after_malloc malloc_alike(2) [OF os] by (rule table_at_set)
  show ?thesis
    using rel malloc_alike(1) [OF os]
    by (simp add: heap_add_peer_def add_peer_def q slot n assms(2) set_peer_info_result)
qed

text \<open>Without a free slot: the new cell is linked, or the allocation failed and a null link is stored again.\<close>

lemma heap_append_steps:
  assumes "table_at w as v" and "find_index (\<lambda>p. \<not> alive p) (peers v) = None"
    and "create_peer adr prt s client w = Some (np, w')" and "after_malloc w w'"
  shows "heap_add_peer adr prt s client w =
           Some (case np of None \<Rightarrow> (None, w') | Some p \<Rightarrow> (Some (pbrk w), link_cell as p w'))"
proof (cases "as = []")
  case True
  then have "phead w = None" using chain_null [OF table_atD(1) [OF assms(1)]] by simp
  then show ?thesis
    using True after_malloc_heap [OF assms(4)] assms(3)
    by (simp add: heap_add_peer_def new_cell_def link_cell_def Let_def split: option.split)
next
  case False
  note t = table_atD [OF assms(1)]
  obtain q where q: "phead w = Some q" using chain_null [OF t(1)] False by (cases "phead w") auto
  have slot: "find_slot (pcells w) q = Some (last as, False)"
    using find_slot_chain [OF t(1) q] assms(2) t(3) by simp
  obtain l where l: "pcells w (last as) = Some l" "pn_next l = None" using chain_last [OF t(1) False] by blast
  have lne: "last as \<noteq> pbrk w" using t(5) False last_in_set by metis
  show ?thesis
    using False after_malloc_heap [OF assms(4)] l lne assms(3)
    by (simp add: heap_add_peer_def q slot new_cell_def link_cell_def Let_def fun_upd_idem split: option.split)
qed

lemma heap_append:
  fixes w :: "('k, 'c) peer_heap"
  assumes "table_at w as v" and "find_index (\<lambda>p. \<not> alive p) (peers v) = None"
  shows "\<exists>j v' w' as'. add_peer adr prt s client v = Some (j, v') \<and>
           heap_add_peer adr prt s client w = Some (map_option ((!) as') j, w') \<and>
           table_at w' as' v' \<and> take (length as) as' = as"
proof -
  have os: "os.truncate v = os.truncate w" using assms(1) by (simp add: table_at_def)
  define w1 v1 w2 v2 where wv: "w1 = snd (malloc w)" "v1 = snd (malloc v)" "w2 = snd (malloc w1)" "v2 = snd (malloc v1)"
  note m = malloc_alike [OF os] malloc_alike [OF malloc_alike(2) [OF os]]
  have one: "after_malloc w w1" "after_malloc v v1" "os.truncate v1 = os.truncate w1"
    and two: "after_malloc w w2" "after_malloc v v2" "os.truncate v2 = os.truncate w2"
    using m after_malloc after_mallocs unfolding wv by auto
  define p :: "('k, 'c) peer" where p: "p = fresh_peer (if fst (malloc w1) then Ptr adr else Null) prt s client Null"
  show ?thesis
  proof (cases "fst (malloc w)")
    case True
    then have c: "create_peer adr prt s client w = Some (Some p, w2)" "create_peer adr prt s client v = Some (Some p, v2)"
      using m by (simp_all add: create_peer_result wv p)
    have "table_at (link_cell as p w2) (as @ [pbrk w]) (v2\<lparr>peers := peers v2 @ [p]\<rparr>)"
      using table_at_append [OF table_at_malloc [OF assms(1) two]] after_malloc_heap [OF two(1)] by metis
    moreover have "length (peers v2) = length as" using table_atD(4) [OF assms(1)] after_malloc_table [OF two(2)] by simp
    ultimately show ?thesis
      using heap_append_steps [OF assms c(1) two(1)] assms(2) c(2)
      by (intro exI [of _ "Some (length as)"] exI [of _ "v2\<lparr>peers := peers v2 @ [p]\<rparr>"] exI [of _ "link_cell as p w2"]
          exI [of _ "as @ [pbrk w]"]) (simp add: add_peer_def)
  next
    case False
    then have c: "create_peer adr prt s client w = Some (None, w1)" "create_peer adr prt s client v = Some (None :: ('k, 'c) peer option, v1)"
      using m by (simp_all add: create_peer_result wv p)
    show ?thesis
      using heap_append_steps [OF assms c(1) one(1)] assms(2) c(2) table_at_malloc [OF assms(1) one]
      by (intro exI [of _ None] exI [of _ v1] exI [of _ w1] exI [of _ as]) (simp add: add_peer_def)
  qed
qed

text \<open>\<open>destroy_peers\<close>: the cells go one by one, and every slot is destroyed as in the list version.\<close>

lemma destroy_peer_alike:
  assumes "os.truncate v = os.truncate w"
  shows "rel_option (\<lambda>v' w'. os.truncate v' = os.truncate w') (destroy_peer p v) (destroy_peer p w)"
  using assms by (simp add: destroy_peer_defined sys_close_def os.defs)

lemma destroy_peer_cells:
  assumes "destroy_peer p w = Some w'"
  shows "pcells w' = pcells w" and "phead w' = phead w" and "pbrk w' = pbrk w"
  using assms by (auto simp: destroy_peer_defined sys_close_def split: if_splits)

lemma destroy_cells_chain:
  assumes "chain pn_next (pcells w) p as" and "distinct as" and "os.truncate v = os.truncate w"
  shows "case destroy_peers_from (map (peer_at (pcells w)) as) v of
           None \<Rightarrow> destroy_cells p w = None
         | Some v' \<Rightarrow> \<exists>w'. destroy_cells p w = Some w' \<and> os.truncate v' = os.truncate w' \<and>
             pcells w' = pcells w |` (- set as) \<and> phead w' = phead w \<and> pbrk w' = pbrk w"
  using assms
proof (induction as arbitrary: p w v)
  case Nil
  then show ?case by (simp add: destroy_cells.simps restrict_map_def)
next
  case (Cons a as)
  then obtain n where p: "p = Some a" and n: "pcells w a = Some n" and rest: "chain pn_next (pcells w) (pn_next n) as"
    by (auto split: option.splits)
  have new: "a \<notin> set as" "distinct as" using Cons.prems(2) by simp_all
  have at_a: "peer_at (pcells w) a = pn_peer n" using n by (simp add: peer_at_def)
  note alike = destroy_peer_alike [OF Cons.prems(3), of "pn_peer n"]
  show ?case
  proof (cases "destroy_peer (pn_peer n) w")
    case None
    with alike have "destroy_peer (pn_peer n) v = None" by simp
    with None n at_a show ?thesis unfolding p by (subst destroy_cells.simps) simp
  next
    case (Some w1)
    with alike obtain v1 where v1: "destroy_peer (pn_peer n) v = Some v1" "os.truncate v1 = os.truncate w1"
      by (cases "destroy_peer (pn_peer n) v") auto
    note same = destroy_peer_cells [OF Some]
    let ?w1 = "w1\<lparr>pcells := (pcells w1)(a := None)\<rparr>"
    have ch: "chain pn_next (pcells ?w1) (pn_next n) as" using rest new(1) same(1) by (simp del: fun_upd_apply)
    have os: "os.truncate v1 = os.truncate ?w1" using v1(2) by (simp add: os.defs)
    have slots: "map (peer_at (pcells ?w1)) as = map (peer_at (pcells w)) as"
      using new(1) same(1) by (auto simp: peer_at_def)
    have rec: "case destroy_peers_from (map (peer_at (pcells w)) as) v1 of
           None \<Rightarrow> destroy_cells (pn_next n) ?w1 = None
         | Some v' \<Rightarrow> \<exists>w'. destroy_cells (pn_next n) ?w1 = Some w' \<and> os.truncate v' = os.truncate w' \<and>
             pcells w' = pcells ?w1 |` (- set as) \<and> phead w' = phead ?w1 \<and> pbrk w' = pbrk ?w1"
      using Cons.IH [OF ch new(2) os] unfolding slots .
    have unfold: "destroy_cells p w = destroy_cells (pn_next n) ?w1"
      using Some n unfolding p by (subst destroy_cells.simps) simp
    have frees: "(pcells w)(a := None) |` (- set as) = pcells w |` (- set (a # as))"
      by (auto simp: restrict_map_def)
    show ?thesis
      using rec v1(1) same frees at_a unfolding unfold
      by (auto simp del: fun_upd_apply split: option.splits)
  qed
qed

section \<open>Properties\<close>

text \<open>C29. \<open>add_peer\<close> on the heap implements \<open>add_peer\<close> on the list of slots: its walk returns, the pointer it
  returns is the cell of the slot the list version chooses (null when the allocation fails), undefined
  behaviour included, and the peer pointers already handed out stay where they are in the table.\<close>

theorem heap_add_peer_refines:
  assumes "table_at w as v"
  shows "case add_peer adr prt s client v of
           None \<Rightarrow> heap_add_peer adr prt s client w = None
         | Some (j, v') \<Rightarrow> \<exists>w' as'. heap_add_peer adr prt s client w = Some (map_option ((!) as') j, w') \<and>
             table_at w' as' v' \<and> take (length as) as' = as"
proof (cases "find_index (\<lambda>p. \<not> alive p) (peers v)")
  case (Some i)
  from heap_reuse [OF assms this, of adr prt s client] show ?thesis by (fastforce split: option.splits)
next
  case None
  from heap_append [OF assms this, of adr prt s client] show ?thesis by auto
qed

definition demo_heap :: "(bool, byte list) peer_heap" where
  "demo_heap = os.extend os_init
     \<lparr>pcells = [3 \<mapsto> \<lparr>pn_peer = initialize_peer\<lparr>alive := True, sockfd := 4\<rparr>, pn_next = None\<rparr>], phead = Some 3, pbrk = 7\<rparr>"

lemma demo_table:
  "table_at demo_heap [3] (peer_state_init\<lparr>peers := [initialize_peer\<lparr>alive := True, sockfd := 4\<rparr>]\<rparr>)"
  by (simp add: table_at_def demo_heap_def peer_at_def peer_state_init_def key_init_def iface_init_def cfg_init_def
      log_init_def os_init_def os.defs log_state.defs cfg_state.defs iface_state.defs key_state.defs)

theorem heap_add_peer_refines_witness:
  "\<exists>w' as'. heap_add_peer ''10.0.0.9'' 7 11 False demo_heap = Some (Some (as' ! 1), w') \<and> take 1 as' = [3]"
proof -
  let ?v = "peer_state_init\<lparr>peers := [initialize_peer\<lparr>alive := True, sockfd := 4\<rparr>]\<rparr> :: (bool, byte list) peer_state"
  have m: "mallocs ?v = []"
    by (simp add: peer_state_init_def key_init_def iface_init_def cfg_init_def log_init_def
        os_init_def os.defs log_state.defs cfg_state.defs iface_state.defs key_state.defs)
  have "add_peer ''10.0.0.9'' 7 11 False ?v =
      Some (Some 1, ?v\<lparr>peers := peers ?v @ [fresh_peer (Ptr ''10.0.0.9'') 7 11 False Null]\<rparr>)"
    using m by (simp add: add_peer_def create_peer_ok)
  then show ?thesis
    using heap_add_peer_refines [OF demo_table, of "''10.0.0.9''" 7 11 False] by auto
qed

text \<open>C30. The other two walks over the table on the heap: \<open>get_peer_route\<close> returns the cell of the slot the list
  version finds, and \<open>destroy_peers\<close> closes what the list version closes, with the same undefined
  behaviour, frees every cell of the table once and no other, and leaves the table empty.\<close>

theorem heap_table_refines:
  assumes "table_at w as v"
  shows "heap_get_peer_route r (pcells w) (phead w) = Some (map_option ((!) as) (get_peer_route r v)) \<and>
         (case destroy_peers v of
            None \<Rightarrow> heap_destroy_peers w = None
          | Some v' \<Rightarrow> \<exists>w'. heap_destroy_peers w = Some w' \<and> table_at w' [] v' \<and>
              pcells w' = pcells w |` (- set as))"
proof
  note t = table_atD [OF assms]
  show "heap_get_peer_route r (pcells w) (phead w) = Some (map_option ((!) as) (get_peer_route r v))"
    using get_route_chain [OF t(1)] t(3) by (simp add: get_peer_route_def)
  let ?v = "v\<lparr>peers := [], local_routes := []\<rparr>" and ?w = "w\<lparr>phead := None\<rparr>"
  have os: "os.truncate ?v = os.truncate ?w" using assms by (simp add: table_at_def os.defs)
  have low: "\<forall>a \<in> dom (pcells w). a < pbrk w" using assms by (simp add: table_at_def)
  have "case destroy_peers_from (peers v) ?v of
          None \<Rightarrow> destroy_cells (phead w) ?w = None
        | Some v' \<Rightarrow> \<exists>w'. destroy_cells (phead w) ?w = Some w' \<and> os.truncate v' = os.truncate w' \<and>
             pcells w' = pcells w |` (- set as) \<and> phead w' = None \<and> pbrk w' = pbrk w"
    using destroy_cells_chain [of ?w "phead w" as ?v] t(1-3) os by (simp split: option.splits)
  moreover have "peers v' = []" if "destroy_peers_from (peers v) ?v = Some v'" for v'
    using that by (auto simp: destroy_peers_from_result split: if_splits)
  ultimately show "case destroy_peers v of
            None \<Rightarrow> heap_destroy_peers w = None
          | Some v' \<Rightarrow> \<exists>w'. heap_destroy_peers w = Some w' \<and> table_at w' [] v' \<and> pcells w' = pcells w |` (- set as)"
    using low by (fastforce simp: destroy_peers_def Let_def heap_destroy_peers_def table_at_def split: option.splits)
qed

theorem heap_table_refines_witness:
  "\<exists>w'. heap_destroy_peers demo_heap = Some w' \<and> pcells w' = Map.empty"
proof -
  have "destroy_peers (peer_state_init\<lparr>peers := [initialize_peer\<lparr>alive := True, sockfd := 4\<rparr>]\<rparr> :: (bool, byte list) peer_state) \<noteq> None"
    by (simp add: destroy_peers_def destroy_peers_from_result no_dangling_def initialize_peer_def)
  moreover have "pcells demo_heap |` (- set [3]) = Map.empty" by (auto simp: demo_heap_def os.defs restrict_map_def)
  ultimately show ?thesis using heap_table_refines [OF demo_table] by (fastforce split: option.splits)
qed

end
