(* ===== verification/Encryption.thy ===== *)
theory Encryption
  imports OpenSSL_API OS_Model
begin

text \<open>
  \<open>src/encryption.c\<close>: AES-256-CBC through OpenSSL's EVP interface. Source and destination are C
  buffers; a write beyond the destination is undefined behaviour. The length parameter is unsigned
  and becomes a signed \<open>int\<close> in the EVP calls. A result is the returned length (-1 for a failure),
  the context and the destination buffer afterwards.
\<close>

definition aes_init_ctx ::
  "('k, 'c) openssl \<Rightarrow> byte list \<Rightarrow> byte list \<Rightarrow> bool \<Rightarrow> 'a os_scheme \<Rightarrow> 'c option \<times> 'a os_scheme" where
  "aes_init_ctx ssl key iv encrypt w =
     (case malloc w of
        (False, w') \<Rightarrow> (None, w')
      | (True, w') \<Rightarrow> (if encrypt then evp_enc_init ssl key iv else evp_dec_init ssl key iv, w'))"

definition read_inl :: "byte list \<Rightarrow> u32 \<Rightarrow> byte list option" where
  "read_inl data len = (if 0 < sint len then mem_read data 0 (unat len) else Some [])"

definition aes_encrypt ::
  "('k, 'c) openssl \<Rightarrow> 'c \<Rightarrow> byte list \<Rightarrow> u32 \<Rightarrow> byte list \<Rightarrow> (int \<times> 'c \<times> byte list) option" where
  "aes_encrypt ssl ctx data data_len enc_data =
     (case evp_enc_reset ssl ctx of
        None \<Rightarrow> Some (-1, ctx, enc_data)
      | Some c1 \<Rightarrow>
          do {
            bs \<leftarrow> read_inl data data_len;
            case evp_enc_update ssl c1 (sint data_len) bs of
              None \<Rightarrow> Some (-1, c1, enc_data)
            | Some (c2, out) \<Rightarrow>
                do {
                  e1 \<leftarrow> mem_write enc_data 0 out;
                  let enc_data_len = length out;
                  case evp_enc_final ssl c2 of
                    None \<Rightarrow> Some (-1, c2, e1)
                  | Some (c3, out2) \<Rightarrow>
                      do {
                        e2 \<leftarrow> mem_write e1 (length out) out2;
                        Some (int enc_data_len + int (length out2), c3, e2)
                      }
                }
          })"

definition aes_decrypt ::
  "('k, 'c) openssl \<Rightarrow> 'c \<Rightarrow> byte list \<Rightarrow> u32 \<Rightarrow> byte list \<Rightarrow> (int \<times> 'c \<times> byte list) option" where
  "aes_decrypt ssl ctx enc_data enc_data_len data =
     (case evp_dec_reset ssl ctx of
        None \<Rightarrow> Some (-1, ctx, data)
      | Some c1 \<Rightarrow>
          do {
            bs \<leftarrow> read_inl enc_data enc_data_len;
            case evp_dec_update ssl c1 (sint enc_data_len) bs of
              None \<Rightarrow> Some (-1, c1, data)
            | Some (c2, out) \<Rightarrow>
                do {
                  d1 \<leftarrow> mem_write data 0 out;
                  let data_len = length out;
                  case evp_dec_final ssl c2 of
                    None \<Rightarrow> Some (-1, c2, d1)
                  | Some (c3, out2) \<Rightarrow>
                      do {
                        d2 \<leftarrow> mem_write d1 (length out) out2;
                        Some (int data_len + int (length out2), c3, d2)
                      }
                }
          })"

lemma sint_small: "unat (n :: u32) < 2 ^ 31 \<Longrightarrow> sint n = int (unat n)"
proof -
  assume "unat n < 2 ^ 31"
  then have "uint n < 2 ^ 31" by (metis of_nat_less_numeral_power_cancel_iff uint_nat)
  moreover have "- (2 ^ 31) \<le> uint n" by (rule order_trans [of _ 0]) simp_all
  ultimately have "signed_take_bit 31 (uint n) = uint n"
    by (intro signed_take_bit_int_eq_self) simp_all
  then show "sint n = int (unat n)" by (simp add: sint_uint)
qed

lemma read_inl_small:
  assumes "unat len < 2 ^ 31" and "unat len \<le> length data"
  shows "read_inl data len = Some (take (unat len) data)"
proof (cases "unat len = 0")
  case True
  with assms show ?thesis by (simp add: read_inl_def sint_small)
next
  case False
  then have "0 < int (unat len)" by linarith
  then have "0 < sint len" by (simp only: sint_small [OF assms(1)])
  with assms show ?thesis by (simp add: read_inl_def mem_read_def)
qed

lemma aes_encrypt_safe:
  assumes law: "cbc_sizes ssl"
    and len: "unat len < 2 ^ 31" "unat len \<le> length data"
    and room: "cbc_padded (unat len) \<le> length buf"
  shows "\<exists>r c' buf'. aes_encrypt ssl c data len buf = Some (r, c', buf') \<and>
           length buf' = length buf \<and> (r = -1 \<or> r = int (cbc_padded (unat len)))"
proof (cases "evp_enc_reset ssl c")
  case None
  then show ?thesis by (simp add: aes_encrypt_def)
next
  case (Some c1)
  let ?bs = "take (unat len) data"
  have n: "sint len = int (length ?bs)" using len by (simp add: sint_small)
  have bs: "read_inl data len = Some ?bs" using len by (rule read_inl_small)
  show ?thesis
  proof (cases "evp_enc_update ssl c1 (sint len) ?bs")
    case None
    with Some bs show ?thesis by (simp add: aes_encrypt_def)
  next
    case upd: (Some u)
    obtain c2 o1 where u: "u = (c2, o1)" by (cases u)
    have o1: "length o1 \<le> length ?bs"
      using cbc_sizesD(1) [OF law Some] upd n u by metis
    have fits: "length o1 \<le> length buf"
      using o1 room len by (simp add: cbc_padded_def)
    show ?thesis
    proof (cases "evp_enc_final ssl c2")
      case None
      with Some bs upd u fits show ?thesis by (simp add: aes_encrypt_def mem_write_def)
    next
      case fin: (Some f)
      obtain c3 o2 where f: "f = (c3, o2)" by (cases f)
      have "length o1 + length o2 = cbc_padded (length ?bs)"
        using cbc_sizesD(2) [OF law Some] upd fin n u f by metis
      then have sum: "length o1 + length o2 = cbc_padded (unat len)" using len by simp
      with Some bs upd u fin f fits room show ?thesis
        by (simp add: aes_encrypt_def mem_write_def flip: of_nat_add)
    qed
  qed
qed

lemma aes_decrypt_safe:
  assumes law: "cbc_sizes ssl"
    and len: "unat len < 2 ^ 31" "unat len \<le> length data"
    and room: "unat len + 16 \<le> length buf"
  shows "\<exists>r c' buf'. aes_decrypt ssl c data len buf = Some (r, c', buf') \<and>
           length buf' = length buf \<and> (r = -1 \<or> 0 \<le> r \<and> nat r < unat len)"
proof (cases "evp_dec_reset ssl c")
  case None
  then show ?thesis by (simp add: aes_decrypt_def)
next
  case (Some c1)
  let ?bs = "take (unat len) data"
  have n: "sint len = int (length ?bs)" using len by (simp add: sint_small)
  have bs: "read_inl data len = Some ?bs" using len by (rule read_inl_small)
  show ?thesis
  proof (cases "evp_dec_update ssl c1 (sint len) ?bs")
    case None
    with Some bs show ?thesis by (simp add: aes_decrypt_def)
  next
    case upd: (Some u)
    obtain c2 o1 where u: "u = (c2, o1)" by (cases u)
    have "length o1 \<le> length ?bs + 16"
      using cbc_sizesD(3) [OF law Some] upd n u by metis
    then have fits: "length o1 \<le> length buf" using room len by simp
    show ?thesis
    proof (cases "evp_dec_final ssl c2")
      case None
      with Some bs upd u fits show ?thesis by (simp add: aes_decrypt_def mem_write_def)
    next
      case fin: (Some f)
      obtain c3 o2 where f: "f = (c3, o2)" by (cases f)
      have "length o1 + length o2 < length ?bs"
        using cbc_sizesD(4) [OF law Some] upd fin n u f by metis
      then have sum: "length o1 + length o2 < unat len" using len by simp
      with Some bs upd u fin f fits room show ?thesis
        by (simp add: aes_decrypt_def mem_write_def flip: of_nat_add)
    qed
  qed
qed

text \<open>Whatever happens, the destination keeps its size.\<close>

lemma aes_decrypt_length:
  "aes_decrypt ssl c data len buf = Some (r, c', buf') \<Longrightarrow> length buf' = length buf"
  by (auto simp: aes_decrypt_def Option.bind_eq_Some_conv Let_def mem_write_length split: option.splits)

text \<open>The C functions compute the run of the context, when the destination has room for it.\<close>

lemma aes_encrypt_run:
  assumes run: "evp_enc_run ssl c (take (unat len) data) = Some (c', ct)"
    and len: "unat len < 2 ^ 31" "unat len \<le> length data"
  shows "aes_encrypt ssl c data len buf =
           (if length ct \<le> length buf
            then Some (int (length ct), c', ct @ drop (length ct) buf) else None)"
proof -
  have n: "sint len = int (length (take (unat len) data))" using len by (simp add: sint_small)
  from run obtain c1 c2 o1 o2 where steps: "evp_enc_reset ssl c = Some c1"
      "evp_enc_update ssl c1 (sint len) (take (unat len) data) = Some (c2, o1)"
      "evp_enc_final ssl c2 = Some (c', o2)" "ct = o1 @ o2"
    by (auto simp: evp_enc_run_def n split: Option.bind_splits)
  then show ?thesis
    by (auto simp: aes_encrypt_def read_inl_small [OF len] mem_write_def add.commute)
qed

lemma aes_decrypt_run:
  assumes run: "evp_dec_run ssl c (take (unat len) data) = Some (c', pt)"
    and len: "unat len < 2 ^ 31" "unat len \<le> length data"
  shows "aes_decrypt ssl c data len buf =
           (if length pt \<le> length buf
            then Some (int (length pt), c', pt @ drop (length pt) buf) else None)"
proof -
  have n: "sint len = int (length (take (unat len) data))" using len by (simp add: sint_small)
  from run obtain c1 c2 o1 o2 where steps: "evp_dec_reset ssl c = Some c1"
      "evp_dec_update ssl c1 (sint len) (take (unat len) data) = Some (c2, o1)"
      "evp_dec_final ssl c2 = Some (c', o2)" "pt = o1 @ o2"
    by (auto simp: evp_dec_run_def n split: Option.bind_splits)
  then show ?thesis
    by (auto simp: aes_decrypt_def read_inl_small [OF len] mem_write_def add.commute)
qed

lemma enc_run_length:
  assumes "cbc_sizes ssl" and "evp_enc_run ssl c data = Some (c', ct)"
  shows "length ct = cbc_padded (length data)"
  using assms(2) cbc_sizesD(2) [OF assms(1)]
  by (auto simp: evp_enc_run_def split: Option.bind_splits)

section \<open>Properties\<close>

text \<open>Decrypting undoes encrypting: for contexts of the same key and IV, whatever was encrypted or
  decrypted on them before, \<open>aes_encrypt\<close> of up to 2^31 - 1 bytes into a buffer that has room for the
  padded length returns that length, and \<open>aes_decrypt\<close> of its output returns the plain length and
  leaves the plain bytes at the start of its buffer.\<close>

theorem aes_roundtrip:
  assumes "cbc_sizes ssl" and "cbc_pairs ssl R" and "R ce cd"
    and "unat len < 2 ^ 31 - 16" and "unat len = length data"
    and "cbc_padded (unat len) \<le> length ebuf" and "length data \<le> length dbuf"
  shows "\<exists>ce' ebuf' cd' dbuf'.
           aes_encrypt ssl ce data len ebuf = Some (int (cbc_padded (unat len)), ce', ebuf') \<and>
           aes_decrypt ssl cd ebuf' (of_nat (cbc_padded (unat len))) dbuf =
             Some (int (length data), cd', dbuf') \<and>
           take (length data) dbuf' = data \<and> R ce' cd'"
proof -
  let ?m = "cbc_padded (unat len)"
  have "length data < 2 ^ 31" using assms(4,5) by simp
  then obtain ce' cd' ct where run: "evp_enc_run ssl ce data = Some (ce', ct)"
      "evp_dec_run ssl cd ct = Some (cd', data)" "R ce' cd'"
    by (rule cbc_pairsD [OF assms(2,3)])
  have ct: "length ct = ?m" using enc_run_length [OF assms(1) run(1)] assms(5) by simp
  have "16 * (unat len div 16) \<le> unat len" by simp
  then have m: "?m < 2 ^ 31" using assms(4) by (simp add: cbc_padded_def)
  then have um: "unat (of_nat ?m :: u32) = ?m" by (simp add: unat_of_nat)
  have enc: "aes_encrypt ssl ce data len ebuf = Some (int ?m, ce', ct @ drop ?m ebuf)"
    using aes_encrypt_run [of ssl ce len data ce' ct ebuf] run(1) assms(4-6) ct by simp
  have "aes_decrypt ssl cd (ct @ drop ?m ebuf) (of_nat ?m) dbuf =
          Some (int (length data), cd', data @ drop (length data) dbuf)"
    using aes_decrypt_run [of ssl cd "of_nat ?m" "ct @ drop ?m ebuf" cd' data dbuf] run(2) um m ct assms(7)
    by simp
  with enc run(3) show ?thesis by auto
qed

theorem aes_roundtrip_witness:
  "\<exists>ce' ebuf' cd' dbuf'.
     aes_encrypt toy_ssl [] [1, 2, 3] 3 (replicate 16 0) = Some (16, ce', ebuf') \<and>
     aes_decrypt toy_ssl [] ebuf' 16 [9, 9, 9, 9] = Some (3, cd', dbuf') \<and>
     take (length [1, 2, 3 :: byte]) dbuf' = [1, 2, 3]"
  using aes_roundtrip [OF toy_cbc_sizes toy_cbc_pairs,
    where ce = "[]" and cd = "[]" and len = 3 and data = "[1, 2, 3]"
      and ebuf = "replicate 16 0" and dbuf = "[9, 9, 9, 9]"]
  by (simp add: cbc_padded_def)

text \<open>\<open>aes_decrypt\<close> is memory safe on any bytes a peer sends: with a source of the given length and
  a destination one block larger it never writes outside its buffer, and it returns -1 or a length
  smaller than the ciphertext's.\<close>

theorem aes_decrypt_memory_safe:
  assumes "cbc_sizes ssl" and "unat len < 2 ^ 31" and "unat len \<le> length data"
    and "unat len + 16 \<le> length buf"
  shows "\<exists>r c' buf'. aes_decrypt ssl c data len buf = Some (r, c', buf') \<and>
           length buf' = length buf \<and> (r = -1 \<or> 0 \<le> r \<and> nat r < unat len)"
  using assms by (rule aes_decrypt_safe)

theorem aes_decrypt_memory_safe_witness:
  "\<exists>r c' buf'. aes_decrypt toy_ssl [] (replicate 16 200) 16 (replicate 32 0) = Some (r, c', buf')"
proof -
  have "unat (16 :: u32) < 2 ^ 31" "unat (16 :: u32) \<le> length (replicate 16 (200 :: byte))"
    "unat (16 :: u32) + 16 \<le> length (replicate 32 (0 :: byte))" by simp_all
  from aes_decrypt_memory_safe [OF toy_cbc_sizes this] show ?thesis by blast
qed

end
