(* ===== verification/Protocol.thy ===== *)
theory Protocol
  imports VPNd_Prelude
begin

text \<open>
  \<open>src/protocol.c\<close> and the constants of \<open>include/protocol.h\<close>: the frame header (one type byte and
  a 32-bit length) and its integer codec. \<open>le\<close> is the answer of \<open>is_little_endian\<close>, a fixed
  property of the host. The locale \<open>frame_codec\<close> is what the frame sender and the frame receiver
  rely on; it is interpreted on the C code's codec for either byte order.
\<close>

definition FRAME_HEADER_SIZE :: nat where "FRAME_HEADER_SIZE = 1 + 4"
definition FRAME_PAYLOAD_MAXSIZE :: nat where "FRAME_PAYLOAD_MAXSIZE = 2048"
definition FRAME_MAXSIZE :: nat where "FRAME_MAXSIZE = FRAME_HEADER_SIZE + FRAME_PAYLOAD_MAXSIZE"

definition FRAME_HDR_AUTH :: byte where "FRAME_HDR_AUTH = 0b0001"
definition FRAME_HDR_CLOSE :: byte where "FRAME_HDR_CLOSE = 0b0010"
definition FRAME_HDR_RESERVED :: byte where "FRAME_HDR_RESERVED = 0b0100"
definition FRAME_HDR_NETPACKET :: byte where "FRAME_HDR_NETPACKET = 0b1000"

lemmas frame_sizes = FRAME_HEADER_SIZE_def FRAME_PAYLOAD_MAXSIZE_def FRAME_MAXSIZE_def
lemmas frame_types =
  FRAME_HDR_AUTH_def FRAME_HDR_CLOSE_def FRAME_HDR_RESERVED_def FRAME_HDR_NETPACKET_def

text \<open>\<open>int n = 1; *(char *) &n == 1\<close>: the first byte in memory of the integer 1.\<close>

definition is_little_endian :: "byte list \<Rightarrow> bool" where
  "is_little_endian repr_of_1 \<longleftrightarrow> hd repr_of_1 = 1"

section \<open>Integers on the wire\<close>

definition read_uint32 :: "bool \<Rightarrow> byte list \<Rightarrow> u32 option" where
  "read_uint32 le buf =
     (if length buf < 4 then None
      else if le then Some (join32 (buf ! 3) (buf ! 2) (buf ! 1) (buf ! 0))
      else Some (join32 (buf ! 0) (buf ! 1) (buf ! 2) (buf ! 3)))"

definition write_uint32 :: "bool \<Rightarrow> byte list \<Rightarrow> u32 \<Rightarrow> byte list option" where
  "write_uint32 le buf sz =
     (if length buf < 4 then None
      else if le then
        Some (buf[3 := byte_at 3 sz, 2 := byte_at 2 sz, 1 := byte_at 1 sz, 0 := byte_at 0 sz])
      else
        Some (buf[0 := byte_at 3 sz, 1 := byte_at 2 sz, 2 := byte_at 1 sz, 3 := byte_at 0 sz]))"

definition encode_frame_header :: "bool \<Rightarrow> byte list \<Rightarrow> byte \<Rightarrow> u32 \<Rightarrow> byte list option" where
  "encode_frame_header le buf type data_len =
     (case buf of [] \<Rightarrow> None
      | b # rest \<Rightarrow> do { rest' \<leftarrow> write_uint32 le rest data_len; Some (type # rest') })"

definition decode_frame_header :: "bool \<Rightarrow> byte list \<Rightarrow> (byte \<times> u32) option" where
  "decode_frame_header le buf =
     (case buf of [] \<Rightarrow> None
      | b # rest \<Rightarrow> do { data_len \<leftarrow> read_uint32 le rest; Some (b, data_len) })"

text \<open>The four bytes \<open>write_uint32\<close> stores, and the five of a header.\<close>

definition u32_bytes :: "bool \<Rightarrow> u32 \<Rightarrow> byte list" where
  "u32_bytes le x =
     (if le then [byte_at 0 x, byte_at 1 x, byte_at 2 x, byte_at 3 x]
      else [byte_at 3 x, byte_at 2 x, byte_at 1 x, byte_at 0 x])"

definition frame_header :: "bool \<Rightarrow> byte \<Rightarrow> u32 \<Rightarrow> byte list" where
  "frame_header le type data_len = type # u32_bytes le data_len"

text \<open>Reversal of the byte order of a 32-bit integer (reference, for the mixed-host property).\<close>

definition bswap32 :: "u32 \<Rightarrow> u32" where
  "bswap32 x = join32 (byte_at 0 x) (byte_at 1 x) (byte_at 2 x) (byte_at 3 x)"

lemma length_u32_bytes [simp]: "length (u32_bytes le x) = 4"
  by (simp add: u32_bytes_def)

lemma length_frame_header [simp]: "length (frame_header le t n) = 5"
  by (simp add: frame_header_def)

lemma write_uint32_eq:
  "4 \<le> length buf \<Longrightarrow> write_uint32 le buf x = Some (u32_bytes le x @ drop 4 buf)"
  by (erule list4_cases) (simp add: write_uint32_def u32_bytes_def numeral_eq_Suc)

lemma read_uint32_bytes [simp]: "read_uint32 le (u32_bytes le x @ rest) = Some x"
  by (simp add: read_uint32_def u32_bytes_def nth_Cons')

lemma encode_frame_header_eq:
  "5 \<le> length buf \<Longrightarrow> encode_frame_header le buf t n = Some (frame_header le t n @ drop 5 buf)"
  by (cases buf) (auto simp: encode_frame_header_def frame_header_def write_uint32_eq)

lemma decode_frame_header_bytes [simp]:
  "decode_frame_header le (frame_header le t n @ rest) = Some (t, n)"
  by (simp add: decode_frame_header_def frame_header_def)

lemma decode_frame_header_defined:
  "5 \<le> length buf \<Longrightarrow> \<exists>t n. decode_frame_header le buf = Some (t, n)"
  by (cases buf) (auto simp: decode_frame_header_def read_uint32_def)

lemma decode_frame_header_take:
  "5 \<le> length buf \<Longrightarrow> decode_frame_header le (take 5 buf) = decode_frame_header le buf"
  by (cases buf) (auto simp: decode_frame_header_def read_uint32_def)

section \<open>The codec as an interface\<close>

text \<open>
  A frame is a type and a payload; \<open>frame_bytes\<close> is its image on the wire and \<open>next_frame\<close> takes
  the first frame off a byte stream. Both are stated over any header codec.
\<close>

datatype frame = Frame (frame_type: byte) (frame_data: "byte list")

definition frame_bytes :: "(byte \<Rightarrow> u32 \<Rightarrow> byte list) \<Rightarrow> frame \<Rightarrow> byte list" where
  "frame_bytes enc f = enc (frame_type f) (of_nat (length (frame_data f))) @ frame_data f"

definition next_frame :: "(byte list \<Rightarrow> (byte \<times> u32) option) \<Rightarrow> byte list \<Rightarrow> (frame \<times> byte list) option"
  where
  "next_frame dec bs =
     (case dec bs of None \<Rightarrow> None
      | Some (t, n) \<Rightarrow>
          (if length bs < 5 + unat n then None
           else Some (Frame t (take (unat n) (drop 5 bs)), drop (5 + unat n) bs)))"

fun all_frames :: "(byte list \<Rightarrow> (byte \<times> u32) option) \<Rightarrow> nat \<Rightarrow> byte list \<Rightarrow> frame list" where
  "all_frames dec 0 bs = []"
| "all_frames dec (Suc k) bs =
     (case next_frame dec bs of None \<Rightarrow> [] | Some (f, rest) \<Rightarrow> f # all_frames dec k rest)"

definition frame_ok :: "frame \<Rightarrow> bool" where
  "frame_ok f \<longleftrightarrow> length (frame_data f) < 2 ^ 32"

locale frame_codec =
  fixes enc :: "byte \<Rightarrow> u32 \<Rightarrow> byte list"
    and dec :: "byte list \<Rightarrow> (byte \<times> u32) option"
  assumes enc_length: "length (enc t n) = 5"
    and dec_enc: "dec (enc t n @ rest) = Some (t, n)"
begin

lemma next_frame_bytes:
  "frame_ok f \<Longrightarrow> next_frame dec (frame_bytes enc f @ rest) = Some (f, rest)"
  by (cases f)
    (simp add: next_frame_def frame_bytes_def frame_ok_def dec_enc enc_length unat_of_nat)

lemma all_frames_concat:
  "list_all frame_ok fs \<Longrightarrow>
     all_frames dec (length fs) (concat (map (frame_bytes enc) fs) @ rest) = fs"
  by (induction fs) (simp_all add: next_frame_bytes)

text \<open>No frame image is a proper prefix of another's: the stream has one reading.\<close>

lemma frame_bytes_unique:
  assumes "frame_ok f" "frame_ok g" and "frame_bytes enc f @ r = frame_bytes enc g @ s"
  shows "f = g \<and> r = s"
  using next_frame_bytes [OF assms(1), of r] next_frame_bytes [OF assms(2), of s] assms(3)
  by (metis option.inject prod.inject)

end

interpretation codec: frame_codec "frame_header le" "decode_frame_header le" for le
  by unfold_locales simp_all

section \<open>Properties\<close>

text \<open>\<open>encode_frame_header\<close> into any buffer of at least five bytes succeeds, changes only the first
  five bytes, and \<open>decode_frame_header\<close> on the same host reads back exactly the type and the length,
  for all 2^40 headers and either byte order.\<close>

theorem frame_header_roundtrip:
  assumes "5 \<le> length buf"
  shows "\<exists>buf'. encode_frame_header le buf t n = Some buf' \<and> length buf' = length buf \<and>
           drop 5 buf' = drop 5 buf \<and> decode_frame_header le buf' = Some (t, n)"
  using assms by (simp add: encode_frame_header_eq)

theorem frame_header_roundtrip_witness:
  "\<exists>buf'. encode_frame_header True [0, 0, 0, 0, 0, 7] 8 300 = Some buf' \<and>
     length buf' = length [0, 0, 0, 0, 0, 7 :: byte] \<and>
     drop 5 buf' = [7] \<and> decode_frame_header True buf' = Some (8, 300)"
  using frame_header_roundtrip [of "[0, 0, 0, 0, 0, 7]" True 8 300] by simp

text \<open>Between hosts of different byte order the codec does not interoperate: the receiver reads the
  length with its four bytes reversed. (The comments of \<open>read_uint32\<close>, \<open>write_uint32\<close> and the frame
  format promise big-endian bytes whatever the host.)\<close>

theorem mixed_hosts_swap_length:
  "\<exists>buf'. encode_frame_header le (a # b # c # d # e # rest) t n = Some buf' \<and>
     decode_frame_header (\<not> le) buf' = Some (t, bswap32 n)"
  by (cases le)
    (simp_all add: encode_frame_header_eq frame_header_def u32_bytes_def decode_frame_header_def
      read_uint32_def bswap32_def nth_Cons')

text \<open>A stream of frames written with the host's codec has exactly one reading: any sequence of
  frames with payloads below 4 GiB, concatenated, is taken apart into the same frames, whatever
  bytes follow.\<close>

theorem frame_stream_roundtrip:
  assumes "list_all frame_ok fs"
  shows "all_frames (decode_frame_header le) (length fs)
           (concat (map (frame_bytes (frame_header le)) fs) @ rest) = fs"
  using assms by (rule codec.all_frames_concat)

theorem frame_stream_roundtrip_witness:
  "all_frames (decode_frame_header False) 2
     (concat (map (frame_bytes (frame_header False)) [Frame 1 [5, 6], Frame 8 []]) @ [1])
   = [Frame 1 [5, 6], Frame 8 []]"
proof -
  have ok: "list_all frame_ok [Frame 1 [5, 6], Frame 8 []]"
    by (simp add: frame_ok_def)
  show ?thesis
    using frame_stream_roundtrip [OF ok, of False "[1]"] by (simp add: eval_nat_numeral)
qed

end
