(* ===== verification/Frame_IO.thy ===== *)
theory Frame_IO
  imports Peer Encryption Protocol
begin

text \<open>
  \<open>src/peer_net.c\<close>, first half: \<open>send_data_to_peer\<close>, \<open>broadcast_data_to_peers\<close> and
  \<open>receive_frame\<close>.

  What a connection still has to deliver is a list of chunks: one \<open>recv\<close> hands over at most one
  chunk, cut to the size asked for; when the list is exhausted (or the chunk is empty) \<open>recv\<close>
  reports the end of the stream or an error. The chunks are the segmentation TCP happens to
  produce; their concatenation is the stream. A connection is read by its own thread only, so the
  chunks are an argument and not part of the process state.
\<close>

section \<open>Receiving\<close>

fun recv :: "nat \<Rightarrow> byte list list \<Rightarrow> byte list \<times> byte list list" where
  "recv n [] = ([], [])"
| "recv n (c # cs) = (if length c \<le> n then (c, cs) else (take n c, drop n c # cs))"

text \<open>The buffer, the two out-parameters and the connection.\<close>

record rx =
  rx_buf :: "byte list"
  rx_type :: byte
  rx_len :: u32
  rx_in :: "byte list list"

text \<open>
  Both loops of \<open>receive_frame\<close>: receive until \<open>goal\<close> bytes are there, the first at \<open>base\<close>. (The
  first loop tests \<open>total != FRAME_HEADER_SIZE\<close>; since a \<open>recv\<close> never delivers more than was asked,
  this is \<open>total < goal\<close>.)
\<close>

function recv_loop ::
  "nat \<Rightarrow> nat \<Rightarrow> nat \<Rightarrow> byte list \<Rightarrow> byte list list \<Rightarrow> (bool \<times> byte list \<times> byte list list) option" where
  "recv_loop base goal t buf cs =
     (if t < goal then
        (case recv (goal - t) cs of
           (bs, cs') \<Rightarrow>
             (if bs = [] then Some (False, buf, cs')
              else do {
                buf' \<leftarrow> mem_write buf (base + t) bs;
                recv_loop base goal (t + length bs) buf' cs'
              }))
      else Some (True, buf, cs))"
  by pat_completeness auto
termination
  by (relation "measure (\<lambda>(base, goal, t, buf, cs). goal - t)") (auto intro!: diff_less_mono2)

declare recv_loop.simps [simp del]

definition receive_frame :: "bool \<Rightarrow> rx \<Rightarrow> (int \<times> rx) option" where
  "receive_frame le r =
     do {
       (ok, buf, cs) \<leftarrow> recv_loop 0 FRAME_HEADER_SIZE 0 (rx_buf r) (rx_in r);
       if \<not> ok then Some (-1, r\<lparr>rx_buf := buf, rx_in := cs\<rparr>)
       else
         do {
           (header_type, data_len) \<leftarrow> decode_frame_header le buf;
           let r1 = r\<lparr>rx_buf := buf, rx_in := cs, rx_type := header_type, rx_len := data_len\<rparr>;
           if unat data_len > FRAME_PAYLOAD_MAXSIZE then
             (case recv FRAME_MAXSIZE cs of
                (bs, cs') \<Rightarrow>
                  do { buf' \<leftarrow> mem_write buf 0 bs; Some (0, r1\<lparr>rx_buf := buf', rx_in := cs'\<rparr>) })
           else if unat data_len > 0 then
             do {
               (ok', buf', cs') \<leftarrow> recv_loop FRAME_HEADER_SIZE (unat data_len) 0 buf cs;
               if \<not> ok' then Some (-1, r1\<lparr>rx_buf := buf', rx_in := cs'\<rparr>)
               else Some (int (unat data_len) + int FRAME_HEADER_SIZE, r1\<lparr>rx_buf := buf', rx_in := cs'\<rparr>)
             }
           else Some (0 + int FRAME_HEADER_SIZE, r1)
         }
     }"

abbreviation chunks_ok :: "byte list list \<Rightarrow> bool" where
  "chunks_ok cs \<equiv> list_all (\<lambda>c. c \<noteq> []) cs"

lemma recv_result:
  assumes "recv n cs = (bs, cs')"
  shows "length bs \<le> n" and "concat cs = bs @ concat cs'"
  using assms by (cases cs; auto split: if_splits)+

lemma recv_chunks:
  assumes "recv n cs = (bs, cs')" and "chunks_ok cs" and "0 < n"
  shows "chunks_ok cs'" and "bs = [] \<longleftrightarrow> cs = []"
  using assms by (cases cs; auto split: if_splits)+

lemma recv_loop_step:
  "t < goal \<Longrightarrow> recv (goal - t) cs = (bs, cs') \<Longrightarrow>
     recv_loop base goal t buf cs =
       (if bs = [] then Some (False, buf, cs')
        else do { buf' \<leftarrow> mem_write buf (base + t) bs; recv_loop base goal (t + length bs) buf' cs' })"
  by (subst recv_loop.simps) simp

lemma recv_loop_done [simp]: "goal \<le> t \<Longrightarrow> recv_loop base goal t buf cs = Some (True, buf, cs)"
  by (subst recv_loop.simps) simp

text \<open>The loop stays inside the buffer and moves a prefix of the stream into it.\<close>

lemma recv_loop_result:
  "base + goal \<le> length buf \<Longrightarrow> t \<le> goal \<Longrightarrow>
     \<exists>ok buf' cs' bs. recv_loop base goal t buf cs = Some (ok, buf', cs') \<and>
       concat cs = bs @ concat cs' \<and> t + length bs \<le> goal \<and>
       mem_write buf (base + t) bs = Some buf' \<and> (ok \<longleftrightarrow> t + length bs = goal) \<and>
       (chunks_ok cs \<longrightarrow> chunks_ok cs' \<and> (\<not> ok \<longrightarrow> cs' = []))"
proof (induction base goal t buf cs rule: recv_loop.induct)
  case (1 base goal t buf cs)
  show ?case
  proof (cases "t < goal")
    case False
    with "1.prems" show ?thesis by (intro exI [of _ "[]"] exI) (auto simp: mem_write_def)
  next
    case True
    obtain bs cs1 where r: "recv (goal - t) cs = (bs, cs1)" by (cases "recv (goal - t) cs")
    have len: "length bs \<le> goal - t" and cc: "concat cs = bs @ concat cs1"
      using recv_result [OF r] by simp_all
    have ch: "chunks_ok cs \<Longrightarrow> chunks_ok cs1 \<and> (bs = [] \<longleftrightarrow> cs = [])"
      using recv_chunks [OF r] True by auto
    show ?thesis
    proof (cases "bs = []")
      case Nil: True
      have "chunks_ok cs \<Longrightarrow> cs1 = []" using ch Nil r by auto
      with Nil True r cc "1.prems" show ?thesis
        by (intro exI [of _ False] exI [of _ buf] exI [of _ cs1] exI [of _ "[]"])
          (auto simp: recv_loop_step mem_write_def)
    next
      case ne: False
      have fits: "base + t + length bs \<le> length buf" using "1.prems" len True by linarith
      then obtain b1 where w: "mem_write buf (base + t) bs = Some b1" and lb: "length b1 = length buf"
        by (simp add: mem_write_def)
      have "base + goal \<le> length b1" "t + length bs \<le> goal"
        using "1.prems" lb len True by auto
      from "1.IH" [OF True r [symmetric] ne w this]
      obtain ok buf' cs' bs' where rec: "recv_loop base goal (t + length bs) b1 cs1 = Some (ok, buf', cs')"
        "concat cs1 = bs' @ concat cs'" "t + length bs + length bs' \<le> goal"
        "mem_write b1 (base + (t + length bs)) bs' = Some buf'" "ok \<longleftrightarrow> t + length bs + length bs' = goal"
        "chunks_ok cs1 \<longrightarrow> chunks_ok cs' \<and> (\<not> ok \<longrightarrow> cs' = [])"
        by auto
      have "mem_write buf (base + t) (bs @ bs') = Some buf'"
        using mem_write_append [of "base + t" bs bs' buf] w rec(3,4) "1.prems"(1)
        by (simp add: add.assoc)
      then show ?thesis
        using rec True r ne w cc ch
        by (intro exI [of _ ok] exI [of _ buf'] exI [of _ cs'] exI [of _ "bs @ bs'"])
          (auto simp: recv_loop_step)
    qed
  qed
qed

text \<open>
  \<open>frame_step le r ret r' bs\<close>: one call returned \<open>ret\<close>, consumed the bytes \<open>bs\<close> of the stream and left
  \<open>r'\<close>. It failed inside a frame, or took a whole frame, or took an oversized header and some more.
\<close>

definition frame_step :: "bool \<Rightarrow> rx \<Rightarrow> int \<Rightarrow> rx \<Rightarrow> byte list \<Rightarrow> bool" where
  "frame_step le r ret r' bs \<longleftrightarrow>
     length (rx_buf r') = FRAME_MAXSIZE \<and> concat (rx_in r) = bs @ concat (rx_in r') \<and>
     (chunks_ok (rx_in r) \<longrightarrow> chunks_ok (rx_in r') \<and> (ret = -1 \<longrightarrow> rx_in r' = [])) \<and>
     (if ret = -1
      then length bs < 5 \<or>
           (\<exists>t n. decode_frame_header le bs = Some (t, n) \<and> unat n \<le> FRAME_PAYLOAD_MAXSIZE \<and>
                  length bs < 5 + unat n)
      else decode_frame_header le bs = Some (rx_type r', rx_len r') \<and> 5 \<le> length bs \<and>
           (if unat (rx_len r') \<le> FRAME_PAYLOAD_MAXSIZE
            then ret = 5 + int (unat (rx_len r')) \<and> length bs = 5 + unat (rx_len r') \<and>
                 take (length bs) (rx_buf r') = bs
            else ret = 0))"

lemma decode_prefix:
  "length h = 5 \<Longrightarrow> decode_frame_header le (h @ xs) = decode_frame_header le h"
  using decode_frame_header_take [of "h @ xs" le] by simp

lemma receive_oversized:
  assumes l1: "recv_loop 0 FRAME_HEADER_SIZE 0 (rx_buf r) (rx_in r) = Some (True, buf1, cs1)"
    and h: "concat (rx_in r) = h @ concat cs1" "length h = 5" "decode_frame_header le buf1 = Some (t, n)"
      "decode_frame_header le h = Some (t, n)"
    and cs: "chunks_ok (rx_in r) \<longrightarrow> chunks_ok cs1" and len: "length buf1 = FRAME_MAXSIZE"
    and n: "FRAME_PAYLOAD_MAXSIZE < unat n"
  shows "\<exists>r' bs. receive_frame le r = Some (0, r') \<and> frame_step le r 0 r' bs"
proof -
  obtain bs cs2 where rc: "recv FRAME_MAXSIZE cs1 = (bs, cs2)" by (cases "recv FRAME_MAXSIZE cs1")
  have bs: "length bs \<le> FRAME_MAXSIZE" "concat cs1 = bs @ concat cs2"
    using recv_result [OF rc] by simp_all
  have ch: "chunks_ok cs1 \<Longrightarrow> chunks_ok cs2"
    using recv_chunks [OF rc] by (simp add: frame_sizes)
  define r' where "r' = r\<lparr>rx_buf := bs @ drop (length bs) buf1, rx_in := cs2, rx_type := t, rx_len := n\<rparr>"
  have "receive_frame le r = Some (0, r')"
    using l1 h(3) n rc bs(1) len by (simp add: receive_frame_def mem_write_def r'_def)
  moreover have "frame_step le r 0 r' (h @ bs)"
    using h bs ch cs len n by (simp add: frame_step_def r'_def decode_prefix)
  ultimately show ?thesis by blast
qed

lemma receive_payload:
  assumes l1: "recv_loop 0 FRAME_HEADER_SIZE 0 (rx_buf r) (rx_in r) = Some (True, buf1, cs1)"
    and h: "concat (rx_in r) = h @ concat cs1" "length h = 5" "decode_frame_header le buf1 = Some (t, n)"
      "decode_frame_header le h = Some (t, n)"
    and cs: "chunks_ok (rx_in r) \<longrightarrow> chunks_ok cs1" and len: "length buf1 = FRAME_MAXSIZE"
    and b1: "take 5 buf1 = h" and n: "unat n \<le> FRAME_PAYLOAD_MAXSIZE"
  shows "\<exists>ret r' bs. receive_frame le r = Some (ret, r') \<and> frame_step le r ret r' bs"
proof -
  from n len have "FRAME_HEADER_SIZE + unat n \<le> length buf1" by (simp add: frame_sizes)
  from recv_loop_result [OF this, of 0 cs1] obtain ok buf2 cs2 bs where
    l2: "recv_loop FRAME_HEADER_SIZE (unat n) 0 buf1 cs1 = Some (ok, buf2, cs2)"
      "concat cs1 = bs @ concat cs2" "length bs \<le> unat n" "mem_write buf1 FRAME_HEADER_SIZE bs = Some buf2"
      "ok \<longleftrightarrow> length bs = unat n" "chunks_ok cs1 \<longrightarrow> chunks_ok cs2 \<and> (\<not> ok \<longrightarrow> cs2 = [])"
    by auto
  have b2: "buf2 = h @ bs @ drop (5 + length bs) buf1" "length buf2 = FRAME_MAXSIZE"
    using l2(4) len b1 by (auto simp: mem_write_def FRAME_HEADER_SIZE_def split: if_splits)
  define r' where "r' = r\<lparr>rx_buf := buf2, rx_in := cs2, rx_type := t, rx_len := n\<rparr>"
  define ret where "ret = (if ok then 5 + int (unat n) else -1)"
  have "receive_frame le r = Some (ret, r')"
  proof (cases "unat n = 0")
    case True
    with l2(1,5) have "ok" "buf2 = buf1" "cs2 = cs1" using l2(3) by auto
    with True l1 h(3) n show ?thesis
      by (simp add: receive_frame_def r'_def ret_def FRAME_HEADER_SIZE_def)
  next
    case False
    with l1 l2(1) h(3) n show ?thesis
      by (simp add: receive_frame_def r'_def ret_def FRAME_HEADER_SIZE_def)
  qed
  moreover have "frame_step le r ret r' (h @ bs)"
  proof (cases ok)
    case True
    have "6 + uint n \<noteq> 0" using uint_ge_0 [of n] by linarith
    with True show ?thesis
      using h(1,2,4) l2(2,5,6) cs b2 n by (simp add: frame_step_def r'_def ret_def decode_prefix)
  next
    case False
    then have "length bs < unat n" using l2(3,5) by simp
    with False show ?thesis
      using h(1,2,4) l2(2,6) cs b2 n by (simp add: frame_step_def r'_def ret_def decode_prefix)
  qed
  ultimately show ?thesis by blast
qed

lemma receive_frame_result:
  assumes buf: "length (rx_buf r) = FRAME_MAXSIZE"
  shows "\<exists>ret r' bs. receive_frame le r = Some (ret, r') \<and> frame_step le r ret r' bs"
proof -
  from buf have "0 + FRAME_HEADER_SIZE \<le> length (rx_buf r)" by (simp add: frame_sizes)
  from recv_loop_result [OF this, of 0 "rx_in r"] obtain ok buf1 cs1 h where
    l1: "recv_loop 0 FRAME_HEADER_SIZE 0 (rx_buf r) (rx_in r) = Some (ok, buf1, cs1)"
      "concat (rx_in r) = h @ concat cs1" "length h \<le> 5" "mem_write (rx_buf r) 0 h = Some buf1"
      "ok \<longleftrightarrow> length h = 5" "chunks_ok (rx_in r) \<longrightarrow> chunks_ok cs1 \<and> (\<not> ok \<longrightarrow> cs1 = [])"
    by (auto simp: FRAME_HEADER_SIZE_def)
  from l1(4) buf have b1: "buf1 = h @ drop (length h) (rx_buf r)" "length buf1 = FRAME_MAXSIZE"
    by (auto simp: mem_write_def split: if_splits)
  show ?thesis
  proof (cases ok)
    case False
    then have "receive_frame le r = Some (-1, r\<lparr>rx_buf := buf1, rx_in := cs1\<rparr>)"
      using l1(1) by (simp add: receive_frame_def)
    moreover have "frame_step le r (-1) (r\<lparr>rx_buf := buf1, rx_in := cs1\<rparr>) h"
      using False l1 b1(2) by (simp add: frame_step_def)
    ultimately show ?thesis by blast
  next
    case True
    then have h: "length h = 5" using l1(5) by simp
    then obtain t n where d: "decode_frame_header le h = Some (t, n)"
      using decode_frame_header_defined [of h le] by auto
    have d1: "decode_frame_header le buf1 = Some (t, n)" using d h b1(1) by (simp add: decode_prefix)
    have t1: "take 5 buf1 = h" using b1(1) h by simp
    have cs: "chunks_ok (rx_in r) \<longrightarrow> chunks_ok cs1" using l1(6) by simp
    show ?thesis
      using receive_payload [of r buf1 cs1 h le t n] receive_oversized [of r buf1 cs1 h le t n]
        l1(1,2) True h d d1 t1 cs b1(2)
      by (cases "unat n \<le> FRAME_PAYLOAD_MAXSIZE") auto
  qed
qed

lemma receive_frame_keeps:
  assumes "receive_frame le r = Some (ret, r')" and "length (rx_buf r) = FRAME_MAXSIZE"
  shows "length (rx_buf r') = FRAME_MAXSIZE"
  using receive_frame_result [OF assms(2), of le] assms(1) by (auto simp: frame_step_def)

section \<open>Sending\<close>

text \<open>
  The part of \<open>send_data_to_peer\<close> under the peer's mutex: the header loop and the payload loop. The
  second runs whatever became of the first. The five bytes of \<open>frame_hdr\<close> are all overwritten, so
  their initial value does not matter.
\<close>

definition put_frame ::
  "int \<Rightarrow> byte \<Rightarrow> byte list \<Rightarrow> u32 \<Rightarrow> ('k, 'c, 'a) peer_state_scheme \<Rightarrow> ('k, 'c, 'a) peer_state_scheme option"
  where
  "put_frame s frame_hdr_type data data_len w =
     do {
       frame_hdr \<leftarrow> encode_frame_header (host_le w) (replicate FRAME_HEADER_SIZE 0) frame_hdr_type data_len;
       let (sent, w1) = put_all (sock_send s) w frame_hdr;
       payload \<leftarrow> mem_read data 0 (unat data_len);
       let (sent, w2) = put_all (sock_send s) w1 payload;
       Some w2
     }"

definition send_data_to_peer ::
  "('k, 'c) openssl \<Rightarrow> byte \<Rightarrow> byte list \<Rightarrow> u32 \<Rightarrow> bool \<Rightarrow> nat
     \<Rightarrow> ('k, 'c, 'a) peer_state_scheme \<Rightarrow> ('k, 'c, 'a) peer_state_scheme option" where
  "send_data_to_peer ssl frame_hdr_type data data_len encrypt peer w =
     (if \<not> peer < length (peers w) then None
      else
        (let p = peers w ! peer
         in if alive p then
              (if encrypt then
                 (if \<not> authenticated p then Some w
                  else
                    do {
                      ctx \<leftarrow> cderef (enc_ctx p);
                      (enc_len, ctx', enc_data) \<leftarrow>
                        aes_encrypt ssl ctx data data_len (replicate FRAME_PAYLOAD_MAXSIZE 0);
                      let w1 = w\<lparr>peers := (peers w)[peer := p\<lparr>enc_ctx := Ptr ctx'\<rparr>]\<rparr>;
                      if enc_len < 0 then Some w1
                      else put_frame (sockfd p) frame_hdr_type enc_data (of_int enc_len) w1
                    })
               else put_frame (sockfd p) frame_hdr_type data data_len w)
            else Some w))"

fun broadcast_from ::
  "('k, 'c) openssl \<Rightarrow> byte \<Rightarrow> byte list \<Rightarrow> u32 \<Rightarrow> bool \<Rightarrow> nat option \<Rightarrow> nat list
     \<Rightarrow> ('k, 'c, 'a) peer_state_scheme \<Rightarrow> ('k, 'c, 'a) peer_state_scheme option" where
  "broadcast_from ssl type data len encrypt exclude [] w = Some w"
| "broadcast_from ssl type data len encrypt exclude (i # is) w =
     (if Some i \<noteq> exclude \<and> alive (peers w ! i)
      then do {
             w' \<leftarrow> send_data_to_peer ssl type data len encrypt i w;
             broadcast_from ssl type data len encrypt exclude is w'
           }
      else broadcast_from ssl type data len encrypt exclude is w)"

definition broadcast_data_to_peers ::
  "('k, 'c) openssl \<Rightarrow> byte \<Rightarrow> byte list \<Rightarrow> u32 \<Rightarrow> bool \<Rightarrow> nat option
     \<Rightarrow> ('k, 'c, 'a) peer_state_scheme \<Rightarrow> ('k, 'c, 'a) peer_state_scheme option" where
  "broadcast_data_to_peers ssl frame_hdr_type data data_len encrypt exclude w =
     broadcast_from ssl frame_hdr_type data data_len encrypt exclude [0..<length (get_peer_list w)] w"

section \<open>What a send leaves alone\<close>

text \<open>A peer but for the contents of its cipher contexts.\<close>

definition peer_core :: "('k, 'c) peer \<Rightarrow> ('k, 'c) peer \<times> unit cptr \<times> unit cptr" where
  "peer_core p =
     (p\<lparr>enc_ctx := Null, dec_ctx := Null\<rparr>, map_cptr (\<lambda>_. ()) (enc_ctx p), map_cptr (\<lambda>_. ()) (dec_ctx p))"

definition sends_only :: "('k, 'c, 'a) peer_state_scheme \<Rightarrow> ('k, 'c, 'a) peer_state_scheme \<Rightarrow> bool" where
  "sends_only w w' \<longleftrightarrow>
     map peer_core (peers w') = map peer_core (peers w) \<and>
     (\<exists>rs wr. w' = w\<lparr>send_rets := rs, wire := wr, peers := peers w'\<rparr>)"

lemma map_cptr_unit:
  assumes "map_cptr (\<lambda>_. ()) a = map_cptr (\<lambda>_. ()) b"
  shows "(\<exists>c. a = Ptr c) \<longleftrightarrow> (\<exists>c. b = Ptr c)" "a = Dangling \<longleftrightarrow> b = Dangling" "a = Null \<longleftrightarrow> b = Null"
  using assms by (cases a; cases b; simp)+

lemma peer_core_eqD:
  assumes "peer_core p = peer_core q"
  shows "sockfd p = sockfd q" "is_client p = is_client q" "address p = address q" "port p = port q"
    "alive p = alive q" "pubkey p = pubkey q" "authenticated p = authenticated q"
    "peer_routes p = peer_routes q"
    "(\<exists>c. enc_ctx p = Ptr c) \<longleftrightarrow> (\<exists>c. enc_ctx q = Ptr c)"
    "(\<exists>c. dec_ctx p = Ptr c) \<longleftrightarrow> (\<exists>c. dec_ctx q = Ptr c)"
    "enc_ctx p = Dangling \<longleftrightarrow> enc_ctx q = Dangling" "dec_ctx p = Dangling \<longleftrightarrow> dec_ctx q = Dangling"
    "enc_ctx p = Null \<longleftrightarrow> enc_ctx q = Null" "dec_ctx p = Null \<longleftrightarrow> dec_ctx q = Null"
proof -
  from assms have eq: "p\<lparr>enc_ctx := Null, dec_ctx := Null\<rparr> = q\<lparr>enc_ctx := Null, dec_ctx := Null\<rparr>"
    and enc: "map_cptr (\<lambda>_. ()) (enc_ctx p) = map_cptr (\<lambda>_. ()) (enc_ctx q)"
    and dec: "map_cptr (\<lambda>_. ()) (dec_ctx p) = map_cptr (\<lambda>_. ()) (dec_ctx q)"
    by (simp_all only: peer_core_def prod.inject)
  show "sockfd p = sockfd q" using arg_cong [OF eq, of sockfd] by simp
  show "is_client p = is_client q" using arg_cong [OF eq, of is_client] by simp
  show "address p = address q" using arg_cong [OF eq, of address] by simp
  show "port p = port q" using arg_cong [OF eq, of port] by simp
  show "alive p = alive q" using arg_cong [OF eq, of alive] by simp
  show "pubkey p = pubkey q" using arg_cong [OF eq, of pubkey] by simp
  show "authenticated p = authenticated q" using arg_cong [OF eq, of authenticated] by simp
  show "peer_routes p = peer_routes q" using arg_cong [OF eq, of peer_routes] by simp
  show "(\<exists>c. enc_ctx p = Ptr c) \<longleftrightarrow> (\<exists>c. enc_ctx q = Ptr c)" "enc_ctx p = Dangling \<longleftrightarrow> enc_ctx q = Dangling"
    "enc_ctx p = Null \<longleftrightarrow> enc_ctx q = Null"
    using map_cptr_unit [OF enc] .
  show "(\<exists>c. dec_ctx p = Ptr c) \<longleftrightarrow> (\<exists>c. dec_ctx q = Ptr c)" "dec_ctx p = Dangling \<longleftrightarrow> dec_ctx q = Dangling"
    "dec_ctx p = Null \<longleftrightarrow> dec_ctx q = Null"
    using map_cptr_unit [OF dec] .
qed

lemma sends_only_refl [simp]: "sends_only w w"
  unfolding sends_only_def by (intro conjI refl exI [of _ "send_rets w"] exI [of _ "wire w"]) simp

lemma sends_only_trans:
  assumes "sends_only w w1" and "sends_only w1 w2"
  shows "sends_only w w2"
proof -
  from assms obtain rs wr rs' wr' where w1: "w1 = w\<lparr>send_rets := rs, wire := wr, peers := peers w1\<rparr>"
    and w2: "w2 = w1\<lparr>send_rets := rs', wire := wr', peers := peers w2\<rparr>"
    by (auto simp: sends_only_def)
  have "w2 = w\<lparr>send_rets := rs', wire := wr', peers := peers w2\<rparr>"
    by (subst w2, subst w1) simp
  with assms show ?thesis unfolding sends_only_def by metis
qed

lemma sends_only_fields [frame_simps]:
  assumes "sends_only w w'"
  shows "length (peers w') = length (peers w)" "local_routes w' = local_routes w"
    "trusted_keys w' = trusted_keys w" "daemon_pubkey w' = daemon_pubkey w"
    "daemon_privkey w' = daemon_privkey w" "if_fd w' = if_fd w" "if_tap w' = if_tap w"
    "tun_out w' = tun_out w" "write_rets w' = write_rets w" "mallocs w' = mallocs w" "rng w' = rng w"
    "host_le w' = host_le w" "closed w' = closed w"
proof -
  from assms obtain rs wr where w': "w' = w\<lparr>send_rets := rs, wire := wr, peers := peers w'\<rparr>"
    by (auto simp: sends_only_def)
  from assms show "length (peers w') = length (peers w)"
    unfolding sends_only_def by (metis length_map)
  show "local_routes w' = local_routes w"
    "trusted_keys w' = trusted_keys w" "daemon_pubkey w' = daemon_pubkey w"
    "daemon_privkey w' = daemon_privkey w" "if_fd w' = if_fd w" "if_tap w' = if_tap w"
    "tun_out w' = tun_out w" "write_rets w' = write_rets w" "mallocs w' = mallocs w" "rng w' = rng w"
    "host_le w' = host_le w" "closed w' = closed w"
    by (subst w', simp)+
qed

lemma sends_only_nth:
  assumes "sends_only w w'" and "i < length (peers w)"
  shows "peer_core (peers w' ! i) = peer_core (peers w ! i)"
proof -
  from assms(1) have "map peer_core (peers w') ! i = map peer_core (peers w) ! i"
    by (simp add: sends_only_def)
  with assms(2) sends_only_fields(1) [OF assms(1)] show ?thesis by simp
qed

text \<open>The loops of \<open>put_frame\<close>: a prefix of the header, then a prefix of the payload.\<close>

lemma put_frame_result:
  assumes "unat len \<le> length data"
  shows "\<exists>n1 n2 rs. n1 \<le> 5 \<and> n2 \<le> unat len \<and>
           put_frame s t data len w =
             Some (w\<lparr>send_rets := rs, wire := (wire w)(s := wire w s @
                      take n1 (frame_header (host_le w) t len) @ take n2 (take (unat len) data))\<rparr>) \<and>
           (send_good w \<longrightarrow> n1 = 5 \<and> n2 = unat len \<and> list_all (\<lambda>r. 0 < r) rs)"
proof -
  let ?h = "frame_header (host_le w) t len" and ?d = "take (unat len) data"
  obtain n1 w1 where p1: "put_all (sock_send s) w ?h = (n1, w1)" by (cases "put_all (sock_send s) w ?h")
  obtain n2 w2 where p2: "put_all (sock_send s) w1 ?d = (n2, w2)" by (cases "put_all (sock_send s) w1 ?d")
  obtain rs1 out1 where w1: "w1 = w\<lparr>send_rets := rs1, wire := (wire w)(s := out1)\<rparr>"
    using p1 by (rule put_all_sendE)
  obtain rs2 out2 where w2: "w2 = w1\<lparr>send_rets := rs2, wire := (wire w1)(s := out2)\<rparr>"
    using p2 by (rule put_all_sendE)
  have pre: "n1 \<le> 5" "out1 = wire w s @ take n1 ?h" "n2 \<le> unat len" "out2 = out1 @ take n2 ?d"
    using sock.put_all_prefix [OF p1] sock.put_all_prefix [OF p2] assms by (simp_all add: w1 w2)
  have good: "send_good w \<Longrightarrow> n1 = 5 \<and> n2 = unat len \<and> send_good w2"
    using sock.put_all_complete [OF _ p1] sock.put_all_complete [OF _ p2] assms by auto
  have "put_frame s t data len w = Some w2"
    using p1 p2 assms by (simp add: put_frame_def encode_frame_header_eq FRAME_HEADER_SIZE_def mem_read_def)
  moreover have "w2 = w\<lparr>send_rets := rs2, wire := (wire w)(s := wire w s @ take n1 ?h @ take n2 ?d)\<rparr>"
    using pre(2,4) by (simp add: w1 w2)
  ultimately show ?thesis using pre good
    by (intro exI [of _ n1] exI [of _ n2] exI [of _ rs2]) (auto simp: send_good_def)
qed

lemma sends_only_wire:
  "w' = w\<lparr>send_rets := rs, wire := wr\<rparr> \<Longrightarrow> sends_only w w' \<and> peers w' = peers w"
  unfolding sends_only_def by (auto intro!: exI [of _ rs] exI [of _ wr])

lemma put_frame_only:
  assumes "put_frame s t data len w = Some w'"
  shows "sends_only w w' \<and> peers w' = peers w"
proof -
  from assms have "unat len \<le> length data"
    by (auto simp: put_frame_def mem_read_def split: Option.bind_splits if_splits)
  with put_frame_result [OF this, of s t w] assms show ?thesis
    by (metis option.inject sends_only_wire)
qed

lemma sends_only_ctx:
  assumes "i < length (peers w)" and "enc_ctx (peers w ! i) = Ptr c"
  shows "sends_only w (w\<lparr>peers := (peers w)[i := (peers w ! i)\<lparr>enc_ctx := Ptr c'\<rparr>]\<rparr>)"
proof -
  have core: "peer_core ((peers w ! i)\<lparr>enc_ctx := Ptr c'\<rparr>) = peer_core (peers w ! i)"
    using assms(2) by (simp add: peer_core_def)
  then have "map peer_core ((peers w)[i := (peers w ! i)\<lparr>enc_ctx := Ptr c'\<rparr>]) = map peer_core (peers w)"
    using assms(1) by (simp add: map_update list_update_same_conv)
  then show ?thesis
    unfolding sends_only_def by (auto intro!: exI [of _ "send_rets w"] exI [of _ "wire w"])
qed

lemma send_only:
  assumes "send_data_to_peer ssl t data len enc i w = Some w'"
  shows "sends_only w w'"
proof -
  let ?p = "peers w ! i"
  from assms have i: "i < length (peers w)" by (simp add: send_data_to_peer_def split: if_splits)
  show ?thesis
  proof (cases "alive ?p \<and> enc \<and> authenticated ?p")
    case False
    with assms i have "w' = w \<or> put_frame (sockfd ?p) t data len w = Some w'"
      by (cases "alive ?p"; cases enc) (simp_all add: send_data_to_peer_def)
    then show ?thesis by (auto dest: put_frame_only)
  next
    case True
    let ?buf = "replicate FRAME_PAYLOAD_MAXSIZE 0"
    from True assms i obtain c where c: "enc_ctx ?p = Ptr c"
      by (cases "enc_ctx ?p") (simp_all add: send_data_to_peer_def)
    with True assms i have "aes_encrypt ssl c data len ?buf \<noteq> None"
      by (cases "aes_encrypt ssl c data len ?buf") (simp_all add: send_data_to_peer_def Let_def)
    then obtain r c' d where a: "aes_encrypt ssl c data len ?buf = Some (r, c', d)" by auto
    define w1 where "w1 = w\<lparr>peers := (peers w)[i := ?p\<lparr>enc_ctx := Ptr c'\<rparr>]\<rparr>"
    have "sends_only w w1" using sends_only_ctx [OF i c] by (simp add: w1_def)
    moreover have "w' = w1 \<or> put_frame (sockfd ?p) t d (of_int r) w1 = Some w'"
      using assms i True c a by (simp add: send_data_to_peer_def Let_def w1_def split: if_splits)
    then have "sends_only w1 w'" by (auto dest: put_frame_only)
    ultimately show ?thesis by (rule sends_only_trans)
  qed
qed

text \<open>When a send is defined: the data is there, and an authenticated peer has its context and a packet
  that still fits the buffer once padded.\<close>

lemma send_defined:
  assumes "i < length (peers w)" and "unat len \<le> length data"
    and "enc \<Longrightarrow> cbc_sizes ssl \<and> cbc_padded (unat len) \<le> FRAME_PAYLOAD_MAXSIZE \<and>
           (authenticated (peers w ! i) \<longrightarrow> (\<exists>c. enc_ctx (peers w ! i) = Ptr c))"
  shows "\<exists>w'. send_data_to_peer ssl t data len enc i w = Some w' \<and> sends_only w w'"
proof -
  let ?p = "peers w ! i"
  have "\<exists>w'. send_data_to_peer ssl t data len enc i w = Some w'"
  proof (cases "alive ?p \<and> enc \<and> authenticated ?p")
    case False
    then show ?thesis
      using assms(1) put_frame_result [OF assms(2), of "sockfd ?p" t w]
      by (auto simp: send_data_to_peer_def Let_def)
  next
    case True
    with assms(3) obtain c where c: "enc_ctx ?p = Ptr c" and law: "cbc_sizes ssl"
      and room: "cbc_padded (unat len) \<le> FRAME_PAYLOAD_MAXSIZE" by auto
    have "16 * (unat len div 16 + 1) \<le> 2048" using room by (simp add: cbc_padded_def frame_sizes)
    then have small: "unat len < 2 ^ 31" by simp
    have "cbc_padded (unat len) \<le> length (replicate FRAME_PAYLOAD_MAXSIZE (0 :: byte))" using room by simp
    from aes_encrypt_safe [OF law small assms(2) this, of c] obtain r c' buf where
      e: "aes_encrypt ssl c data len (replicate FRAME_PAYLOAD_MAXSIZE 0) = Some (r, c', buf)"
        "length buf = FRAME_PAYLOAD_MAXSIZE" "r = -1 \<or> r = int (cbc_padded (unat len))"
      by auto
    have "unat (of_int r :: u32) \<le> length buf" if "r \<noteq> -1"
      using that e(2,3) room by (simp add: unat_of_nat frame_sizes)
    then have "\<exists>w'. r \<noteq> -1 \<longrightarrow> put_frame (sockfd ?p) t buf (of_int r) w1 = Some w'" for w1
      using put_frame_result [of "of_int r" buf "sockfd ?p" t w1] by blast
    with True assms(1) c e show ?thesis
      by (auto simp: send_data_to_peer_def Let_def)
  qed
  then show ?thesis using send_only by blast
qed

section \<open>What reaches the sockets\<close>

text \<open>
  \<open>frame_for\<close> is the frame a peer is sent for the plain bytes \<open>d\<close>: nothing unless it is connected and
  authenticated. \<open>can_encrypt\<close>: its context exists and encrypts \<open>d\<close> into a payload of legal size.
\<close>

definition frame_for ::
  "('k, 'c) openssl \<Rightarrow> byte \<Rightarrow> byte list \<Rightarrow> ('k, 'c, 'a) peer_state_scheme \<Rightarrow> nat \<Rightarrow> byte list" where
  "frame_for ssl t d w i =
     (let p = peers w ! i
      in if alive p \<and> authenticated p then
           (case Option.bind (cderef (enc_ctx p)) (\<lambda>c. evp_enc_run ssl c d) of
              None \<Rightarrow> []
            | Some (c', ct) \<Rightarrow> frame_bytes (frame_header (host_le w)) (Frame t ct))
         else [])"

definition can_encrypt :: "('k, 'c) openssl \<Rightarrow> byte list \<Rightarrow> ('k, 'c) peer \<Rightarrow> bool" where
  "can_encrypt ssl d p \<longleftrightarrow>
     (alive p \<and> authenticated p \<longrightarrow>
        (\<exists>c c' ct. enc_ctx p = Ptr c \<and> evp_enc_run ssl c d = Some (c', ct) \<and>
                   length ct \<le> FRAME_PAYLOAD_MAXSIZE))"

lemma send_encrypted:
  assumes i: "i < length (peers w)" and len: "unat len \<le> length data" "unat len < 2 ^ 31"
    and ok: "can_encrypt ssl (take (unat len) data) (peers w ! i)" and good: "send_good w"
  shows "\<exists>w'. send_data_to_peer ssl t data len True i w = Some w' \<and> sends_only w w' \<and> send_good w' \<and>
           wire w' = (wire w)(sockfd (peers w ! i) :=
             wire w (sockfd (peers w ! i)) @ frame_for ssl t (take (unat len) data) w i) \<and>
           (\<forall>j. j \<noteq> i \<longrightarrow> peers w' ! j = peers w ! j)"
proof -
  let ?p = "peers w ! i" and ?d = "take (unat len) data"
  show ?thesis
  proof (cases "alive ?p \<and> authenticated ?p")
    case False
    then show ?thesis
      using i good by (auto simp: send_data_to_peer_def frame_for_def Let_def)
  next
    case True
    with ok obtain c c' ct where c: "enc_ctx ?p = Ptr c" and run: "evp_enc_run ssl c ?d = Some (c', ct)"
      and fits: "length ct \<le> FRAME_PAYLOAD_MAXSIZE" by (auto simp: can_encrypt_def)
    let ?buf = "ct @ drop (length ct) (replicate FRAME_PAYLOAD_MAXSIZE 0)"
    have enc: "aes_encrypt ssl c data len (replicate FRAME_PAYLOAD_MAXSIZE 0) =
        Some (int (length ct), c', ?buf)"
      using aes_encrypt_run [OF run len(2,1), of "replicate FRAME_PAYLOAD_MAXSIZE 0"] fits by simp
    define w1 where "w1 = w\<lparr>peers := (peers w)[i := ?p\<lparr>enc_ctx := Ptr c'\<rparr>]\<rparr>"
    define n where "n = (of_nat (length ct) :: u32)"
    have n: "unat n = length ct" using fits by (simp add: n_def unat_of_nat frame_sizes)
    have g1: "send_good w1" "wire w1 = wire w" "host_le w1 = host_le w"
      using good by (simp_all add: w1_def send_good_def)
    obtain rs where put: "put_frame (sockfd ?p) t ?buf n w1 =
        Some (w1\<lparr>send_rets := rs, wire := (wire w)(sockfd ?p := wire w (sockfd ?p) @
                  frame_header (host_le w) t n @ ct)\<rparr>)" and rs: "list_all (\<lambda>r. 0 < r) rs"
      using put_frame_result [of n ?buf "sockfd ?p" t w1] n g1 by auto
    let ?w' = "w1\<lparr>send_rets := rs, wire := (wire w)(sockfd ?p := wire w (sockfd ?p) @
                  frame_header (host_le w) t n @ ct)\<rparr>"
    have "send_data_to_peer ssl t data len True i w = Some ?w'"
      using i True c enc put by (simp add: send_data_to_peer_def Let_def w1_def n_def)
    moreover from this have "sends_only w ?w'" by (rule send_only)
    moreover have "frame_for ssl t ?d w i = frame_header (host_le w) t n @ ct"
      using True c run by (simp add: frame_for_def frame_bytes_def n_def)
    moreover have "send_good ?w'" using rs by (simp add: send_good_def)
    ultimately show ?thesis by (intro exI [of _ ?w']) (simp add: w1_def)
  qed
qed

lemma frames_same:
  assumes "host_le w1 = host_le w" and "\<And>j. j \<in> set js \<Longrightarrow> peers w1 ! j = peers w ! j"
  shows "map (\<lambda>i. if Some i \<noteq> ex \<and> sockfd (peers w1 ! i) = fd then frame_for ssl t d w1 i else []) js =
         map (\<lambda>i. if Some i \<noteq> ex \<and> sockfd (peers w ! i) = fd then frame_for ssl t d w i else []) js"
  using assms by (intro map_cong) (auto simp: frame_for_def Let_def split: option.split)

lemma broadcast_from_wire:
  assumes len: "unat len \<le> length data" "unat len < 2 ^ 31"
  shows "distinct is \<Longrightarrow> set is \<subseteq> {..<length (peers w)} \<Longrightarrow> send_good w \<Longrightarrow>
           (\<And>i. i \<in> set is \<Longrightarrow> Some i \<noteq> ex \<Longrightarrow> can_encrypt ssl (take (unat len) data) (peers w ! i)) \<Longrightarrow>
           \<exists>w'. broadcast_from ssl t data len True ex is w = Some w' \<and> sends_only w w' \<and> send_good w' \<and>
             (\<forall>fd. wire w' fd = wire w fd @
                concat (map (\<lambda>i. if Some i \<noteq> ex \<and> sockfd (peers w ! i) = fd
                                 then frame_for ssl t (take (unat len) data) w i else []) is))"
proof (induction "is" arbitrary: w)
  case Nil
  then show ?case by simp
next
  case (Cons i js)
  let ?d = "take (unat len) data"
  show ?case
  proof (cases "Some i \<noteq> ex \<and> alive (peers w ! i)")
    case False
    then have none: "Some i \<noteq> ex \<Longrightarrow> frame_for ssl t ?d w i = []" by (simp add: frame_for_def)
    have "broadcast_from ssl t data len True ex (i # js) w = broadcast_from ssl t data len True ex js w"
      using False by auto
    moreover have "(if Some i \<noteq> ex \<and> sockfd (peers w ! i) = fd then frame_for ssl t ?d w i else []) = []" for fd
      using none by simp
    ultimately show ?thesis
      using Cons.IH [of w] Cons.prems by (simp only: list.map concat.simps append_Nil) simp
  next
    case True
    from Cons.prems have i: "i < length (peers w)" by simp
    from True Cons.prems(4) have ci: "can_encrypt ssl ?d (peers w ! i)" by simp
    from send_encrypted [OF i len ci Cons.prems(3), of t] obtain w1 where
      s: "send_data_to_peer ssl t data len True i w = Some w1" "sends_only w w1" "send_good w1"
        "wire w1 = (wire w)(sockfd (peers w ! i) := wire w (sockfd (peers w ! i)) @ frame_for ssl t ?d w i)"
        "\<And>j. j \<noteq> i \<Longrightarrow> peers w1 ! j = peers w ! j"
      by blast
    have le: "host_le w1 = host_le w" and np: "length (peers w1) = length (peers w)"
      using sends_only_fields [OF s(2)] by simp_all
    have same: "peers w1 ! j = peers w ! j" if "j \<in> set js" for j
      using that Cons.prems(1) s(5) [of j] by auto
    have "\<exists>w'. broadcast_from ssl t data len True ex js w1 = Some w' \<and> sends_only w1 w' \<and> send_good w' \<and>
             (\<forall>fd. wire w' fd = wire w1 fd @
                concat (map (\<lambda>i. if Some i \<noteq> ex \<and> sockfd (peers w1 ! i) = fd
                                 then frame_for ssl t ?d w1 i else []) js))"
      using Cons.prems np same s(3) by (intro Cons.IH) auto
    then obtain w' where w': "broadcast_from ssl t data len True ex js w1 = Some w'" "sends_only w1 w'"
        "send_good w'" "\<And>fd. wire w' fd = wire w1 fd @
                concat (map (\<lambda>i. if Some i \<noteq> ex \<and> sockfd (peers w1 ! i) = fd
                                 then frame_for ssl t ?d w1 i else []) js)"
      by blast
    have "broadcast_from ssl t data len True ex (i # js) w = Some w'"
      using True s(1) w'(1) by simp
    moreover have "sends_only w w'" using s(2) w'(2) by (rule sends_only_trans)
    ultimately show ?thesis
      using w'(3,4) True frames_same [OF le same] s(4) by (intro exI [of _ w']) simp
  qed
qed

lemma broadcast_from_only:
  "broadcast_from ssl t data len enc ex is w = Some w' \<Longrightarrow> sends_only w w'"
proof (induction "is" arbitrary: w)
  case Nil
  then show ?case by simp
next
  case (Cons i js)
  then show ?case
    by (auto split: if_splits Option.bind_splits intro: sends_only_trans send_only)
qed

lemma broadcast_from_defined:
  assumes "unat len \<le> length data"
    and "enc \<Longrightarrow> cbc_sizes ssl \<and> cbc_padded (unat len) \<le> FRAME_PAYLOAD_MAXSIZE"
  shows "set is \<subseteq> {..<length (peers w)} \<Longrightarrow>
     (\<And>i. i < length (peers w) \<Longrightarrow> enc \<Longrightarrow> authenticated (peers w ! i) \<Longrightarrow> \<exists>c. enc_ctx (peers w ! i) = Ptr c) \<Longrightarrow>
     \<exists>w'. broadcast_from ssl t data len enc ex is w = Some w' \<and> sends_only w w'"
proof (induction "is" arbitrary: w)
  case Nil
  then show ?case by simp
next
  case (Cons i js)
  show ?case
  proof (cases "Some i \<noteq> ex \<and> alive (peers w ! i)")
    case False
    then have "broadcast_from ssl t data len enc ex (i # js) w = broadcast_from ssl t data len enc ex js w"
      by auto
    then show ?thesis using Cons by simp
  next
    case True
    have "\<exists>w1. send_data_to_peer ssl t data len enc i w = Some w1 \<and> sends_only w w1"
      using assms Cons.prems by (intro send_defined) auto
    then obtain w1 where s: "send_data_to_peer ssl t data len enc i w = Some w1" "sends_only w w1" by blast
    have "\<exists>c. enc_ctx (peers w1 ! j) = Ptr c"
      if "j < length (peers w1)" enc "authenticated (peers w1 ! j)" for j
      using that Cons.prems(2) [of j] peer_core_eqD [OF sends_only_nth [OF s(2), of j]]
        sends_only_fields(1) [OF s(2)] by simp
    then have "\<exists>w'. broadcast_from ssl t data len enc ex js w1 = Some w' \<and> sends_only w1 w'"
      using Cons.prems(1) sends_only_fields(1) [OF s(2)] by (intro Cons.IH) auto
    with True s show ?thesis by (auto intro: sends_only_trans)
  qed
qed

text \<open>The reader of a connection against the abstract frame reader.\<close>

lemma receive_frame_spec:
  assumes "length (rx_buf r) = FRAME_MAXSIZE" and "chunks_ok (rx_in r)"
  shows "\<exists>ret r'. receive_frame le r = Some (ret, r') \<and>
           length (rx_buf r') = FRAME_MAXSIZE \<and> chunks_ok (rx_in r') \<and>
           (case decode_frame_header le (concat (rx_in r)) of
              None \<Rightarrow> ret = -1
            | Some (t, n) \<Rightarrow>
                if FRAME_PAYLOAD_MAXSIZE < unat n then ret = 0 \<and> rx_type r' = t \<and> rx_len r' = n
                else
                  (case next_frame (decode_frame_header le) (concat (rx_in r)) of
                     None \<Rightarrow> ret = -1
                   | Some (f, rest) \<Rightarrow>
                       ret = 5 + int (length (frame_data f)) \<and> rx_type r' = frame_type f \<and>
                       unat (rx_len r') = length (frame_data f) \<and>
                       take (length (frame_data f)) (drop 5 (rx_buf r')) = frame_data f \<and>
                       concat (rx_in r') = rest))"
proof -
  obtain ret r' bs where r: "receive_frame le r = Some (ret, r')" and s: "frame_step le r ret r' bs"
    using receive_frame_result [OF assms(1)] by blast
  from s have len: "length (rx_buf r') = FRAME_MAXSIZE" and cat: "concat (rx_in r) = bs @ concat (rx_in r')"
    and ch: "chunks_ok (rx_in r')" "ret = -1 \<Longrightarrow> rx_in r' = []"
    using assms(2) by (simp_all add: frame_step_def)
  have short: "decode_frame_header le bs = None" if "length bs < 5"
    using that by (cases bs) (auto simp: decode_frame_header_def read_uint32_def)
  have dec: "decode_frame_header le (bs @ xs) = decode_frame_header le bs" if "5 \<le> length bs" for xs
    using that decode_frame_header_take [of bs le] decode_frame_header_take [of "bs @ xs" le] by simp
  show ?thesis
  proof (cases "ret = -1")
    case True
    with s cat ch short show ?thesis
      by (intro exI [of _ ret] exI [of _ r'])
        (auto simp: r frame_step_def next_frame_def split: option.splits)
  next
    case False
    with s have d: "decode_frame_header le bs = Some (rx_type r', rx_len r')" "5 \<le> length bs"
      and big: "\<not> unat (rx_len r') \<le> FRAME_PAYLOAD_MAXSIZE \<Longrightarrow> ret = 0"
      by (simp_all add: frame_step_def)
    have res: "ret = 5 + int (unat (rx_len r'))" "length bs = 5 + unat (rx_len r')"
        "take (length bs) (rx_buf r') = bs" if "unat (rx_len r') \<le> FRAME_PAYLOAD_MAXSIZE"
      using s False that by (auto simp: frame_step_def)
    have pay: "take n (drop 5 (rx_buf r')) = drop 5 bs"
      if "take (length bs) (rx_buf r') = bs" "length bs = 5 + n" for n
    proof -
      have "drop 5 bs = drop 5 (take (length bs) (rx_buf r'))" using that(1) by simp
      then show ?thesis using that(2) by (simp add: drop_take)
    qed
    show ?thesis
      using d res big len ch(1) cat dec [OF d(2)] pay
      by (intro exI [of _ ret] exI [of _ r']) (auto simp: r next_frame_def)
  qed
qed

lemma concat_map_single:
  assumes "distinct xs" and "k \<in> set xs" and "\<And>j. j \<in> set xs \<Longrightarrow> j \<noteq> k \<Longrightarrow> g j = []"
  shows "concat (map g xs) = g k"
  using assms
proof (induction xs)
  case Nil
  then show ?case by simp
next
  case (Cons x xs)
  show ?case
  proof (cases "x = k")
    case True
    with Cons.prems have "\<forall>j \<in> set xs. g j = []" by auto
    with True show ?thesis by simp
  next
    case False
    with Cons show ?thesis by simp
  qed
qed

lemma broadcast_wire:
  assumes "unat len \<le> length data" and "unat len < 2 ^ 31" and "send_good w"
    and "\<And>i. i < length (peers w) \<Longrightarrow> Some i \<noteq> ex \<Longrightarrow>
           can_encrypt ssl (take (unat len) data) (peers w ! i)"
    and inj: "\<And>i j. i < length (peers w) \<Longrightarrow> j < length (peers w) \<Longrightarrow> alive (peers w ! i) \<Longrightarrow>
           alive (peers w ! j) \<Longrightarrow> sockfd (peers w ! i) = sockfd (peers w ! j) \<Longrightarrow> i = j"
  shows "\<exists>w'. broadcast_data_to_peers ssl t data len True ex w = Some w' \<and> sends_only w w' \<and>
           (\<forall>i < length (peers w). alive (peers w ! i) \<longrightarrow>
              wire w' (sockfd (peers w ! i)) = wire w (sockfd (peers w ! i)) @
                (if Some i \<noteq> ex then frame_for ssl t (take (unat len) data) w i else [])) \<and>
           (\<forall>fd. (\<forall>p \<in> set (peers w). alive p \<longrightarrow> sockfd p \<noteq> fd) \<longrightarrow> wire w' fd = wire w fd)"
proof -
  let ?d = "take (unat len) data" and ?is = "[0..<length (peers w)]"
  let ?g = "\<lambda>fd i. if Some i \<noteq> ex \<and> sockfd (peers w ! i) = fd then frame_for ssl t ?d w i else []"
  have dead: "\<not> alive (peers w ! j) \<Longrightarrow> frame_for ssl t ?d w j = []" for j
    by (simp add: frame_for_def)
  obtain w' where w': "broadcast_from ssl t data len True ex ?is w = Some w'" "sends_only w w'"
      "\<And>fd. wire w' fd = wire w fd @ concat (map (?g fd) ?is)"
    using broadcast_from_wire [OF assms(1,2), of ?is w ex ssl t] assms(3,4)
    by (auto simp: atLeast0LessThan)
  have one: "concat (map (?g (sockfd (peers w ! i))) ?is) = ?g (sockfd (peers w ! i)) i"
    if "i < length (peers w)" "alive (peers w ! i)" for i
    using that inj [of i] dead by (intro concat_map_single) (auto, metis)
  have none: "concat (map (?g fd) ?is) = []" if "\<forall>p \<in> set (peers w). alive p \<longrightarrow> sockfd p \<noteq> fd" for fd
    using that dead by (auto simp: all_set_conv_all_nth)
  show ?thesis
    using w' one none by (intro exI [of _ w']) (auto simp: broadcast_data_to_peers_def get_peer_list_def)
qed

section \<open>Properties\<close>

text \<open>C13. \<open>receive_frame\<close> implements the abstract frame reader \<open>next_frame\<close> on the concatenation of what
  the kernel delivers, so its result does not depend on how TCP cut the stream. A whole frame of
  legal size is handed out exactly, with the type, the length, the payload in the buffer after the
  header and the rest of the stream left for the next call; an incomplete frame is an error; a
  header that announces more than 2048 bytes answers 0. It never leaves the 2053-byte buffer.\<close>

theorem receive_frame_refines:
  assumes "length (rx_buf r) = FRAME_MAXSIZE" and "chunks_ok (rx_in r)"
  shows "\<exists>ret r'. receive_frame le r = Some (ret, r') \<and>
           length (rx_buf r') = FRAME_MAXSIZE \<and> chunks_ok (rx_in r') \<and>
           (case decode_frame_header le (concat (rx_in r)) of
              None \<Rightarrow> ret = -1
            | Some (t, n) \<Rightarrow>
                if FRAME_PAYLOAD_MAXSIZE < unat n then ret = 0 \<and> rx_type r' = t \<and> rx_len r' = n
                else
                  (case next_frame (decode_frame_header le) (concat (rx_in r)) of
                     None \<Rightarrow> ret = -1
                   | Some (f, rest) \<Rightarrow>
                       ret = 5 + int (length (frame_data f)) \<and> rx_type r' = frame_type f \<and>
                       unat (rx_len r') = length (frame_data f) \<and>
                       take (length (frame_data f)) (drop 5 (rx_buf r')) = frame_data f \<and>
                       concat (rx_in r') = rest))"
  using assms by (rule receive_frame_spec)

theorem receive_frame_refines_witness:
  "\<exists>r'. receive_frame True (\<lparr>rx_buf = replicate 2053 0, rx_type = 0, rx_len = 0,
            rx_in = [[8, 2], [0, 0], [0, 7], [9, 1]]\<rparr>) = Some (7, r') \<and>
     take 2 (drop 5 (rx_buf r')) = [7, 9] \<and> concat (rx_in r') = [1]"
proof -
  let ?r = "\<lparr>rx_buf = replicate 2053 0, rx_type = 0, rx_len = 0, rx_in = [[8, 2], [0, 0], [0, 7], [9, 1 :: byte]]\<rparr>"
  have b: "length (rx_buf ?r) = FRAME_MAXSIZE" "chunks_ok (rx_in ?r)" by (simp_all add: frame_sizes)
  have d: "decode_frame_header True (concat (rx_in ?r)) = Some (8, 2)"
    by (simp add: decode_frame_header_def read_uint32_def join32_def)
  have u: "unat (2 :: u32) = 2" by simp
  show ?thesis
    using receive_frame_refines [OF b, of True] d
    by (auto simp: next_frame_def frame_sizes) (simp add: numeral_2_eq_2)
qed

text \<open>C12. A frame sent to a connected peer arrives: when no \<open>send\<close> fails, the bytes put on the socket by
  \<open>send_data_to_peer\<close>, however the kernel split the sends, and delivered in whatever chunks, are read
  back by \<open>receive_frame\<close> on a host of the same byte order as the same type, length and payload.\<close>

theorem send_receive_roundtrip:
  assumes "i < length (peers w)" and "alive (peers w ! i)" and "send_good w"
    and "unat len \<le> length data" and "unat len \<le> FRAME_PAYLOAD_MAXSIZE"
    and "send_data_to_peer ssl t data len False i w = Some w'"
    and "concat (rx_in r) = drop (length (wire w (sockfd (peers w ! i)))) (wire w' (sockfd (peers w ! i)))"
    and "length (rx_buf r) = FRAME_MAXSIZE" and "chunks_ok (rx_in r)"
  shows "\<exists>r'. receive_frame (host_le w) r = Some (5 + int (unat len), r') \<and> rx_type r' = t \<and> rx_len r' = len \<and>
           take (unat len) (drop 5 (rx_buf r')) = take (unat len) data \<and> rx_in r' = []"
proof -
  let ?s = "sockfd (peers w ! i)" and ?d = "take (unat len) data"
  have "put_frame ?s t data len w = Some w'"
    using assms(1,2,6) by (simp add: send_data_to_peer_def)
  with put_frame_result [OF assms(4), of ?s t w] assms(3)
  have "wire w' ?s = wire w ?s @ frame_header (host_le w) t len @ ?d" by auto
  with assms(7) have cat: "concat (rx_in r) = frame_header (host_le w) t len @ ?d" by simp
  have dec: "decode_frame_header (host_le w) (concat (rx_in r)) = Some (t, len)" by (simp add: cat)
  have nxt: "next_frame (decode_frame_header (host_le w)) (concat (rx_in r)) = Some (Frame t ?d, [])"
    using assms(4) by (simp add: next_frame_def cat)
  have ld: "length ?d = unat len" using assms(4) by simp
  have "rx_in r' = []" if "concat (rx_in r') = []" "chunks_ok (rx_in r')" for r'
    using that by (cases "rx_in r'") auto
  moreover have "rx_len r' = len" if "unat (rx_len r') = unat len" for r'
    using that by (simp only: word_unat_eq_iff)
  moreover obtain r' where "receive_frame (host_le w) r = Some (5 + int (unat len), r')" "rx_type r' = t"
      "unat (rx_len r') = unat len" "take (unat len) (drop 5 (rx_buf r')) = ?d"
      "concat (rx_in r') = []" "chunks_ok (rx_in r')"
    using receive_frame_spec [OF assms(8,9), of "host_le w"] dec nxt ld assms(5) by auto
  ultimately show ?thesis by blast
qed

theorem send_receive_roundtrip_witness:
  "\<exists>w' r'. send_data_to_peer toy_ssl 8 [7, 9, 1] 2 False 0
             (peer_state_init\<lparr>peers := [initialize_peer\<lparr>alive := True, sockfd := 4\<rparr>], send_rets := [3, 2, 1]\<rparr>)
             = Some w' \<and>
           receive_frame True \<lparr>rx_buf = replicate 2053 0, rx_type = 0, rx_len = 0,
             rx_in = [wire w' 4]\<rparr> = Some (7, r') \<and> rx_type r' = 8 \<and> take 2 (drop 5 (rx_buf r')) = [7, 9]"
proof -
  let ?w = "(peer_state_init :: (bool, byte list) peer_state)
    \<lparr>peers := [initialize_peer\<lparr>alive := True, sockfd := 4\<rparr>], send_rets := [3, 2, 1]\<rparr>"
  have i: "0 < length (peers ?w)" "alive (peers ?w ! 0)" "send_good ?w"
    by (simp_all add: send_good_def)
  have f: "sockfd (peers ?w ! 0) = 4" "wire ?w 4 = []" "host_le ?w"
    by (simp_all add: peer_state_init_def key_init_def iface_init_def cfg_init_def log_init_def os_init_def
        os.defs log_state.defs cfg_state.defs iface_state.defs key_state.defs)
  have u: "unat (2 :: u32) = 2" by simp
  have l: "unat (2 :: u32) \<le> length [7, 9, 1 :: byte]" "unat (2 :: u32) \<le> FRAME_PAYLOAD_MAXSIZE"
    unfolding u by (simp_all add: frame_sizes)
  have "\<exists>w'. send_data_to_peer toy_ssl 8 [7, 9, 1] 2 False 0 ?w = Some w'"
    using send_defined [OF i(1) l(1), of False toy_ssl 8] by auto
  then obtain w' where s: "send_data_to_peer toy_ssl 8 [7, 9, 1] 2 False 0 ?w = Some w'" ..
  let ?r = "\<lparr>rx_buf = replicate 2053 0, rx_type = 0, rx_len = 0, rx_in = [wire w' 4]\<rparr>"
  have "put_frame 4 8 [7, 9, 1] 2 ?w = Some w'" using s by (simp add: send_data_to_peer_def)
  with put_frame_result [OF l(1), of 4 8 ?w] i(3) have "wire w' 4 \<noteq> []" by (auto simp: frame_header_def)
  then have r: "concat (rx_in ?r) = drop (length (wire ?w (sockfd (peers ?w ! 0)))) (wire w' (sockfd (peers ?w ! 0)))"
    "length (rx_buf ?r) = FRAME_MAXSIZE" "chunks_ok (rx_in ?r)"
    using f by (simp_all add: frame_sizes)
  have "\<exists>r'. receive_frame (host_le ?w) ?r = Some (5 + int (unat (2 :: u32)), r') \<and> rx_type r' = 8 \<and>
      take (unat (2 :: u32)) (drop 5 (rx_buf r')) = take (unat (2 :: u32)) [7, 9, 1]"
    using send_receive_roundtrip [OF i l s r] by blast
  then show ?thesis using s f(3) unfolding u by (intro exI [of _ w']) auto
qed

text \<open>C34. Sending an encrypted packet overruns the 2048-byte cipher buffer exactly when the plain packet has
  2048 bytes or more, which a single read of the TUN/TAP device can deliver; every shorter packet is
  sent without leaving any buffer.\<close>

theorem send_overflow_exact:
  assumes "i < length (peers w)" and "alive (peers w ! i)" and "authenticated (peers w ! i)"
    and "enc_ctx (peers w ! i) = Ptr c" and "cbc_sizes ssl"
    and "evp_enc_run ssl c (take (unat len) data) = Some (c', ct)"
    and "unat len \<le> length data" and "unat len < 2 ^ 31"
  shows "send_data_to_peer ssl t data len True i w = None \<longleftrightarrow> FRAME_PAYLOAD_MAXSIZE \<le> unat len"
proof -
  have ct: "length ct = cbc_padded (unat len)"
    using enc_run_length [OF assms(5,6)] assms(7) by simp
  have fits: "cbc_padded (unat len) \<le> FRAME_PAYLOAD_MAXSIZE \<longleftrightarrow> \<not> FRAME_PAYLOAD_MAXSIZE \<le> unat len"
    by (auto simp: cbc_padded_def frame_sizes)
  show ?thesis
  proof (cases "cbc_padded (unat len) \<le> FRAME_PAYLOAD_MAXSIZE")
    case True
    with assms(3-5) fits show ?thesis
      using send_defined [OF assms(1,7), of True ssl t] by auto
  next
    case False
    have "aes_encrypt ssl c data len (replicate FRAME_PAYLOAD_MAXSIZE 0) = None"
      using aes_encrypt_run [OF assms(6,8,7)] False ct by simp
    with assms(1-4) fits False show ?thesis by (simp add: send_data_to_peer_def)
  qed
qed

theorem send_overflow_exact_witness:
  "send_data_to_peer toy_ssl 8 (replicate 2048 0) 2048 True 0
     (peer_state_init\<lparr>peers := [initialize_peer\<lparr>alive := True, authenticated := True, enc_ctx := Ptr []\<rparr>]\<rparr>)
   = None"
proof -
  let ?w = "(peer_state_init :: (bool, byte list) peer_state)
    \<lparr>peers := [initialize_peer\<lparr>alive := True, authenticated := True, enc_ctx := Ptr []\<rparr>]\<rparr>"
  have u: "unat (2048 :: u32) = 2048" by simp
  show ?thesis
    using send_overflow_exact [of 0 ?w, OF _ _ _ _ toy_cbc_sizes toy_enc_run, of _ 2048 "replicate 2048 0" 8]
    by (simp add: u frame_sizes)
qed

text \<open>C15. A broadcast of an encrypted packet reaches exactly the right peers: every connected and
  authenticated peer but the excluded one gets one frame with its own encryption of the packet; a
  peer that is not authenticated, not connected or excluded gets no byte, and nothing else of any
  peer changes but the state of the encryption contexts.\<close>

theorem broadcast_exact:
  assumes "unat len \<le> length data" and "unat len < 2 ^ 31" and "send_good w"
    and "\<forall>i < length (peers w). Some i \<noteq> ex \<longrightarrow> can_encrypt ssl (take (unat len) data) (peers w ! i)"
    and "\<forall>i < length (peers w). \<forall>j < length (peers w). alive (peers w ! i) \<and> alive (peers w ! j) \<and>
           sockfd (peers w ! i) = sockfd (peers w ! j) \<longrightarrow> i = j"
  shows "\<exists>w'. broadcast_data_to_peers ssl t data len True ex w = Some w' \<and> sends_only w w' \<and>
           (\<forall>i < length (peers w). alive (peers w ! i) \<longrightarrow>
              (if authenticated (peers w ! i) \<and> Some i \<noteq> ex
               then \<exists>c c' ct. enc_ctx (peers w ! i) = Ptr c \<and>
                      evp_enc_run ssl c (take (unat len) data) = Some (c', ct) \<and>
                      wire w' (sockfd (peers w ! i)) = wire w (sockfd (peers w ! i)) @
                        frame_header (host_le w) t (of_nat (length ct)) @ ct
               else wire w' (sockfd (peers w ! i)) = wire w (sockfd (peers w ! i)))) \<and>
           (\<forall>fd. (\<forall>p \<in> set (peers w). alive p \<longrightarrow> sockfd p \<noteq> fd) \<longrightarrow> wire w' fd = wire w fd)"
proof -
  let ?d = "take (unat len) data"
  have frames: "if authenticated (peers w ! i) \<and> Some i \<noteq> ex
      then \<exists>c c' ct. enc_ctx (peers w ! i) = Ptr c \<and> evp_enc_run ssl c ?d = Some (c', ct) \<and>
             frame_for ssl t ?d w i = frame_header (host_le w) t (of_nat (length ct)) @ ct
      else Some i = ex \<or> frame_for ssl t ?d w i = []"
    if "i < length (peers w)" "alive (peers w ! i)" for i
    using that assms(4) by (auto simp: frame_for_def can_encrypt_def frame_bytes_def)
  obtain w' where w': "broadcast_data_to_peers ssl t data len True ex w = Some w'" "sends_only w w'"
      "\<forall>i < length (peers w). alive (peers w ! i) \<longrightarrow>
              wire w' (sockfd (peers w ! i)) = wire w (sockfd (peers w ! i)) @
                (if Some i \<noteq> ex then frame_for ssl t ?d w i else [])"
      "\<forall>fd. (\<forall>p \<in> set (peers w). alive p \<longrightarrow> sockfd p \<noteq> fd) \<longrightarrow> wire w' fd = wire w fd"
    using broadcast_wire [OF assms(1-3), of ex ssl t] assms(4,5) by blast
  show ?thesis
  proof (intro exI [of _ w'] conjI allI impI)
    fix i assume i: "i < length (peers w)" "alive (peers w ! i)"
    show "if authenticated (peers w ! i) \<and> Some i \<noteq> ex
               then \<exists>c c' ct. enc_ctx (peers w ! i) = Ptr c \<and>
                      evp_enc_run ssl c ?d = Some (c', ct) \<and>
                      wire w' (sockfd (peers w ! i)) = wire w (sockfd (peers w ! i)) @
                        frame_header (host_le w) t (of_nat (length ct)) @ ct
               else wire w' (sockfd (peers w ! i)) = wire w (sockfd (peers w ! i))"
      using frames [OF i] w'(3) i by (auto split: if_splits)
  qed (use w' in auto)
qed

theorem broadcast_exact_witness:
  "\<exists>w' ct. broadcast_data_to_peers toy_ssl 8 [1, 2] 2 True (Some 0)
         (peer_state_init\<lparr>peers :=
            [initialize_peer\<lparr>alive := True, authenticated := True, enc_ctx := Ptr [], sockfd := 3\<rparr>,
             initialize_peer\<lparr>alive := True, authenticated := True, enc_ctx := Ptr [], sockfd := 4\<rparr>]\<rparr>) = Some w' \<and>
       wire w' 3 = [] \<and> wire w' 4 = frame_header True 8 (of_nat (length ct)) @ ct"
proof -
  let ?w = "(peer_state_init :: (bool, byte list) peer_state)\<lparr>peers :=
            [initialize_peer\<lparr>alive := True, authenticated := True, enc_ctx := Ptr [], sockfd := 3\<rparr>,
             initialize_peer\<lparr>alive := True, authenticated := True, enc_ctx := Ptr [], sockfd := 4\<rparr>]\<rparr>"
  have f: "wire ?w = (\<lambda>_. [])" "host_le ?w" "send_rets ?w = []"
    by (simp_all add: peer_state_init_def key_init_def iface_init_def cfg_init_def log_init_def os_init_def
        os.defs log_state.defs cfg_state.defs iface_state.defs key_state.defs)
  have u: "unat (2 :: u32) = 2" by simp
  have run: "evp_enc_run toy_ssl [] [1, 2] = Some ([], [1, 2] @ toy_pad [1, 2])"
    by (rule toy_enc_run)
  have l: "unat (2 :: u32) \<le> length [1, 2 :: byte]" "unat (2 :: u32) < 2 ^ 31" "send_good ?w"
    unfolding u by (simp_all add: send_good_def f)
  have e: "\<forall>i < length (peers ?w). Some i \<noteq> Some 0 \<longrightarrow> can_encrypt toy_ssl (take (unat (2 :: u32)) [1, 2]) (peers ?w ! i)"
    unfolding u using run by (auto simp: can_encrypt_def less_Suc_eq toy_pad_def frame_sizes)
  have d: "\<forall>i < length (peers ?w). \<forall>j < length (peers ?w). alive (peers ?w ! i) \<and> alive (peers ?w ! j) \<and>
           sockfd (peers ?w ! i) = sockfd (peers ?w ! j) \<longrightarrow> i = j"
    by (auto simp: less_Suc_eq)
  show ?thesis
    using broadcast_exact [OF l e d, of 8] f run unfolding u by (auto simp: less_Suc_eq all_conj_distrib)
qed

end
