(* ===== verification/Packet_Header.thy ===== *)
theory Packet_Header
  imports Netroute
begin

text \<open>
  \<open>src/packet_header.c\<close>: the source or destination address of a packet read from the TUN/TAP device.
  A packet starts with the four bytes of the device's own header (flags and ether type); an IP or
  Ethernet header follows. Offsets are those of \<open>struct iphdr\<close> (addresses at 12 and 16),
  \<open>struct ipv6hdr\<close> (8 and 24) and the Ethernet header (destination at 0, source at 6). The IPv4
  address is loaded as a host integer and taken apart with shifts, so its order in the route depends
  on the host (\<open>le\<close>); \<open>get_netroute_addr\<close> undoes this when printing.

  \<open>packet_addr\<close> is the reference: the address bytes as they are on the wire.
\<close>

definition ETH_P_IP :: u16 where "ETH_P_IP = 0x0800"
definition ETH_P_IPV6 :: u16 where "ETH_P_IPV6 = 0x86DD"

definition be_u16 :: "byte \<Rightarrow> byte \<Rightarrow> u16" where
  "be_u16 hi lo = push_bit 8 (ucast hi) OR ucast lo"

definition hex4 :: "u16 \<Rightarrow> string" where \<comment> \<open>the conversion 04x\<close>
  "hex4 w =
     (let n = unat w
      in [digit (n div 4096), digit (n div 256 mod 16), digit (n div 16 mod 16), digit (n mod 16)])"

definition decode_tuntap_header :: "byte list \<Rightarrow> string option" where
  "decode_tuntap_header packet =
     (case packet of
        a # b # c # d # _ \<Rightarrow>
          Some (''Flags: 0x'' @ hex4 (be_u16 a b) @ '', proto: 0x'' @ hex4 (be_u16 c d) @ [CHR 0x0A])
      | _ \<Rightarrow> None)"

definition parse_ip_packet :: "bool \<Rightarrow> byte list \<Rightarrow> u16 \<Rightarrow> netroute \<Rightarrow> bool \<Rightarrow> netroute option" where
  "parse_ip_packet le packet proto nroute source =
     (let nroute = nroute\<lparr>mac := False\<rparr>
      in if proto = ETH_P_IP then
           (let nroute = nroute\<lparr>ip4 := True\<rparr>
            in do {
                 bs \<leftarrow> mem_read packet (if source then 12 else 16) 4;
                 ip4_addr \<leftarrow> host_u32 le bs;
                 Some (nroute\<lparr>addr := (addr nroute)
                   [0 := byte_at 3 ip4_addr, 1 := byte_at 2 ip4_addr,
                    2 := byte_at 1 ip4_addr, 3 := byte_at 0 ip4_addr]\<rparr>)
               })
         else
           (let nroute = nroute\<lparr>ip4 := False\<rparr>
            in do {
                 bs \<leftarrow> mem_read packet (if source then 8 else 24) 16;
                 a \<leftarrow> mem_write (addr nroute) 0 bs;
                 Some (nroute\<lparr>addr := a\<rparr>)
               }))"

definition parse_eth_packet :: "byte list \<Rightarrow> netroute \<Rightarrow> bool \<Rightarrow> netroute option" where
  "parse_eth_packet packet nroute source =
     (let nroute = nroute\<lparr>ip4 := False, mac := True\<rparr>
      in do {
           bs \<leftarrow> mem_read packet (if source then 6 else 0) 6;
           a \<leftarrow> mem_write (addr nroute) 0 bs;
           Some (nroute\<lparr>addr := a\<rparr>)
         })"

text \<open>\<open>tap\<close> is the answer of \<open>tuntap_tap_mode\<close>. A packet that is not IP leaves the route alone.\<close>

definition parse_packet_addr :: "bool \<Rightarrow> bool \<Rightarrow> byte list \<Rightarrow> netroute \<Rightarrow> bool \<Rightarrow> netroute option" where
  "parse_packet_addr le tap packet nroute source =
     (if tap then parse_eth_packet (drop 4 packet) nroute source
      else
        (if length packet < 4 then None
         else
           (let ether_type = be_u16 (packet ! 2) (packet ! 3)
            in if ether_type \<noteq> ETH_P_IP \<and> ether_type \<noteq> ETH_P_IPV6 then Some nroute
               else parse_ip_packet le (drop 4 packet) ether_type nroute source)))"

definition packet_addr :: "bool \<Rightarrow> byte list \<Rightarrow> bool \<Rightarrow> (bool \<times> bool \<times> byte list) option" where
  "packet_addr tap packet source =
     (if tap then Some (True, False, take 6 (drop (if source then 10 else 4) packet))
      else
        (let ether_type = be_u16 (packet ! 2) (packet ! 3)
         in if ether_type = ETH_P_IP then
              Some (False, True, take 4 (drop (if source then 16 else 20) packet))
            else if ether_type = ETH_P_IPV6 then
              Some (False, False, take 16 (drop (if source then 12 else 28) packet))
            else None))"

text \<open>The longest header the parser looks into: 4 bytes and an IPv6 header.\<close>

definition HEADER_SPAN :: nat where "HEADER_SPAN = 44"

definition host_order :: "bool \<Rightarrow> bool \<times> bool \<times> byte list \<Rightarrow> bool \<times> bool \<times> byte list" where
  "host_order le k = (case k of (m, i, bs) \<Rightarrow> (m, i, if le \<and> \<not> m \<and> i then rev bs else bs))"

lemma parse_ip4:
  assumes "off = (if source then 12 else 16)" and "off + 4 \<le> length packet" and "wf_route r"
  shows "\<exists>r'. parse_ip_packet le packet ETH_P_IP r source = Some r' \<and> wf_route r' \<and>
           mac r' = False \<and> ip4 r' = True \<and>
           take 4 (addr r') = (if le then rev (take 4 (drop off packet)) else take 4 (drop off packet))"
proof -
  from assms(2) obtain a b c d where bs: "take 4 (drop off packet) = [a, b, c, d]"
    by (rule take4_drop)
  from assms(3) have "4 \<le> length (addr r)" by (simp add: wf_route_def)
  then obtain w x y z rest where ad: "addr r = w # x # y # z # rest" by (rule list4_cases)
  have "mem_read packet off 4 = Some [a, b, c, d]"
    using assms(2) bs by (simp add: mem_read_def)
  then show ?thesis
    using assms(1,3) ad bs
    by (cases le; cases source) (simp_all add: parse_ip_packet_def wf_route_def)
qed

lemma mem_write_prefix:
  "length bs \<le> length buf \<Longrightarrow> mem_write buf 0 bs = Some (bs @ drop (length bs) buf)"
  by (simp add: mem_write_def)

lemma parse_ip6:
  assumes "off = (if source then 8 else 24)" and "off + 16 \<le> length packet" and "wf_route r"
    and "proto \<noteq> ETH_P_IP"
  shows "parse_ip_packet le packet proto r source =
           Some (r\<lparr>mac := False, ip4 := False, addr := take 16 (drop off packet)\<rparr>)"
  using assms by (cases source)
    (simp_all add: parse_ip_packet_def mem_read_def mem_write_prefix wf_route_def Let_def)

lemma parse_eth:
  assumes "off = (if source then 6 else 0)" and "off + 6 \<le> length packet" and "wf_route r"
  shows "parse_eth_packet packet r source =
           Some (r\<lparr>ip4 := False, mac := True, addr := take 6 (drop off packet) @ drop 6 (addr r)\<rparr>)"
  using assms by (cases source)
    (simp_all add: parse_eth_packet_def mem_read_def mem_write_prefix wf_route_def Let_def)

text \<open>The parser against the reference, all cases together.\<close>

lemma parse_packet_addr_cases:
  assumes "HEADER_SPAN \<le> length packet" and "wf_route r"
  shows "\<exists>r'. parse_packet_addr le tap packet r source = Some r' \<and> wf_route r' \<and>
           (case packet_addr tap packet source of None \<Rightarrow> r' = r
            | Some k \<Rightarrow> route_key r' = host_order le k)"
proof (cases tap)
  case True
  with assms show ?thesis
    using parse_eth [of _ source "drop 4 packet" r]
    by (cases source)
      (simp_all add: parse_packet_addr_def packet_addr_def HEADER_SPAN_def route_key_def wf_route_def
        host_order_def)
next
  case tun: False
  let ?et = "be_u16 (packet ! 2) (packet ! 3)"
  have len: "\<not> length packet < 4" using assms(1) by (simp add: HEADER_SPAN_def)
  consider (ip) "?et = ETH_P_IP" | (ip6) "?et = ETH_P_IPV6" "?et \<noteq> ETH_P_IP"
    | (other) "?et \<noteq> ETH_P_IP" "?et \<noteq> ETH_P_IPV6" by blast
  then show ?thesis
  proof cases
    case ip
    let ?off = "if source then 12 else 16 :: nat"
    have off: "?off + 4 \<le> length (drop 4 packet)"
      using assms(1) by (cases source) (simp_all add: HEADER_SPAN_def)
    obtain r' where r': "parse_ip_packet le (drop 4 packet) ETH_P_IP r source = Some r'"
        "wf_route r'" "mac r' = False" "ip4 r' = True"
        "take 4 (addr r') = (if le then rev (take 4 (drop ?off (drop 4 packet)))
                             else take 4 (drop ?off (drop 4 packet)))"
      using parse_ip4 [OF refl off assms(2), of le] by blast
    then have "route_key r' = host_order le (False, True, take 4 (drop ?off (drop 4 packet)))"
      by (simp add: route_key_def host_order_def)
    moreover have "packet_addr tap packet source = Some (False, True, take 4 (drop ?off (drop 4 packet)))"
      using tun ip by (simp add: packet_addr_def)
    ultimately show ?thesis
      using tun len ip r' by (simp add: parse_packet_addr_def)
  next
    case ip6
    with assms tun len show ?thesis
      using parse_ip6 [of _ source "drop 4 packet" r ?et le]
      by (cases source)
        (auto simp: parse_packet_addr_def packet_addr_def HEADER_SPAN_def route_key_def wf_route_def
          host_order_def)
  next
    case other
    with assms tun len show ?thesis by (simp add: parse_packet_addr_def packet_addr_def)
  qed
qed

lemma host_order_inj: "host_order le k = host_order le k' \<longleftrightarrow> k = k'"
  by (cases k; cases k') (auto simp: host_order_def split: if_splits)

section \<open>Properties\<close>

text \<open>On every buffer that holds the longest header (44 bytes) the parser is defined and reads the
  address the packet carries: MAC, IPv4 or IPv6 according to the mode and the ether type, source or
  destination as asked (an IPv4 address in the host's byte order); a packet that is neither leaves
  the route unchanged.\<close>

theorem parse_packet_addr_correct:
  assumes "HEADER_SPAN \<le> length packet" and "wf_route r"
  shows "\<exists>r'. parse_packet_addr le tap packet r source = Some r' \<and> wf_route r' \<and>
           (case packet_addr tap packet source of None \<Rightarrow> r' = r
            | Some k \<Rightarrow> route_key r' = host_order le k)"
  using assms by (rule parse_packet_addr_cases)

theorem parse_packet_addr_correct_witness:
  "\<exists>r'. parse_packet_addr True False ([0, 0, 8, 0] @ replicate 12 0 @ [10, 0, 0, 1] @ replicate 24 0)
          \<lparr>mac = True, ip4 = False, addr = replicate 16 7\<rparr> True = Some r' \<and>
        route_key r' = (False, True, [1, 0, 0, 10])"
  using parse_packet_addr_correct
    [of "[0, 0, 8, 0] @ replicate 12 0 @ [10, 0, 0, 1] @ replicate 24 0"
        "\<lparr>mac = True, ip4 = False, addr = replicate 16 7\<rparr>" True False True]
  by (auto simp: HEADER_SPAN_def wf_route_def packet_addr_def be_u16_def ETH_P_IP_def host_order_def)

text \<open>The text printed for a parsed IPv4 address is the dotted form of the four address bytes of the
  packet, first byte first, on hosts of either byte order.\<close>

theorem ipv4_text_of_packet:
  assumes "HEADER_SPAN \<le> length packet" and "wf_route r"
    and "be_u16 (packet ! 2) (packet ! 3) = ETH_P_IP"
  shows "\<exists>r'. parse_packet_addr le False packet r source = Some r' \<and>
           get_netroute_addr le r' dest INET6_ADDRSTRLEN =
             inet_ntop4 (take 4 (drop (if source then 16 else 20) packet))"
proof -
  let ?off = "if source then 12 else 16 :: nat"
  have len: "?off + 4 \<le> length (drop 4 packet)"
    using assms(1) by (cases source) (simp_all add: HEADER_SPAN_def)
  obtain a b c d where bs: "take 4 (drop ?off (drop 4 packet)) = [a, b, c, d]"
    using len by (rule take4_drop)
  obtain r' where r': "parse_ip_packet le (drop 4 packet) ETH_P_IP r source = Some r'"
      "wf_route r'" "mac r' = False" "ip4 r' = True"
      "take 4 (addr r') = (if le then rev [a, b, c, d] else [a, b, c, d])"
    using parse_ip4 [OF refl len assms(2), of le, unfolded bs] by blast
  from r'(2) have "4 \<le> length (addr r')" by (simp add: wf_route_def)
  then obtain w x y z rest where ad: "addr r' = w # x # y # z # rest" by (rule list4_cases)
  have prefix: "inet_ntop4 (p # q # s # t # rest) = inet_ntop4 [p, q, s, t]" for p q s t
    by (simp add: inet_ntop4_def numeral_eq_Suc)
  have "get_netroute_addr le r' dest INET6_ADDRSTRLEN = inet_ntop4 [a, b, c, d]"
    using length_inet_ntop4 [of "[a, b, c, d]"] r'(3-5) ad
    by (cases le) (simp_all add: get_netroute_addr_def inet_ntop_into_def INET6_ADDRSTRLEN_def prefix)
  moreover have "take 4 (drop (if source then 16 else 20) packet) = [a, b, c, d]"
    using bs by (cases source) simp_all
  ultimately show ?thesis
    using assms(1,3) r'(1) by (auto simp: parse_packet_addr_def HEADER_SPAN_def)
qed

theorem ipv4_text_of_packet_witness:
  "\<exists>r'. parse_packet_addr True False ([0, 0, 8, 0] @ replicate 16 0 @ [10, 0, 0, 254] @ replicate 20 0)
          \<lparr>mac = True, ip4 = False, addr = replicate 16 7\<rparr> False = Some r' \<and>
        get_netroute_addr True r' '''' INET6_ADDRSTRLEN = ''10.0.0.254''"
  using ipv4_text_of_packet
    [of "[0, 0, 8, 0] @ replicate 16 0 @ [10, 0, 0, 254] @ replicate 20 0"
        "\<lparr>mac = True, ip4 = False, addr = replicate 16 7\<rparr>" True False "''''"]
  by (simp add: HEADER_SPAN_def wf_route_def be_u16_def ETH_P_IP_def inet_ntop4_def dec_byte_def
      digit_def)

text \<open>C33. Routes learnt from source addresses are the routes looked up by destination addresses: for two
  inspectable packets the parsed routes compare equal exactly when the packets carry the same kind
  of address with the same bytes, whatever stale bytes the route variables held before.\<close>

theorem parsed_routes_match:
  assumes "HEADER_SPAN \<le> length p" and "HEADER_SPAN \<le> length q" and "wf_route r" and "wf_route s"
    and "packet_addr tap p src \<noteq> None" and "packet_addr tap q src' \<noteq> None"
  shows "\<exists>r' s'. parse_packet_addr le tap p r src = Some r' \<and>
           parse_packet_addr le tap q s src' = Some s' \<and>
           (compare_netroutes r' s' \<longleftrightarrow> packet_addr tap p src = packet_addr tap q src')"
  using parse_packet_addr_cases [OF assms(1,3), of le tap src]
    parse_packet_addr_cases [OF assms(2,4), of le tap src'] assms(5,6)
  by (auto simp: compare_netroutes_key host_order_inj)

theorem parsed_routes_match_witness:
  "\<exists>r' s'.
     parse_packet_addr True True (replicate 4 0 @ [1, 2, 3, 4, 5, 6] @ replicate 34 0)
       \<lparr>mac = False, ip4 = True, addr = replicate 16 1\<rparr> False = Some r' \<and>
     parse_packet_addr True True (replicate 10 0 @ [1, 2, 3, 4, 5, 6] @ replicate 28 0)
       \<lparr>mac = False, ip4 = True, addr = replicate 16 9\<rparr> True = Some s' \<and>
     compare_netroutes r' s'"
  using parsed_routes_match
    [of "replicate 4 0 @ [1, 2, 3, 4, 5, 6] @ replicate 34 0"
        "replicate 10 0 @ [1, 2, 3, 4, 5, 6] @ replicate 28 0"
        "\<lparr>mac = False, ip4 = True, addr = replicate 16 1\<rparr>"
        "\<lparr>mac = False, ip4 = True, addr = replicate 16 9\<rparr>" True False True True]
  by (simp add: HEADER_SPAN_def wf_route_def packet_addr_def)

end
