(* ===== verification/Peer_Net.thy ===== *)
theory Peer_Net
  imports Frame_IO Packet_Header
begin

text \<open>
  \<open>src/peer_net.c\<close>, the data path: \<open>process_netpacket\<close> and \<open>process_frame\<close>. The peer is its position
  in the peer table. The automatic variables \<open>route\<close> and \<open>packet_data\<close> are not initialised: what
  they hold is the argument \<open>stack\<close>, and every property holds for every such content.

  A frame is handled under one step of the daemon; the accesses of other threads fall between steps.
\<close>

record stack =
  stale_route :: netroute
  stale_bytes :: "nat \<Rightarrow> byte"

abbreviation wf_stack :: "stack \<Rightarrow> bool" where
  "wf_stack st \<equiv> wf_route (stale_route st)"

definition AES_BLOCK_SIZE :: nat where "AES_BLOCK_SIZE = 16"

definition PACKET_DATA_SIZE :: nat where "PACKET_DATA_SIZE = FRAME_PAYLOAD_MAXSIZE + AES_BLOCK_SIZE"

lemmas packet_sizes = PACKET_DATA_SIZE_def AES_BLOCK_SIZE_def frame_sizes

definition set_peer :: "nat \<Rightarrow> ('k, 'c) peer \<Rightarrow> ('k, 'c, 'a) peer_state_scheme \<Rightarrow> ('k, 'c, 'a) peer_state_scheme"
  where "set_peer i p w = w\<lparr>peers := (peers w)[i := p]\<rparr>"

text \<open>The branch for a packet to the local device: learn the sender's address, write the packet.\<close>

definition deliver_local ::
  "nat \<Rightarrow> byte list \<Rightarrow> u32 \<Rightarrow> netroute \<Rightarrow> ('k, 'c, 'a) peer_state_scheme \<Rightarrow> ('k, 'c, 'a) peer_state_scheme option"
  where
  "deliver_local i packet_data data_len route w =
     do {
       route \<leftarrow> parse_packet_addr (host_le w) (tuntap_tap_mode w) packet_data route True;
       let w1 =
         (if get_peer_route route w = None then
            (case add_netroute route (peer_routes (peers w ! i)) w of
               (rs, w') \<Rightarrow> set_peer i ((peers w ! i)\<lparr>peer_routes := rs\<rparr>) w')
          else w);
       packet \<leftarrow> mem_read packet_data 0 (unat data_len);
       Some (snd (tuntap_write packet w1))
     }"

text \<open>What becomes of a decrypted packet.\<close>

definition route_packet ::
  "('k, 'c) openssl \<Rightarrow> stack \<Rightarrow> nat \<Rightarrow> byte list \<Rightarrow> u32
     \<Rightarrow> ('k, 'c, 'a) peer_state_scheme \<Rightarrow> ('k, 'c, 'a) peer_state_scheme option" where
  "route_packet ssl st i packet_data data_len w =
     do {
       route \<leftarrow> parse_packet_addr (host_le w) (tuntap_tap_mode w) packet_data (stale_route st) False;
       if is_local_route route w then deliver_local i packet_data data_len route w
       else
         (case get_peer_route route w of
            Some target \<Rightarrow>
              send_data_to_peer ssl FRAME_HDR_NETPACKET packet_data data_len True target w
          | None \<Rightarrow>
              do {
                packet \<leftarrow> mem_read packet_data 0 (unat data_len);
                broadcast_data_to_peers ssl FRAME_HDR_NETPACKET packet_data data_len True (Some i)
                  (snd (tuntap_write packet w))
              })
     }"

definition process_netpacket ::
  "('k, 'c) openssl \<Rightarrow> stack \<Rightarrow> nat \<Rightarrow> byte list \<Rightarrow> u32
     \<Rightarrow> ('k, 'c, 'a) peer_state_scheme \<Rightarrow> ('k, 'c, 'a) peer_state_scheme option" where
  "process_netpacket ssl st i data data_len w =
     (if \<not> i < length (peers w) then None
      else
        do {
          ctx \<leftarrow> cderef (dec_ctx (peers w ! i));
          (dec_len, ctx', packet_data) \<leftarrow>
            aes_decrypt ssl ctx data data_len (map (stale_bytes st) [0..<PACKET_DATA_SIZE]);
          let w1 = set_peer i ((peers w ! i)\<lparr>dec_ctx := Ptr ctx'\<rparr>) w;
          if dec_len < 0 then Some w1
          else route_packet ssl st i packet_data (of_int dec_len) w1
        })"

definition process_frame ::
  "('k, 'c) openssl \<Rightarrow> stack \<Rightarrow> nat \<Rightarrow> byte list \<Rightarrow> byte \<Rightarrow> u32
     \<Rightarrow> ('k, 'c, 'a) peer_state_scheme \<Rightarrow> (int \<times> ('k, 'c, 'a) peer_state_scheme) option" where
  "process_frame ssl st i buf header_type data_len w =
     (let data = drop FRAME_HEADER_SIZE buf
      in if \<not> i < length (peers w) then None
         else if header_type = FRAME_HDR_AUTH then Some (0, w)
         else if header_type = FRAME_HDR_CLOSE then Some (-1, w)
         else if header_type = FRAME_HDR_RESERVED then Some (0, w)
         else if header_type = FRAME_HDR_NETPACKET then
           (if \<not> authenticated (peers w ! i) then Some (0, w)
            else if data_len = 0 then Some (0, w)
            else do { w' \<leftarrow> process_netpacket ssl st i data data_len w; Some (0, w') })
         else Some (0, w))"

section \<open>What handling a packet leaves alone\<close>

text \<open>
  \<open>ctxs_ok\<close>: an authenticated peer has both contexts. A packet may change the contents of cipher
  contexts, one peer's routes, and the outside world.
\<close>

definition ctxs_ok :: "('k, 'c) peer \<Rightarrow> bool" where
  "ctxs_ok p \<longleftrightarrow> (authenticated p \<longrightarrow> (\<exists>c. enc_ctx p = Ptr c) \<and> (\<exists>c. dec_ctx p = Ptr c))"

definition peer_sans_routes :: "('k, 'c) peer \<Rightarrow> ('k, 'c) peer \<times> unit cptr \<times> unit cptr" where
  "peer_sans_routes p = peer_core (p\<lparr>peer_routes := []\<rparr>)"

definition packet_only :: "nat \<Rightarrow> ('k, 'c, 'a) peer_state_scheme \<Rightarrow> ('k, 'c, 'a) peer_state_scheme \<Rightarrow> bool" where
  "packet_only i w w' \<longleftrightarrow>
     map peer_sans_routes (peers w') = map peer_sans_routes (peers w) \<and>
     (\<forall>j. j \<noteq> i \<longrightarrow> map peer_routes (peers w') ! j = map peer_routes (peers w) ! j) \<and>
     local_routes w' = local_routes w \<and> trusted_keys w' = trusted_keys w \<and>
     daemon_pubkey w' = daemon_pubkey w \<and> daemon_privkey w' = daemon_privkey w \<and>
     if_fd w' = if_fd w \<and> if_tap w' = if_tap w \<and> host_le w' = host_le w \<and> closed w' = closed w \<and>
     rng w' = rng w"

lemma peer_core_sans_routes:
  "peer_core p = peer_core q \<Longrightarrow> peer_sans_routes p = peer_sans_routes q"
proof -
  assume a: "peer_core p = peer_core q"
  have comm: "x\<lparr>peer_routes := [], enc_ctx := Null, dec_ctx := Null\<rparr>
      = (x\<lparr>enc_ctx := Null, dec_ctx := Null\<rparr>)\<lparr>peer_routes := []\<rparr>" for x :: "('a, 'b) peer"
    by (cases x) simp
  from a show ?thesis
    by (simp only: peer_sans_routes_def peer_core_def comm) (simp add: peer_core_def)
qed

lemma packet_only_refl [simp]: "packet_only i w w"
  by (simp add: packet_only_def)

lemma packet_only_trans: "packet_only i w w1 \<Longrightarrow> packet_only i w1 w2 \<Longrightarrow> packet_only i w w2"
  by (simp add: packet_only_def)

lemma sends_packet_only:
  assumes "sends_only w w'"
  shows "packet_only i w w'"
proof -
  have len: "length (peers w') = length (peers w)" using assms by (rule sends_only_fields)
  have core: "peer_core (peers w' ! j) = peer_core (peers w ! j)" if "j < length (peers w)" for j
    using sends_only_nth [OF assms that] .
  have "map peer_sans_routes (peers w') = map peer_sans_routes (peers w)"
    using len core by (auto intro!: nth_equalityI peer_core_sans_routes)
  moreover have "map peer_routes (peers w') = map peer_routes (peers w)"
    by (rule nth_equalityI) (simp_all add: len peer_core_eqD(8) [OF core])
  ultimately show ?thesis
    using sends_only_fields [OF assms] by (simp add: packet_only_def)
qed

lemma tuntap_packet_only: "packet_only i w (snd (tuntap_write bs w))"
proof -
  obtain r w' where t: "tuntap_write bs w = (r, w')" by (cases "tuntap_write bs w")
  obtain rs out where "w' = w\<lparr>write_rets := rs, tun_out := out\<rparr>" using t by (rule tuntap_writeE)
  with t show ?thesis by (simp add: packet_only_def)
qed

lemma tuntap_write_fields [frame_simps]:
  "peers (snd (tuntap_write bs w)) = peers w" "local_routes (snd (tuntap_write bs w)) = local_routes w"
  "wire (snd (tuntap_write bs w)) = wire w" "send_rets (snd (tuntap_write bs w)) = send_rets w"
  "host_le (snd (tuntap_write bs w)) = host_le w" "if_tap (snd (tuntap_write bs w)) = if_tap w"
proof -
  obtain r w' where t: "tuntap_write bs w = (r, w')" by (cases "tuntap_write bs w")
  obtain rs out where "w' = w\<lparr>write_rets := rs, tun_out := out\<rparr>" using t by (rule tuntap_writeE)
  with t show "peers (snd (tuntap_write bs w)) = peers w"
    "local_routes (snd (tuntap_write bs w)) = local_routes w"
    "wire (snd (tuntap_write bs w)) = wire w" "send_rets (snd (tuntap_write bs w)) = send_rets w"
    "host_le (snd (tuntap_write bs w)) = host_le w" "if_tap (snd (tuntap_write bs w)) = if_tap w"
    by simp_all
qed

lemma set_peer_packet_only:
  assumes "peer_sans_routes p = peer_sans_routes (peers w ! i)"
  shows "packet_only i w (set_peer i p w)"
proof (cases "i < length (peers w)")
  case True
  have "map peer_sans_routes ((peers w)[i := p]) = map peer_sans_routes (peers w)"
    using True assms by (auto simp: nth_list_update intro!: nth_equalityI)
  with True show ?thesis
    by (simp add: packet_only_def set_peer_def map_update)
next
  case False
  then have "(peers w)[i := p] = peers w" by (simp add: list_update_beyond)
  then show ?thesis by (simp add: packet_only_def set_peer_def)
qed


section \<open>Memory safety and frame of the handlers\<close>

lemma dev_write_update:
  "dev_write (w\<lparr>mallocs := ms, peers := ps\<rparr>) bs =
     map_prod id (\<lambda>w. w\<lparr>mallocs := ms, peers := ps\<rparr>) (dev_write w bs)"
  by (cases "write_rets w") (simp_all add: dev_write_def Let_def)

lemma tuntap_write_update:
  "tuntap_write bs (w\<lparr>mallocs := ms, peers := ps\<rparr>) =
     map_prod id (\<lambda>w. w\<lparr>mallocs := ms, peers := ps\<rparr>) (tuntap_write bs w)"
  using put_all_commute [of dev_write "\<lambda>w. w\<lparr>mallocs := ms, peers := ps\<rparr>" w bs, OF dev_write_update]
  by (simp add: tuntap_write_def split: prod.split)

lemma packet_only_nth:
  assumes "packet_only i w w'" and "j < length (peers w)"
  shows "peer_sans_routes (peers w' ! j) = peer_sans_routes (peers w ! j)"
    and "alive (peers w' ! j) = alive (peers w ! j)"
    and "authenticated (peers w' ! j) = authenticated (peers w ! j)"
    and "pubkey (peers w' ! j) = pubkey (peers w ! j)"
    and "address (peers w' ! j) = address (peers w ! j)"
    and "sockfd (peers w' ! j) = sockfd (peers w ! j)"
    and "j \<noteq> i \<Longrightarrow> peer_routes (peers w' ! j) = peer_routes (peers w ! j)"
proof -
  have eq: "map peer_sans_routes (peers w') = map peer_sans_routes (peers w)"
    using assms(1) by (simp add: packet_only_def)
  have len: "length (peers w') = length (peers w)" using arg_cong [OF eq, of length] by simp
  show s: "peer_sans_routes (peers w' ! j) = peer_sans_routes (peers w ! j)"
    using arg_cong [OF eq, of "\<lambda>xs. xs ! j"] assms(2) len by simp
  have "peer_core ((peers w' ! j)\<lparr>peer_routes := []\<rparr>) = peer_core ((peers w ! j)\<lparr>peer_routes := []\<rparr>)"
    using s by (simp only: peer_sans_routes_def)
  from peer_core_eqD [OF this] show "alive (peers w' ! j) = alive (peers w ! j)"
    "authenticated (peers w' ! j) = authenticated (peers w ! j)" "pubkey (peers w' ! j) = pubkey (peers w ! j)"
    "address (peers w' ! j) = address (peers w ! j)" "sockfd (peers w' ! j) = sockfd (peers w ! j)"
    by simp_all
  show "peer_routes (peers w' ! j) = peer_routes (peers w ! j)" if "j \<noteq> i"
    using assms that len by (auto simp: packet_only_def)
qed

lemma packet_only_ctxs:
  assumes "packet_only i w w'" and "list_all ctxs_ok (peers w)"
  shows "list_all ctxs_ok (peers w')"
proof -
  have eq: "map peer_sans_routes (peers w') = map peer_sans_routes (peers w)"
    using assms(1) by (simp add: packet_only_def)
  have ok: "ctxs_ok p \<longleftrightarrow> ctxs_ok q" if "peer_sans_routes p = peer_sans_routes q" for p q :: "('a, 'b) peer"
  proof -
    have "peer_core (p\<lparr>peer_routes := []\<rparr>) = peer_core (q\<lparr>peer_routes := []\<rparr>)"
      using that by (simp only: peer_sans_routes_def)
    from peer_core_eqD(7,9,10) [OF this]
    have "authenticated p = authenticated q" "(\<exists>c. enc_ctx p = Ptr c) \<longleftrightarrow> (\<exists>c. enc_ctx q = Ptr c)"
      "(\<exists>c. dec_ctx p = Ptr c) \<longleftrightarrow> (\<exists>c. dec_ctx q = Ptr c)"
      by simp_all
    then show ?thesis unfolding ctxs_ok_def by blast
  qed
  have len: "length (peers w') = length (peers w)" using arg_cong [OF eq, of length] by simp
  show ?thesis
    unfolding list_all_length
  proof (intro allI impI)
    fix j assume j: "j < length (peers w')"
    have "map peer_sans_routes (peers w') ! j = map peer_sans_routes (peers w) ! j" by (simp only: eq)
    with j len have "peer_sans_routes (peers w' ! j) = peer_sans_routes (peers w ! j)" by simp
    then have "ctxs_ok (peers w' ! j) \<longleftrightarrow> ctxs_ok (peers w ! j)" by (rule ok)
    then show "ctxs_ok (peers w' ! j)"
      using assms(2) j len by (simp add: list_all_length)
  qed
qed

lemma learn_result:
  "\<exists>ms. (if get_peer_route r w = None then
           (case add_netroute r (peer_routes (peers w ! i)) w of
              (rs, w') \<Rightarrow> set_peer i ((peers w ! i)\<lparr>peer_routes := rs\<rparr>) w')
         else w) =
     w\<lparr>mallocs := ms, peers := (peers w)[i := (peers w ! i)\<lparr>peer_routes :=
        (if get_peer_route r w = None \<and> fst (malloc w)
         then peer_routes (peers w ! i) @ [r] else peer_routes (peers w ! i))\<rparr>]\<rparr>"
proof (cases "get_peer_route r w = None")
  case True
  obtain ok bs where m: "malloc w = (ok, w\<lparr>mallocs := bs\<rparr>)" by (metis mallocE surj_pair)
  show ?thesis
    using True
    by (intro exI [of _ bs], cases ok) (simp_all add: add_netroute_def m set_peer_def append_route_def)
next
  case False
  have "(peers w)[i := (peers w ! i)\<lparr>peer_routes := peer_routes (peers w ! i)\<rparr>] = peers w" by simp
  with False show ?thesis by (intro exI [of _ "mallocs w"]) (simp only: if_False simp_thms, simp)
qed

lemma deliver_local_result:
  assumes i: "i < length (peers w)" and pkt: "HEADER_SPAN \<le> length packet_data" "unat len \<le> length packet_data"
    and r: "wf_route route"
  shows "\<exists>route' w'. deliver_local i packet_data len route w = Some w' \<and>
           parse_packet_addr (host_le w) (tuntap_tap_mode w) packet_data route True = Some route' \<and>
           packet_only i w w' \<and>
           peer_routes (peers w' ! i) =
             (if get_peer_route route' w = None \<and> fst (malloc w)
              then peer_routes (peers w ! i) @ [route'] else peer_routes (peers w ! i)) \<and>
           tun_out w' = tun_out (snd (tuntap_write (take (unat len) packet_data) w)) \<and> wire w' = wire w"
proof -
  obtain route' where p: "parse_packet_addr (host_le w) (tuntap_tap_mode w) packet_data route True = Some route'"
    using parse_packet_addr_cases [OF pkt(1) r] by blast
  let ?pk = "take (unat len) packet_data"
  have rd: "mem_read packet_data 0 (unat len) = Some ?pk" using pkt(2) by (simp add: mem_read_def)
  obtain t rs out where t: "tuntap_write ?pk w = (t, w\<lparr>write_rets := rs, tun_out := out\<rparr>)"
    by (metis surj_pair tuntap_writeE)
  have upd: "snd (tuntap_write ?pk (w\<lparr>mallocs := ms, peers := ps\<rparr>)) =
      w\<lparr>mallocs := ms, peers := ps, write_rets := rs, tun_out := out\<rparr>" for ms ps
    by (simp add: tuntap_write_update t)
  define routes where "routes =
    (if get_peer_route route' w = None \<and> fst (malloc w)
     then peer_routes (peers w ! i) @ [route'] else peer_routes (peers w ! i))"
  define ps where "ps = (peers w)[i := (peers w ! i)\<lparr>peer_routes := routes\<rparr>]"
  obtain ms where w1: "(if get_peer_route route' w = None then
            (case add_netroute route' (peer_routes (peers w ! i)) w of
               (rs, w') \<Rightarrow> set_peer i ((peers w ! i)\<lparr>peer_routes := rs\<rparr>) w')
          else w) = w\<lparr>mallocs := ms, peers := ps\<rparr>"
    using learn_result [of route' w i] unfolding ps_def routes_def by blast
  have d: "deliver_local i packet_data len route w =
      Some (w\<lparr>mallocs := ms, peers := ps, write_rets := rs, tun_out := out\<rparr>)"
    by (simp only: deliver_local_def p rd Let_def bind.bind_lunit w1 upd)
  have "packet_only i w (set_peer i ((peers w ! i)\<lparr>peer_routes := routes\<rparr>) w)"
    by (rule set_peer_packet_only) (simp add: peer_sans_routes_def)
  then have "packet_only i w (w\<lparr>mallocs := ms, peers := ps, write_rets := rs, tun_out := out\<rparr>)"
    by (simp add: packet_only_def set_peer_def ps_def)
  with d p show ?thesis
    using i t by (simp add: ps_def routes_def)
qed

text \<open>Looking at the peers does not see their cipher contexts.\<close>

lemma get_peer_route_cong:
  assumes "map (\<lambda>p. (alive p, peer_routes p)) (peers w') = map (\<lambda>p. (alive p, peer_routes p)) (peers w)"
  shows "get_peer_route r w' = get_peer_route r w"
proof -
  have len: "length (peers w') = length (peers w)" using arg_cong [OF assms, of length] by simp
  have "alive (peers w' ! j) = alive (peers w ! j)" "peer_routes (peers w' ! j) = peer_routes (peers w ! j)"
    if "j < length (peers w')" for j
    using arg_cong [OF assms, of "\<lambda>xs. xs ! j"] that len by simp_all
  with len show ?thesis by (simp add: get_peer_route_eq cong: find_index_cong)
qed

definition dec_used :: "nat \<Rightarrow> 'c \<Rightarrow> ('k, 'c, 'a) peer_state_scheme \<Rightarrow> ('k, 'c, 'a) peer_state_scheme" where
  "dec_used i c w = set_peer i ((peers w ! i)\<lparr>dec_ctx := Ptr c\<rparr>) w"

lemma dec_used_fields [frame_simps]:
  "length (peers (dec_used i c w)) = length (peers w)" "local_routes (dec_used i c w) = local_routes w"
  "if_fd (dec_used i c w) = if_fd w" "if_tap (dec_used i c w) = if_tap w" "host_le (dec_used i c w) = host_le w"
  "tun_out (dec_used i c w) = tun_out w" "wire (dec_used i c w) = wire w" "mallocs (dec_used i c w) = mallocs w"
  "send_rets (dec_used i c w) = send_rets w" "write_rets (dec_used i c w) = write_rets w"
  "tuntap_tap_mode (dec_used i c w) = tuntap_tap_mode w" "is_local_route r (dec_used i c w) = is_local_route r w"
  by (simp_all add: dec_used_def set_peer_def tuntap_tap_mode_def is_local_route_def)

lemma dec_used_nth [frame_simps]:
  "i < length (peers w) \<Longrightarrow> peers (dec_used i c w) ! j =
     (if j = i then (peers w ! i)\<lparr>dec_ctx := Ptr c\<rparr> else peers w ! j)"
  by (simp add: dec_used_def set_peer_def)

lemma dec_used_route [frame_simps]:
  "i < length (peers w) \<Longrightarrow> get_peer_route r (dec_used i c w) = get_peer_route r w"
  by (rule get_peer_route_cong) (auto simp: frame_simps intro!: nth_equalityI)

lemma dec_used_frame_for [frame_simps]:
  "i < length (peers w) \<Longrightarrow> frame_for ssl t d (dec_used i c w) j = frame_for ssl t d w j"
  by (cases "j = i") (auto simp: frame_for_def frame_simps Let_def split: option.split)

lemma dec_used_packet_only:
  assumes "dec_ctx (peers w ! i) = Ptr c0"
  shows "packet_only i w (dec_used i c w)"
  unfolding dec_used_def
  by (rule set_peer_packet_only) (simp add: peer_sans_routes_def peer_core_def assms)

text \<open>What one frame may do to the peer that sent it.\<close>

definition learns :: "nat \<Rightarrow> ('k, 'c, 'a) peer_state_scheme \<Rightarrow> ('k, 'c, 'a) peer_state_scheme \<Rightarrow> bool" where
  "learns i w w' \<longleftrightarrow>
     peer_routes (peers w' ! i) = peer_routes (peers w ! i) \<or>
     (\<exists>r. peer_routes (peers w' ! i) = peer_routes (peers w ! i) @ [r] \<and> get_peer_route r w = None)"

lemma route_packet_only:
  assumes run: "route_packet ssl st i pk len w = Some w'" and i: "i < length (peers w)"
    and st: "wf_stack st" and pk: "length pk = PACKET_DATA_SIZE"
  shows "packet_only i w w' \<and> learns i w w'"
proof -
  have span: "HEADER_SPAN \<le> length pk" by (simp add: pk packet_sizes HEADER_SPAN_def)
  obtain r where r: "parse_packet_addr (host_le w) (tuntap_tap_mode w) pk (stale_route st) False = Some r"
    "wf_route r"
    using parse_packet_addr_cases [OF span st] by blast
  have sent: "packet_only i w u' \<and> learns i w u'" if "sends_only u u'" "packet_only i w u" "peers u = peers w"
    for u u' :: "('a, 'b, 'c) peer_state_scheme"
    using peer_core_eqD(8) [OF sends_only_nth [OF that(1), of i]] i that packet_only_trans [OF that(2) sends_packet_only]
    by (simp add: learns_def)
  show ?thesis
  proof (cases "is_local_route r w")
    case True
    with run r have d: "deliver_local i pk len r w = Some w'" by (simp add: route_packet_def)
    then have "unat len \<le> length pk"
      by (auto simp: deliver_local_def mem_read_def Option.bind_eq_Some_conv Let_def split: if_splits)
    from deliver_local_result [OF i span this r(2)] d show ?thesis
      by (auto simp: learns_def)
  next
    case remote: False
    show ?thesis
    proof (cases "get_peer_route r w")
      case (Some target)
      with run r remote have "send_data_to_peer ssl FRAME_HDR_NETPACKET pk len True target w = Some w'"
        by (simp add: route_packet_def)
      then have "sends_only w w'" by (rule send_only)
      then show ?thesis using sent [of w w'] by simp
    next
      case None
      with run r remote obtain bs where
        "broadcast_data_to_peers ssl FRAME_HDR_NETPACKET pk len True (Some i) (snd (tuntap_write bs w)) = Some w'"
        by (auto simp: route_packet_def Option.bind_eq_Some_conv)
      then have "sends_only (snd (tuntap_write bs w)) w'"
        unfolding broadcast_data_to_peers_def by (rule broadcast_from_only)
      then show ?thesis by (rule sent) (rule tuntap_packet_only, rule tuntap_write_fields)
    qed
  qed
qed

text \<open>Sending a packet is defined when every authenticated peer has its context and the packet its room.\<close>

lemma send_ctxs:
  assumes "cbc_sizes ssl" and "list_all ctxs_ok (peers w)" and "unat n \<le> length buf"
    and "cbc_padded (unat n) \<le> FRAME_PAYLOAD_MAXSIZE" and "t < length (peers w)"
  shows "\<exists>w'. send_data_to_peer ssl h buf n True t w = Some w' \<and> sends_only w w'"
  using assms by (intro send_defined) (auto simp: list_all_length ctxs_ok_def)

lemma broadcast_ctxs:
  assumes "cbc_sizes ssl" and "list_all ctxs_ok (peers w)" and "unat n \<le> length buf"
    and "cbc_padded (unat n) \<le> FRAME_PAYLOAD_MAXSIZE"
  shows "\<exists>w'. broadcast_data_to_peers ssl h buf n True ex w = Some w' \<and> sends_only w w'"
  unfolding broadcast_data_to_peers_def get_peer_list_def
  using assms by (intro broadcast_from_defined) (auto simp: list_all_length ctxs_ok_def)

text \<open>Memory safety of the handler of a decrypted packet, and what it may change.\<close>

lemma route_packet_safe:
  assumes ssl: "cbc_sizes ssl" and i: "i < length (peers w)" and ok: "list_all ctxs_ok (peers w)"
    and st: "wf_stack st" and pk: "length packet_data = PACKET_DATA_SIZE"
    and len: "unat len < FRAME_PAYLOAD_MAXSIZE"
  shows "\<exists>w'. route_packet ssl st i packet_data len w = Some w' \<and> packet_only i w w' \<and> learns i w w'"
proof -
  have span: "HEADER_SPAN \<le> length packet_data" by (simp add: pk packet_sizes HEADER_SPAN_def)
  have fits: "unat len \<le> length packet_data" using len by (simp add: pk packet_sizes)
  have room: "cbc_padded (unat len) \<le> FRAME_PAYLOAD_MAXSIZE"
    using len by (simp add: cbc_padded_def frame_sizes)
  obtain r where r: "parse_packet_addr (host_le w) (tuntap_tap_mode w) packet_data (stale_route st) False = Some r"
    "wf_route r"
    using parse_packet_addr_cases [OF span st] by blast
  let ?w1 = "snd (tuntap_write (take (unat len) packet_data) w)"
  have "list_all ctxs_ok (peers ?w1)" using ok by (simp add: frame_simps)
  then have "route_packet ssl st i packet_data len w \<noteq> None"
    using r fits deliver_local_result [OF i span fits r(2)] send_ctxs [OF ssl ok fits room]
      broadcast_ctxs [OF ssl _ fits room, of ?w1 FRAME_HDR_NETPACKET "Some i"]
    by (auto simp: route_packet_def mem_read_def dest: get_peer_route_SomeD split: option.split)
  then show ?thesis using route_packet_only [OF _ i st pk] by blast
qed

lemma process_netpacket_safe:
  assumes ssl: "cbc_sizes ssl" and i: "i < length (peers w)" and ok: "list_all ctxs_ok (peers w)"
    and auth: "authenticated (peers w ! i)" and st: "wf_stack st"
    and len: "unat len \<le> length data" "unat len \<le> FRAME_PAYLOAD_MAXSIZE"
  shows "\<exists>w'. process_netpacket ssl st i data len w = Some w' \<and> packet_only i w w' \<and> learns i w w'"
proof -
  obtain c where c: "dec_ctx (peers w ! i) = Ptr c"
    using ok auth i by (auto simp: list_all_length ctxs_ok_def)
  let ?buf = "map (stale_bytes st) [0..<PACKET_DATA_SIZE]"
  have "unat len < 2 ^ 31" using len(2) by (simp add: frame_sizes)
  moreover have "unat len + 16 \<le> length ?buf" using len(2) by (simp add: packet_sizes)
  ultimately obtain n c' buf where d: "aes_decrypt ssl c data len ?buf = Some (n, c', buf)"
      "length buf = length ?buf" "n = -1 \<or> 0 \<le> n \<and> nat n < unat len"
    using aes_decrypt_safe [OF ssl _ len(1), of ?buf c] by blast
  have p1: "packet_only i w (dec_used i c' w)" using c by (rule dec_used_packet_only)
  have run: "process_netpacket ssl st i data len w =
      (if n < 0 then Some (dec_used i c' w) else route_packet ssl st i buf (of_int n) (dec_used i c' w))"
    using i c d(1) by (simp add: process_netpacket_def dec_used_def Let_def)
  show ?thesis
  proof (cases "n < 0")
    case True
    then show ?thesis using run p1 i by (simp add: learns_def frame_simps)
  next
    case False
    then obtain m where m: "n = int m" "m < unat len" using d(3) by (cases n) auto
    have um: "unat (of_int n :: u32) = m"
      using m len(2) by (simp add: unat_of_nat frame_sizes)
    have "\<exists>w'. route_packet ssl st i buf (of_int n) (dec_used i c' w) = Some w' \<and>
        packet_only i (dec_used i c' w) w' \<and> learns i (dec_used i c' w) w'"
      using ssl i st d(2) um m len(2) packet_only_ctxs [OF p1 ok]
      by (intro route_packet_safe) (simp_all add: frame_simps)
    then show ?thesis
      using run False p1 i by (auto simp: learns_def frame_simps intro: packet_only_trans)
  qed
qed

lemma process_frame_safe:
  assumes "cbc_sizes ssl" and "i < length (peers w)" and "list_all ctxs_ok (peers w)"
    and "wf_stack st" and "length buf = FRAME_MAXSIZE" and "unat len \<le> FRAME_PAYLOAD_MAXSIZE"
  shows "\<exists>r w'. process_frame ssl st i buf t len w = Some (r, w') \<and> packet_only i w w' \<and> learns i w w' \<and>
           (r = -1 \<longleftrightarrow> t = FRAME_HDR_CLOSE) \<and>
           (t \<noteq> FRAME_HDR_NETPACKET \<or> \<not> authenticated (peers w ! i) \<longrightarrow> w' = w)"
proof -
  have "unat len \<le> length (drop FRAME_HEADER_SIZE buf)" using assms(5,6) by (simp add: frame_sizes)
  with assms have "authenticated (peers w ! i) \<Longrightarrow>
      \<exists>w'. process_netpacket ssl st i (drop FRAME_HEADER_SIZE buf) len w = Some w' \<and> packet_only i w w' \<and> learns i w w'"
    by (intro process_netpacket_safe)
  moreover have "learns i w w" by (simp add: learns_def)
  ultimately show ?thesis
    using assms(2) by (auto simp: process_frame_def Let_def frame_types)
qed

text \<open>What a handled packet changed, whatever its length was.\<close>

lemma process_netpacket_steps:
  assumes "process_netpacket ssl st i data len w = Some w'"
  obtains c n c' buf where "i < length (peers w)" and "dec_ctx (peers w ! i) = Ptr c"
    and "aes_decrypt ssl c data len (map (stale_bytes st) [0..<PACKET_DATA_SIZE]) = Some (n, c', buf)"
    and "(if n < 0 then Some (dec_used i c' w) else route_packet ssl st i buf (of_int n) (dec_used i c' w)) = Some w'"
proof -
  have i: "i < length (peers w)" using assms by (simp add: process_netpacket_def split: if_splits)
  obtain c where c: "dec_ctx (peers w ! i) = Ptr c"
    using assms i by (cases "dec_ctx (peers w ! i)") (simp_all add: process_netpacket_def)
  let ?buf = "map (stale_bytes st) [0..<PACKET_DATA_SIZE]"
  obtain n c' buf where a: "aes_decrypt ssl c data len ?buf = Some (n, c', buf)"
    using assms i c by (cases "aes_decrypt ssl c data len ?buf") (auto simp: process_netpacket_def)
  show thesis
    using that [unfolded dec_used_def, OF i c a] assms by (simp add: process_netpacket_def i c a Let_def)
qed

lemma process_netpacket_only:
  assumes run: "process_netpacket ssl st i data len w = Some w'" and st: "wf_stack st"
  shows "packet_only i w w' \<and> learns i w w'"
proof -
  obtain c n c' buf where i: "i < length (peers w)" and c: "dec_ctx (peers w ! i) = Ptr c"
    and a: "aes_decrypt ssl c data len (map (stale_bytes st) [0..<PACKET_DATA_SIZE]) = Some (n, c', buf)"
    and rest: "(if n < 0 then Some (dec_used i c' w) else route_packet ssl st i buf (of_int n) (dec_used i c' w)) = Some w'"
    using run by (rule process_netpacket_steps)
  have p1: "packet_only i w (dec_used i c' w)" using c by (rule dec_used_packet_only)
  show ?thesis
  proof (cases "n < 0")
    case True
    with rest have w': "w' = dec_used i c' w" by simp
    show ?thesis using p1 i unfolding w' by (simp add: learns_def frame_simps)
  next
    case False
    with rest have rp: "route_packet ssl st i buf (of_int n) (dec_used i c' w) = Some w'" by simp
    have "i < length (peers (dec_used i c' w))" "length buf = PACKET_DATA_SIZE"
      using i aes_decrypt_length [OF a] by (simp_all add: frame_simps)
    from route_packet_only [OF rp this(1) st this(2)] show ?thesis
      using p1 i by (auto simp: learns_def frame_simps intro: packet_only_trans)
  qed
qed

lemma process_frame_only:
  assumes "process_frame ssl st i buf t len w = Some (res, w')" and "wf_stack st"
  shows "packet_only i w w' \<and> learns i w w' \<and> (authenticated (peers w ! i) \<or> w' = w) \<and> i < length (peers w)"
proof -
  have same: "packet_only i w w \<and> learns i w w" by (simp add: learns_def)
  have "w' = w \<or> authenticated (peers w ! i) \<and>
      process_netpacket ssl st i (drop FRAME_HEADER_SIZE buf) len w = Some w'" "i < length (peers w)"
    using assms(1) by (auto simp: process_frame_def Let_def Option.bind_eq_Some_conv split: if_splits)
  then show ?thesis
    using same process_netpacket_only assms(2) by blast
qed

text \<open>An accepted packet, once decrypted.\<close>

lemma process_netpacket_run:
  assumes "i < length (peers w)" and "dec_ctx (peers w ! i) = Ptr c"
    and "evp_dec_run ssl c (take (unat len) data) = Some (c', pt)"
    and "unat len < 2 ^ 31" and "unat len \<le> length data" and "length pt \<le> PACKET_DATA_SIZE"
  shows "process_netpacket ssl st i data len w =
           route_packet ssl st i (pt @ map (stale_bytes st) [length pt..<PACKET_DATA_SIZE]) (of_nat (length pt))
             (dec_used i c' w)"
proof -
  have "drop (length pt) (map (stale_bytes st) [0..<PACKET_DATA_SIZE])
      = map (stale_bytes st) [length pt..<PACKET_DATA_SIZE]"
    by (simp add: drop_map)
  then show ?thesis
    using assms(1,2,6) aes_decrypt_run [OF assms(3-5), of "map (stale_bytes st) [0..<PACKET_DATA_SIZE]"]
    by (simp add: process_netpacket_def dec_used_def)
qed

lemma packet_addr_append:
  "HEADER_SPAN \<le> length p \<Longrightarrow> packet_addr tap (p @ q) src = packet_addr tap p src"
  by (cases src) (simp_all add: packet_addr_def HEADER_SPAN_def nth_append Let_def)

lemma packet_addr_source:
  "packet_addr tap p src = None \<longleftrightarrow> packet_addr tap p src' = None"
  by (simp add: packet_addr_def Let_def)

section \<open>The routing decision\<close>

text \<open>The specification: where a packet goes, from its bytes and the tables alone.\<close>

datatype fate = To_device | To_peer nat | To_all

definition holds_route :: "bool \<times> bool \<times> byte list \<Rightarrow> ('k, 'c) peer \<Rightarrow> bool" where
  "holds_route k p \<longleftrightarrow> alive p \<and> k \<in> route_keys (peer_routes p)"

definition wire_key :: "('k, 'c, 'a) peer_state_scheme \<Rightarrow> byte list \<Rightarrow> bool \<Rightarrow> bool \<times> bool \<times> byte list" where
  "wire_key w pt source = host_order (host_le w) (the (packet_addr (tuntap_tap_mode w) pt source))"

definition packet_fate :: "('k, 'c, 'a) peer_state_scheme \<Rightarrow> byte list \<Rightarrow> fate" where
  "packet_fate w pt =
     (let k = wire_key w pt False
      in if k \<in> route_keys (local_routes w) then To_device
         else (case find_index (holds_route k) (peers w) of Some t \<Rightarrow> To_peer t | None \<Rightarrow> To_all))"

lemma get_peer_route_holds:
  "route_key r = k \<Longrightarrow> get_peer_route r w = find_index (holds_route k) (peers w)"
  by (simp add: get_peer_route_eq holds_route_def route_known_key cong: find_index_cong)

lemma parse_wire_key:
  assumes "HEADER_SPAN \<le> length pt" and "wf_route r"
    and "packet_addr (tuntap_tap_mode w) pt source \<noteq> None"
  obtains r' where "parse_packet_addr (host_le w) (tuntap_tap_mode w) (pt @ q) r source = Some r'"
    and "wf_route r'" and "route_key r' = wire_key w pt source"
proof -
  have "HEADER_SPAN \<le> length (pt @ q)" using assms(1) by simp
  from parse_packet_addr_cases [OF this assms(2), of "host_le w" "tuntap_tap_mode w" source] assms(1,3) that
  show thesis by (auto simp: packet_addr_append wire_key_def)
qed

text \<open>\<open>sends_ok\<close>: nothing fails on the way out, and sockets of connected peers are different.\<close>

definition sends_ok :: "('k, 'c) openssl \<Rightarrow> byte list \<Rightarrow> ('k, 'c, 'a) peer_state_scheme \<Rightarrow> bool" where
  "sends_ok ssl pt w \<longleftrightarrow>
     send_good w \<and> mallocs w = [] \<and> write_rets w = [] \<and> 0 \<le> if_fd w \<and>
     (\<forall>j < length (peers w). can_encrypt ssl pt (peers w ! j)) \<and>
     (\<forall>i < length (peers w). \<forall>j < length (peers w). alive (peers w ! i) \<and> alive (peers w ! j) \<and>
        sockfd (peers w ! i) = sockfd (peers w ! j) \<longrightarrow> i = j)"

lemma sends_ok_dec_used:
  "i < length (peers w) \<Longrightarrow> sends_ok ssl pt w \<Longrightarrow> sends_ok ssl pt (dec_used i c w)"
proof -
  assume i: "i < length (peers w)" and ok: "sends_ok ssl pt w"
  have "alive (peers (dec_used i c w) ! j) = alive (peers w ! j)"
    "sockfd (peers (dec_used i c w) ! j) = sockfd (peers w ! j)"
    "can_encrypt ssl pt (peers (dec_used i c w) ! j) = can_encrypt ssl pt (peers w ! j)" for j
    using i by (simp_all add: dec_used_nth can_encrypt_def)
  with ok show ?thesis by (simp add: sends_ok_def dec_used_fields send_good_def)
qed

definition routed_as_specified ::
  "('k, 'c) openssl \<Rightarrow> nat \<Rightarrow> byte list \<Rightarrow> ('k, 'c, 'a) peer_state_scheme \<Rightarrow> ('k, 'c, 'a) peer_state_scheme \<Rightarrow> bool"
  where
  "routed_as_specified ssl i pt w w' \<longleftrightarrow>
     (case packet_fate w pt of
        To_device \<Rightarrow>
          tun_out w' = tun_out w @ [pt] \<and> wire w' = wire w \<and>
          route_keys (peer_routes (peers w' ! i)) =
            (if \<exists>p \<in> set (peers w). holds_route (wire_key w pt True) p
             then route_keys (peer_routes (peers w ! i))
             else insert (wire_key w pt True) (route_keys (peer_routes (peers w ! i))))
      | To_peer t \<Rightarrow>
          tun_out w' = tun_out w \<and>
          wire w' = (wire w)(sockfd (peers w ! t) :=
            wire w (sockfd (peers w ! t)) @ frame_for ssl FRAME_HDR_NETPACKET pt w t)
      | To_all \<Rightarrow>
          tun_out w' = tun_out w @ [pt] \<and>
          (\<forall>j < length (peers w). alive (peers w ! j) \<longrightarrow>
             wire w' (sockfd (peers w ! j)) = wire w (sockfd (peers w ! j)) @
               (if j \<noteq> i then frame_for ssl FRAME_HDR_NETPACKET pt w j else [])))"

lemma send_ok:
  assumes "sends_ok ssl p w" and "p = take (unat n) buf" and "unat n \<le> length buf" and "unat n < 2 ^ 31"
    and "t < length (peers w)"
  shows "\<exists>w'. send_data_to_peer ssl h buf n True t w = Some w' \<and> sends_only w w' \<and>
           wire w' = (wire w)(sockfd (peers w ! t) := wire w (sockfd (peers w ! t)) @ frame_for ssl h p w t)"
proof -
  have "can_encrypt ssl (take (unat n) buf) (peers w ! t)" "send_good w"
    using assms(1,2,5) by (simp_all add: sends_ok_def)
  from send_encrypted [OF assms(5,3,4) this, of h] show ?thesis by (auto simp: assms(2))
qed

lemma broadcast_ok:
  assumes "sends_ok ssl p w" and "p = take (unat n) buf" and "unat n \<le> length buf" and "unat n < 2 ^ 31"
  shows "\<exists>w'. broadcast_data_to_peers ssl h buf n True ex w = Some w' \<and> sends_only w w' \<and>
           (\<forall>j < length (peers w). alive (peers w ! j) \<longrightarrow>
              wire w' (sockfd (peers w ! j)) = wire w (sockfd (peers w ! j)) @
                (if Some j \<noteq> ex then frame_for ssl h p w j else []))"
proof -
  have "send_good w" "\<And>j. j < length (peers w) \<Longrightarrow> Some j \<noteq> ex \<Longrightarrow> can_encrypt ssl (take (unat n) buf) (peers w ! j)"
    "\<And>i j. i < length (peers w) \<Longrightarrow> j < length (peers w) \<Longrightarrow> alive (peers w ! i) \<Longrightarrow>
         alive (peers w ! j) \<Longrightarrow> sockfd (peers w ! i) = sockfd (peers w ! j) \<Longrightarrow> i = j"
    using assms(1,2) by (auto simp: sends_ok_def)
  from broadcast_wire [OF assms(3,4) this, of ex h] show ?thesis unfolding assms(2) by blast
qed

text \<open>The first branch of the decision: a packet for the local device.\<close>

lemma deliver_local_exact:
  assumes i: "i < length (peers w)" and pt: "HEADER_SPAN \<le> length pt" and r: "wf_route r"
    and ip: "packet_addr (tuntap_tap_mode w) pt True \<noteq> None" and m: "mallocs w = []"
    and n: "unat n = length pt"
  shows "\<exists>w'. deliver_local i (pt @ q) n r w = Some w' \<and> wire w' = wire w \<and>
           tun_out w' = tun_out (snd (tuntap_write pt w)) \<and>
           route_keys (peer_routes (peers w' ! i)) =
            (if \<exists>p \<in> set (peers w). holds_route (wire_key w pt True) p
             then route_keys (peer_routes (peers w ! i))
             else insert (wire_key w pt True) (route_keys (peer_routes (peers w ! i))))"
proof -
  obtain r0 where r0: "parse_packet_addr (host_le w) (tuntap_tap_mode w) (pt @ q) r True = Some r0"
      "route_key r0 = wire_key w pt True"
    using pt r ip by (rule parse_wire_key)
  have len: "HEADER_SPAN \<le> length (pt @ q)" "unat n \<le> length (pt @ q)" using pt n by simp_all
  have tk: "take (unat n) (pt @ q) = pt" by (simp add: n)
  obtain w' where d: "deliver_local i (pt @ q) n r w = Some w'"
    "peer_routes (peers w' ! i) =
           (if get_peer_route r0 w = None \<and> fst (malloc w)
            then peer_routes (peers w ! i) @ [r0] else peer_routes (peers w ! i))"
    "tun_out w' = tun_out (snd (tuntap_write pt w))" "wire w' = wire w"
    using deliver_local_result [OF i len r] r0 unfolding tk by auto
  have "get_peer_route r0 w = None \<longleftrightarrow> \<not> (\<exists>p \<in> set (peers w). holds_route (wire_key w pt True) p)"
    using get_peer_route_holds [OF r0(2), of w] by (simp add: find_index_None)
  then show ?thesis using d m r0(2) by (auto simp: route_keys_def)
qed

lemma flood_exact:
  assumes ok: "sends_ok ssl pt w" and n: "pt = take (unat n) pk" "unat n \<le> length pk" "unat n < 2 ^ 31"
    and fate: "packet_fate w pt = To_all"
  shows "\<exists>w'. broadcast_data_to_peers ssl FRAME_HDR_NETPACKET pk n True (Some i) (w\<lparr>tun_out := tun_out w @ [pt]\<rparr>) =
           Some w' \<and> routed_as_specified ssl i pt w w'"
proof -
  let ?w1 = "w\<lparr>tun_out := tun_out w @ [pt]\<rparr>"
  have "sends_ok ssl pt ?w1" using ok by (simp add: sends_ok_def send_good_def)
  from broadcast_ok [OF this n] obtain w' where
    b: "broadcast_data_to_peers ssl FRAME_HDR_NETPACKET pk n True (Some i) ?w1 = Some w'" "sends_only ?w1 w'"
      "\<forall>j < length (peers ?w1). alive (peers ?w1 ! j) \<longrightarrow>
          wire w' (sockfd (peers ?w1 ! j)) = wire ?w1 (sockfd (peers ?w1 ! j)) @
            (if Some j \<noteq> Some i then frame_for ssl FRAME_HDR_NETPACKET pt ?w1 j else [])"
    by blast
  have "tun_out w' = tun_out w @ [pt]" using sends_only_fields(8) [OF b(2)] by simp
  moreover have "frame_for ssl FRAME_HDR_NETPACKET pt ?w1 j = frame_for ssl FRAME_HDR_NETPACKET pt w j" for j
    by (simp add: frame_for_def Let_def split: option.split)
  ultimately show ?thesis using b(1,3) fate by (simp add: routed_as_specified_def)
qed

lemma route_packet_exact:
  assumes i: "i < length (peers w)" and pt: "HEADER_SPAN \<le> length pt" "length pt < FRAME_PAYLOAD_MAXSIZE"
    and st: "wf_stack st" and ip: "packet_addr (tuntap_tap_mode w) pt False \<noteq> None"
    and ok: "sends_ok ssl pt w"
  shows "\<exists>w'. route_packet ssl st i (pt @ q) (of_nat (length pt)) w = Some w' \<and>
           routed_as_specified ssl i pt w w'"
proof -
  let ?n = "of_nat (length pt) :: u32" and ?pk = "pt @ q" and ?w1 = "w\<lparr>tun_out := tun_out w @ [pt]\<rparr>"
  have un: "unat ?n = length pt" using pt(2) by (simp add: unat_of_nat frame_sizes)
  then have n: "pt = take (unat ?n) ?pk" "unat ?n \<le> length ?pk" "unat ?n < 2 ^ 31"
    using pt(2) by (simp_all add: frame_sizes)
  have "pt \<noteq> []" using pt(1) by (auto simp: HEADER_SPAN_def)
  then have tun: "snd (tuntap_write pt w) = ?w1"
    using ok by (simp add: tuntap_write_delivers sends_ok_def)
  obtain r where r: "parse_packet_addr (host_le w) (tuntap_tap_mode w) ?pk (stale_route st) False = Some r"
      "wf_route r" "route_key r = wire_key w pt False"
    using pt(1) st ip by (rule parse_wire_key)
  have loc: "is_local_route r w \<longleftrightarrow> wire_key w pt False \<in> route_keys (local_routes w)"
    by (simp add: is_local_route_known route_known_key r(3))
  note peer = get_peer_route_holds [OF r(3), of w]
  show ?thesis
  proof (cases "packet_fate w pt")
    case To_device
    then have local: "is_local_route r w"
      by (simp add: packet_fate_def loc Let_def split: if_splits option.splits)
    have "packet_addr (tuntap_tap_mode w) pt True \<noteq> None" "mallocs w = []"
      using ip ok packet_addr_source [of "tuntap_tap_mode w" pt True False] by (simp_all add: sends_ok_def)
    from deliver_local_exact [OF i pt(1) r(2) this un] show ?thesis
      using To_device local r(1) tun by (fastforce simp: routed_as_specified_def route_packet_def)
  next
    case (To_peer t)
    then have f: "\<not> is_local_route r w" "find_index (holds_route (wire_key w pt False)) (peers w) = Some t"
      by (simp_all add: packet_fate_def loc Let_def split: if_splits option.splits)
    obtain w' where s: "send_data_to_peer ssl FRAME_HDR_NETPACKET ?pk ?n True t w = Some w'" "sends_only w w'"
        "wire w' = (wire w)(sockfd (peers w ! t) :=
           wire w (sockfd (peers w ! t)) @ frame_for ssl FRAME_HDR_NETPACKET pt w t)"
      using send_ok [OF ok n find_index_SomeD(1) [OF f(2)]] by blast
    have "tun_out w' = tun_out w" using s(2) by (rule sends_only_fields)
    with s To_peer f r(1) peer show ?thesis
      by (simp add: routed_as_specified_def route_packet_def)
  next
    case To_all
    then have f: "\<not> is_local_route r w" "find_index (holds_route (wire_key w pt False)) (peers w) = None"
      by (simp_all add: packet_fate_def loc Let_def split: if_splits option.splits)
    from flood_exact [OF ok n To_all] show ?thesis
      using f r(1) peer un tun by (fastforce simp: route_packet_def mem_read_def)
  qed
qed

lemma process_netpacket_exact:
  assumes i: "i < length (peers w)" and c: "dec_ctx (peers w ! i) = Ptr c"
    and run: "evp_dec_run ssl c (take (unat len) data) = Some (c', pt)"
    and len: "unat len < 2 ^ 31" "unat len \<le> length data"
    and pt: "HEADER_SPAN \<le> length pt" "length pt < FRAME_PAYLOAD_MAXSIZE"
    and st: "wf_stack st" and ip: "packet_addr (tuntap_tap_mode w) pt False \<noteq> None"
    and ok: "sends_ok ssl pt w"
  shows "\<exists>w'. process_netpacket ssl st i data len w = Some w' \<and> routed_as_specified ssl i pt w w'"
proof -
  let ?w1 = "dec_used i c' w"
  have i1: "i < length (peers ?w1)" using i by (simp add: frame_simps)
  have fits: "length pt \<le> PACKET_DATA_SIZE" using pt(2) by (simp add: packet_sizes)
  have ip1: "packet_addr (tuntap_tap_mode ?w1) pt False \<noteq> None" using ip by (simp add: frame_simps)
  obtain w' where w': "route_packet ssl st i (pt @ map (stale_bytes st) [length pt..<PACKET_DATA_SIZE])
      (of_nat (length pt)) ?w1 = Some w'" "routed_as_specified ssl i pt ?w1 w'"
    using route_packet_exact [OF i1 pt st ip1 sends_ok_dec_used [OF i ok]] by blast
  have holds: "holds_route k (peers ?w1 ! j) = holds_route k (peers w ! j)" for k j
    using i by (simp add: dec_used_nth holds_route_def)
  have idx: "find_index (holds_route k) (peers ?w1) = find_index (holds_route k) (peers w)" for k
    by (rule find_index_cong) (simp_all add: dec_used_fields holds)
  have ex: "(\<exists>p \<in> set (peers ?w1). holds_route k p) \<longleftrightarrow> (\<exists>p \<in> set (peers w). holds_route k p)" for k
    using idx [of k] by (metis find_index_None)
  have key: "wire_key ?w1 pt src = wire_key w pt src" for src
    by (simp add: wire_key_def dec_used_fields)
  have fate: "packet_fate ?w1 pt = packet_fate w pt"
    by (simp only: packet_fate_def key idx dec_used_fields)
  have peer: "sockfd (peers ?w1 ! j) = sockfd (peers w ! j)" "alive (peers ?w1 ! j) = alive (peers w ! j)"
    "peer_routes (peers ?w1 ! j) = peer_routes (peers w ! j)" for j
    using i by (simp_all add: dec_used_nth)
  have "routed_as_specified ssl i pt w w'"
    using w'(2)
    by (simp only: routed_as_specified_def fate key ex peer dec_used_fields dec_used_frame_for [OF i])
  then show ?thesis
    using process_netpacket_run [OF i c run len fits, of st] w'(1) by auto
qed

section \<open>A small concrete network, for the witnesses\<close>

definition demo_peer :: "(bool, byte list) peer" where
  "demo_peer = initialize_peer\<lparr>sockfd := 4, alive := True, authenticated := True, enc_ctx := Ptr [], dec_ctx := Ptr []\<rparr>"

definition demo_world :: "(bool, byte list) peer_state" where
  "demo_world = peer_state_init\<lparr>if_fd := 7, peers := [demo_peer]\<rparr>"

definition demo_packet :: "byte list" where
  "demo_packet = [0, 0, 8, 0] @ replicate 12 0 @ [10, 0, 0, 1] @ [10, 0, 0, 2] @ replicate 20 0"

definition demo_stack :: stack where
  "demo_stack = \<lparr>stale_route = \<lparr>mac = True, ip4 = True, addr = replicate 16 7\<rparr>, stale_bytes = (\<lambda>_. 9)\<rparr>"

lemma demo_world_fields:
  "peers demo_world = [demo_peer]" "if_fd demo_world = 7" "if_tap demo_world = False" "host_le demo_world"
  "local_routes demo_world = []" "wire demo_world = (\<lambda>_. [])" "tun_out demo_world = []" "mallocs demo_world = []"
  "send_rets demo_world = []" "write_rets demo_world = []" "rng demo_world = 0" "trusted_keys demo_world = []"
  by (simp_all add: demo_world_def peer_state_init_def key_init_def iface_init_def cfg_init_def log_init_def
      os_init_def os.defs log_state.defs cfg_state.defs iface_state.defs key_state.defs)

lemma demo_peer_fields:
  "sockfd demo_peer = 4" "alive demo_peer" "authenticated demo_peer" "enc_ctx demo_peer = Ptr []"
  "dec_ctx demo_peer = Ptr []" "peer_routes demo_peer = []"
  by (simp_all add: demo_peer_def initialize_peer_def)

lemma demo_packet_facts:
  "length demo_packet = 44" "packet_addr False demo_packet False = Some (False, True, [10, 0, 0, 2])"
  by (simp_all add: demo_packet_def packet_addr_def be_u16_def ETH_P_IP_def)

lemma demo_stack_wf: "wf_stack demo_stack"
  by (simp add: demo_stack_def wf_route_def)

lemma demo_sends_ok: "sends_ok toy_ssl demo_packet demo_world"
  by (simp add: sends_ok_def demo_world_fields send_good_def can_encrypt_def demo_peer_fields toy_enc_run
      demo_packet_facts toy_pad_def frame_sizes)

lemma demo_fate: "packet_fate demo_world demo_packet = To_all"
  by (simp add: packet_fate_def demo_world_fields route_keys_def holds_route_def demo_peer_fields Let_def)

text \<open>The frame of an encrypted packet, received whatever its segmentation.\<close>

lemma receive_netpacket:
  assumes "length (rx_buf r) = FRAME_MAXSIZE" and "chunks_ok (rx_in r)" and "length ct \<le> FRAME_PAYLOAD_MAXSIZE"
    and cat: "concat (rx_in r) = frame_header le FRAME_HDR_NETPACKET (of_nat (length ct)) @ ct"
  obtains r' where "receive_frame le r = Some (5 + int (length ct), r')" and "rx_in r' = []"
    and "length (rx_buf r') = FRAME_MAXSIZE" and "rx_type r' = FRAME_HDR_NETPACKET"
    and "unat (rx_len r') = length ct" and "take (unat (rx_len r')) (drop 5 (rx_buf r')) = ct"
proof -
  define m where "m = (of_nat (length ct) :: u32)"
  have um: "unat m = length ct" using assms(3) by (simp add: m_def unat_of_nat frame_sizes)
  have dec: "decode_frame_header le (concat (rx_in r)) = Some (FRAME_HDR_NETPACKET, m)"
    using cat by (simp add: m_def)
  have nxt: "next_frame (decode_frame_header le) (concat (rx_in r)) = Some (Frame FRAME_HDR_NETPACKET ct, [])"
    using cat um by (simp add: next_frame_def m_def)
  obtain r' where r': "receive_frame le r = Some (5 + int (length ct), r')"
      "length (rx_buf r') = FRAME_MAXSIZE" "rx_type r' = FRAME_HDR_NETPACKET" "unat (rx_len r') = length ct"
      "take (length ct) (drop 5 (rx_buf r')) = ct" "concat (rx_in r') = []" "chunks_ok (rx_in r')"
    using receive_frame_spec [OF assms(1,2), of le] dec nxt assms(3) um by auto
  moreover have "rx_in r' = []" using r'(6,7) by (cases "rx_in r'") auto
  ultimately show thesis using that by simp
qed

lemma process_frame_netpacket:
  assumes "j < length (peers w)" and "authenticated (peers w ! j)" and "rx_type r = FRAME_HDR_NETPACKET"
    and "0 < unat (rx_len r)" and "process_netpacket ssl st j (drop 5 (rx_buf r)) (rx_len r) w = Some w'"
  shows "process_frame ssl st j (rx_buf r) (rx_type r) (rx_len r) w = Some (0, w')"
  using assms by (auto simp: process_frame_def frame_types FRAME_HEADER_SIZE_def)

section \<open>Properties\<close>

text \<open>C10. A decrypted packet goes exactly where the tables say. If its destination is a local address it is
  written to the device, and the sender's address is added to the sending peer's routes unless a
  connected peer already has it; if a connected peer has the destination, that peer alone gets it,
  encrypted for it; otherwise the device gets it and every connected, authenticated peer but the
  sender gets one frame. What the uninitialised stack variables held plays no part.\<close>

theorem netpacket_routing:
  assumes "i < length (peers w)" and "dec_ctx (peers w ! i) = Ptr c"
    and "evp_dec_run ssl c (take (unat len) data) = Some (c', pt)"
    and "unat len < 2 ^ 31" and "unat len \<le> length data"
    and "HEADER_SPAN \<le> length pt" and "length pt < FRAME_PAYLOAD_MAXSIZE"
    and "wf_stack st" and "packet_addr (tuntap_tap_mode w) pt False \<noteq> None" and "sends_ok ssl pt w"
  shows "\<exists>w'. process_netpacket ssl st i data len w = Some w' \<and> routed_as_specified ssl i pt w w'"
  using assms by (rule process_netpacket_exact)

theorem netpacket_routing_witness:
  "\<exists>w'. process_netpacket toy_ssl demo_stack 0 (demo_packet @ toy_pad demo_packet) 48 demo_world = Some w' \<and>
     tun_out w' = [demo_packet] \<and> wire w' 4 = []"
proof -
  have d: "dec_ctx (peers demo_world ! 0) = Ptr []" by (simp add: demo_world_fields demo_peer_fields)
  have u: "unat (48 :: u32) = 48" by simp
  have tk: "take (unat (48 :: u32)) (demo_packet @ toy_pad demo_packet) = demo_packet @ toy_pad demo_packet"
    unfolding u by (simp add: demo_packet_facts toy_pad_def)
  have run: "evp_dec_run toy_ssl [] (take (unat (48 :: u32)) (demo_packet @ toy_pad demo_packet)) = Some ([], demo_packet)"
    by (simp only: tk toy_dec_run)
  have len: "unat (48 :: u32) < 2 ^ 31" "unat (48 :: u32) \<le> length (demo_packet @ toy_pad demo_packet)"
    unfolding u by (simp_all add: demo_packet_facts toy_pad_def)
  have pt: "HEADER_SPAN \<le> length demo_packet" "length demo_packet < FRAME_PAYLOAD_MAXSIZE"
    by (simp_all add: demo_packet_facts HEADER_SPAN_def frame_sizes)
  have ip: "packet_addr (tuntap_tap_mode demo_world) demo_packet False \<noteq> None"
    by (simp add: demo_world_fields tuntap_tap_mode_def demo_packet_facts)
  have i: "0 < length (peers demo_world)" by (simp add: demo_world_fields)
  show ?thesis
    using netpacket_routing [OF i d run len pt demo_stack_wf ip demo_sends_ok]
    by (auto simp: routed_as_specified_def demo_fate demo_world_fields demo_peer_fields)
qed

text \<open>C14. Handling a frame of legal size is memory safe for every type, content and sender, and contained:
  no peer changes but for the state of cipher contexts and one route added to the sender, and that
  only if no connected peer had it. Only a close frame ends the connection; and unless the sender is
  authenticated and the frame is a packet, nothing changes at all.\<close>

theorem process_frame_contained:
  assumes "cbc_sizes ssl" and "i < length (peers w)" and "list_all ctxs_ok (peers w)"
    and "wf_stack st" and "length buf = FRAME_MAXSIZE" and "unat len \<le> FRAME_PAYLOAD_MAXSIZE"
  shows "\<exists>r w'. process_frame ssl st i buf t len w = Some (r, w') \<and> packet_only i w w' \<and> learns i w w' \<and>
           (r = -1 \<longleftrightarrow> t = FRAME_HDR_CLOSE) \<and>
           (t \<noteq> FRAME_HDR_NETPACKET \<or> \<not> authenticated (peers w ! i) \<longrightarrow> w' = w)"
  using assms by (rule process_frame_safe)

theorem process_frame_contained_witness:
  "\<exists>w'. process_frame toy_ssl demo_stack 0 (replicate 2053 0) 8 16 demo_world = Some (0, w') \<and>
     packet_only 0 demo_world w'"
proof -
  have i: "0 < length (peers demo_world)" and c: "list_all ctxs_ok (peers demo_world)"
    by (simp_all add: demo_world_fields ctxs_ok_def demo_peer_fields)
  have b: "length (replicate 2053 (0 :: byte)) = FRAME_MAXSIZE" "unat (16 :: u32) \<le> FRAME_PAYLOAD_MAXSIZE"
    by (simp_all add: frame_sizes)
  have r: "r = 0 \<or> r = -1" if "process_frame toy_ssl demo_stack 0 (replicate 2053 0) 8 16 demo_world = Some (r, w')"
    for r w'
    using that by (auto simp: process_frame_def Let_def split: if_splits Option.bind_splits)
  show ?thesis
    using process_frame_contained [OF toy_cbc_sizes i c demo_stack_wf b, of 8] r
    by (auto simp: FRAME_HDR_CLOSE_def)
qed

text \<open>An authenticated peer that announces a payload of more than 2048 bytes makes the daemon read past
  its frame buffer: \<open>receive_frame\<close> answers 0, which its callers do not take for an error, and the
  packet handler then decrypts the announced number of bytes.\<close>

theorem oversized_frame_overread:
  assumes "length (rx_buf r) = FRAME_MAXSIZE" and "chunks_ok (rx_in r)"
    and "decode_frame_header le (concat (rx_in r)) = Some (FRAME_HDR_NETPACKET, n)"
    and "FRAME_PAYLOAD_MAXSIZE < unat n" and "unat n < 2 ^ 31"
    and "i < length (peers w)" and "authenticated (peers w ! i)" and "dec_ctx (peers w ! i) = Ptr c"
    and "evp_dec_reset ssl c \<noteq> None"
  shows "\<exists>r'. receive_frame le r = Some (0, r') \<and>
           process_frame ssl st i (rx_buf r') (rx_type r') (rx_len r') w = None"
proof -
  obtain r' where r': "receive_frame le r = Some (0, r')" "length (rx_buf r') = FRAME_MAXSIZE"
      "rx_type r' = FRAME_HDR_NETPACKET" "rx_len r' = n"
    using receive_frame_spec [OF assms(1,2), of le] assms(3,4) by auto
  have "0 < int (unat n)" using assms(4) by linarith
  then have pos: "0 < sint n" by (simp only: sint_small [OF assms(5)])
  have nz: "n \<noteq> 0" using assms(4) by auto
  have "read_inl (drop FRAME_HEADER_SIZE (rx_buf r')) n = None"
    using pos assms(4) r'(2) by (simp add: read_inl_def mem_read_None frame_sizes)
  with assms(6-9) r' nz show ?thesis
    by (auto simp: process_frame_def process_netpacket_def aes_decrypt_def frame_types)
qed

theorem oversized_frame_overread_witness:
  "\<exists>r'. receive_frame True \<lparr>rx_buf = replicate 2053 0, rx_type = 0, rx_len = 0, rx_in = [[8, 1, 8, 0, 0, 1]]\<rparr>
          = Some (0, r') \<and>
        process_frame toy_ssl demo_stack 0 (rx_buf r') (rx_type r') (rx_len r') demo_world = None"
proof -
  let ?r = "\<lparr>rx_buf = replicate 2053 0, rx_type = 0, rx_len = 0, rx_in = [[8, 1, 8, 0, 0, 1 :: byte]]\<rparr>"
  have b: "length (rx_buf ?r) = FRAME_MAXSIZE" "chunks_ok (rx_in ?r)" by (simp_all add: frame_sizes)
  have d: "decode_frame_header True (concat (rx_in ?r)) = Some (FRAME_HDR_NETPACKET, 2049)"
    by (simp add: decode_frame_header_def read_uint32_def join32_def FRAME_HDR_NETPACKET_def)
  have u: "unat (2049 :: u32) = 2049" by simp
  have n: "FRAME_PAYLOAD_MAXSIZE < unat (2049 :: u32)" "unat (2049 :: u32) < 2 ^ 31"
    unfolding u by (simp_all add: frame_sizes)
  have w: "0 < length (peers demo_world)" "authenticated (peers demo_world ! 0)"
    "dec_ctx (peers demo_world ! 0) = Ptr []" "evp_dec_reset toy_ssl [] \<noteq> None"
    by (simp_all add: demo_world_fields demo_peer_fields toy_ssl_def)
  show ?thesis using oversized_frame_overread [OF b d n w] by blast
qed

text \<open>End to end: a packet that one daemon sends to a connected, authenticated peer is routed by the
  other daemon as specified. It is encrypted, framed, cut into sends by one kernel and into chunks by
  the other, received, decrypted with the context of the same key and IV, and handled exactly like
  the plain packet; the connection is left at a frame boundary.\<close>

theorem packet_end_to_end:
  assumes "cbc_sizes ssl" and "cbc_pairs ssl R" and "R ce cd"
    and "i < length (peers wa)" and "alive (peers wa ! i)" and "authenticated (peers wa ! i)"
    and "enc_ctx (peers wa ! i) = Ptr ce" and "send_good wa"
    and "HEADER_SPAN \<le> length pt" and "length pt < FRAME_PAYLOAD_MAXSIZE"
    and "send_data_to_peer ssl FRAME_HDR_NETPACKET pt (of_nat (length pt)) True i wa = Some wa'"
    and "concat (rx_in r) = drop (length (wire wa (sockfd (peers wa ! i)))) (wire wa' (sockfd (peers wa ! i)))"
    and "length (rx_buf r) = FRAME_MAXSIZE" and "chunks_ok (rx_in r)" and "host_le wb = host_le wa"
    and "j < length (peers wb)" and "authenticated (peers wb ! j)" and "dec_ctx (peers wb ! j) = Ptr cd"
    and "wf_stack st" and "packet_addr (tuntap_tap_mode wb) pt False \<noteq> None" and "sends_ok ssl pt wb"
  shows "\<exists>r' wb'. receive_frame (host_le wb) r = Some (5 + int (cbc_padded (length pt)), r') \<and> rx_in r' = [] \<and>
           process_frame ssl st j (rx_buf r') (rx_type r') (rx_len r') wb = Some (0, wb') \<and>
           routed_as_specified ssl j pt wb wb'"
proof -
  let ?n = "of_nat (length pt) :: u32" and ?s = "sockfd (peers wa ! i)"
  have un: "unat ?n = length pt" using assms(10) by (simp add: unat_of_nat frame_sizes)
  have small: "length pt < 2 ^ 31" using assms(10) by (simp add: frame_sizes)
  obtain ce' cd' ct where run: "evp_enc_run ssl ce pt = Some (ce', ct)" "evp_dec_run ssl cd ct = Some (cd', pt)"
    by (rule cbc_pairsD [OF assms(2,3) small])
  have lct: "length ct = cbc_padded (length pt)" using enc_run_length [OF assms(1) run(1)] .
  have room: "cbc_padded (length pt) \<le> FRAME_PAYLOAD_MAXSIZE"
    using assms(10) by (simp add: cbc_padded_def frame_sizes)
  have ce: "can_encrypt ssl (take (unat ?n) pt) (peers wa ! i)"
    using assms(7) run(1) lct room un by (simp add: can_encrypt_def)
  have "unat ?n \<le> length pt" "unat ?n < 2 ^ 31" using un small by simp_all
  from send_encrypted [OF assms(4) this ce assms(8), of FRAME_HDR_NETPACKET] assms(11) un
  have wire: "wire wa' ?s = wire wa ?s @ frame_for ssl FRAME_HDR_NETPACKET pt wa i" by auto
  have cat: "concat (rx_in r) = frame_header (host_le wb) FRAME_HDR_NETPACKET (of_nat (length ct)) @ ct"
    using assms(5-7,12,15) wire run(1) by (simp add: frame_for_def frame_bytes_def)
  have fits: "length ct \<le> FRAME_PAYLOAD_MAXSIZE" using lct room by simp
  obtain r' where r': "receive_frame (host_le wb) r = Some (5 + int (length ct), r')" "rx_in r' = []"
      "length (rx_buf r') = FRAME_MAXSIZE" "rx_type r' = FRAME_HDR_NETPACKET" "unat (rx_len r') = length ct"
      "take (unat (rx_len r')) (drop 5 (rx_buf r')) = ct"
    using assms(13,14) fits cat by (rule receive_netpacket)
  have dl: "unat (rx_len r') < 2 ^ 31" "unat (rx_len r') \<le> length (drop 5 (rx_buf r'))"
    using r'(3,5) fits by (simp_all add: frame_sizes)
  have "evp_dec_run ssl cd (take (unat (rx_len r')) (drop 5 (rx_buf r'))) = Some (cd', pt)"
    using run(2) r'(6) by simp
  from process_netpacket_exact [OF assms(16,18) this dl assms(9,10,19-21)]
  obtain wb' where wb': "process_netpacket ssl st j (drop 5 (rx_buf r')) (rx_len r') wb = Some wb'"
      "routed_as_specified ssl j pt wb wb'" by blast
  have "0 < unat (rx_len r')" using r'(5) lct by (simp add: cbc_padded_def)
  then have "process_frame ssl st j (rx_buf r') (rx_type r') (rx_len r') wb = Some (0, wb')"
    using process_frame_netpacket [OF assms(16,17) r'(4) _ wb'(1)] by simp
  with r'(1,2) wb'(2) lct show ?thesis by auto
qed

theorem packet_end_to_end_witness:
  "\<exists>wa' r' wb'.
     send_data_to_peer toy_ssl FRAME_HDR_NETPACKET demo_packet 44 True 0 demo_world = Some wa' \<and>
     receive_frame True \<lparr>rx_buf = replicate 2053 0, rx_type = 0, rx_len = 0, rx_in = [wire wa' 4]\<rparr> = Some (53, r') \<and>
     process_frame toy_ssl demo_stack 0 (rx_buf r') (rx_type r') (rx_len r') demo_world = Some (0, wb') \<and>
     tun_out wb' = [demo_packet]"
proof -
  have i: "0 < length (peers demo_world)" by (simp add: demo_world_fields)
  have p: "alive (peers demo_world ! 0)" "authenticated (peers demo_world ! 0)" "enc_ctx (peers demo_world ! 0) = Ptr []"
    "dec_ctx (peers demo_world ! 0) = Ptr []" "sockfd (peers demo_world ! 0) = 4" "send_good demo_world"
    by (simp_all add: demo_world_fields demo_peer_fields send_good_def)
  have pt: "HEADER_SPAN \<le> length demo_packet" "length demo_packet < FRAME_PAYLOAD_MAXSIZE"
    by (simp_all add: demo_packet_facts HEADER_SPAN_def frame_sizes)
  have n: "(of_nat (length demo_packet) :: u32) = 44" by (simp add: demo_packet_facts)
  have len: "unat (of_nat (length demo_packet) :: u32) = length demo_packet"
    by (simp add: unat_of_nat demo_packet_facts)
  have "can_encrypt toy_ssl demo_packet (peers demo_world ! 0)"
    using demo_sends_ok i by (simp add: sends_ok_def)
  with send_encrypted [OF i, of "of_nat (length demo_packet)" demo_packet toy_ssl FRAME_HDR_NETPACKET] p(6) pt(2)
  obtain wa' where s: "send_data_to_peer toy_ssl FRAME_HDR_NETPACKET demo_packet (of_nat (length demo_packet)) True 0
      demo_world = Some wa'"
    "wire wa' 4 = frame_for toy_ssl FRAME_HDR_NETPACKET demo_packet demo_world 0"
    by (auto simp: len frame_sizes demo_world_fields demo_peer_fields)
  let ?r = "\<lparr>rx_buf = replicate 2053 0, rx_type = 0, rx_len = 0, rx_in = [wire wa' 4]\<rparr>"
  have "wire wa' 4 \<noteq> []" using p s(2) by (simp add: frame_for_def toy_enc_run frame_bytes_def frame_header_def)
  then have r: "concat (rx_in ?r) =
      drop (length (wire demo_world (sockfd (peers demo_world ! 0)))) (wire wa' (sockfd (peers demo_world ! 0)))"
    "length (rx_buf ?r) = FRAME_MAXSIZE" "chunks_ok (rx_in ?r)"
    by (simp_all add: demo_peer_fields demo_world_fields frame_sizes)
  have ip: "packet_addr (tuntap_tap_mode demo_world) demo_packet False \<noteq> None"
    by (simp add: demo_world_fields tuntap_tap_mode_def demo_packet_facts)
  show ?thesis
    using packet_end_to_end [OF toy_cbc_sizes toy_cbc_pairs TrueI i p(1-3,6) pt s(1) r refl i p(2,4)
        demo_stack_wf ip demo_sends_ok] s(1)
    unfolding n
    by (auto simp: routed_as_specified_def demo_fate demo_world_fields demo_packet_facts cbc_padded_def)
qed

end
