(* ===== verification/Handshake.thy ===== *)
theory Handshake
  imports Peer_Net
begin

text \<open>
  \<open>src/peer_net.c\<close>, the handshake: \<open>authenticate_peer\<close>, and \<open>peer_receive\<close>, the thread that runs it
  and then handles frames until the connection ends. The connection and its buffer are an \<open>rx\<close>
  record; the process state is threaded through.

  Both sides send their public key in an AUTH frame and check the other's against the trusted keys.
  Then the server makes an AES key and an IV and sends them, each encrypted with the client's key,
  in two more AUTH frames.
\<close>

definition AES_KEY_SIZE :: nat where "AES_KEY_SIZE = 32"
definition AES_IV_SIZE :: nat where "AES_IV_SIZE = 16"

lemmas secret_sizes = AES_KEY_SIZE_def AES_IV_SIZE_def

definition rand_bytes :: "('k, 'c) openssl \<Rightarrow> nat \<Rightarrow> 'a os_scheme \<Rightarrow> byte list option \<times> 'a os_scheme" where
  "rand_bytes ssl n w = (rand_priv_bytes ssl (rng w) n, w\<lparr>rng := rng w + 1\<rparr>)"

text \<open>The daemon's own key, as text, to the peer; \<open>False\<close> when there is no memory for it.\<close>

definition send_public_key ::
  "('k, 'c) openssl \<Rightarrow> nat \<Rightarrow> ('k, 'c, 'a) peer_state_scheme \<Rightarrow> (bool \<times> ('k, 'c, 'a) peer_state_scheme) option"
  where
  "send_public_key ssl i w =
     (case malloc w of
        (False, w1) \<Rightarrow> Some (False, w1)
      | (True, w1) \<Rightarrow>
          do {
            key \<leftarrow> cderef (get_daemon_pubkey w1);
            let pem_key = pem_write_pub ssl key;
            w2 \<leftarrow> send_data_to_peer ssl FRAME_HDR_AUTH pem_key (of_nat (length pem_key)) False i w1;
            Some (True, w2)
          })"

text \<open>
  The other side's key: received, parsed, stored in the peer, looked up. Only a negative result of
  \<open>receive_frame\<close> is an error.
\<close>

definition receive_public_key ::
  "('k, 'c) openssl \<Rightarrow> nat \<Rightarrow> rx \<Rightarrow> ('k, 'c, 'a) peer_state_scheme
     \<Rightarrow> (bool \<times> rx \<times> ('k, 'c, 'a) peer_state_scheme) option" where
  "receive_public_key ssl i r w =
     do {
       (ret, r1) \<leftarrow> receive_frame (host_le w) (r\<lparr>rx_type := 0, rx_len := 0\<rparr>);
       if ret < 0 then Some (False, r1, w)
       else if rx_type r1 \<noteq> FRAME_HDR_AUTH \<or> rx_len r1 = 0 then Some (False, r1, w)
       else
         do {
           (key, w1) \<leftarrow> load_rsa_key_from_string ssl (drop FRAME_HEADER_SIZE (rx_buf r1)) (rx_len r1) True w;
           let w2 = set_peer i ((peers w1 ! i)\<lparr>pubkey := of_opt key\<rparr>) w1;
           case key of
             None \<Rightarrow> Some (False, r1, w2)
           | Some k \<Rightarrow> (case is_trusted_key ssl k w2 of (b, w3) \<Rightarrow> Some (b, r1, w3))
         }
     }"

text \<open>One secret of the client's side: a frame that decrypts to exactly \<open>n\<close> bytes.\<close>

definition receive_secret ::
  "('k, 'c) openssl \<Rightarrow> 'k \<Rightarrow> nat \<Rightarrow> byte list \<Rightarrow> bool \<Rightarrow> rx \<Rightarrow> (byte list option \<times> byte list \<times> rx) option" where
  "receive_secret ssl privkey n dec_buf le r =
     do {
       (ret, r1) \<leftarrow> receive_frame le r;
       if ret < 0 then Some (None, dec_buf, r1)
       else if rx_type r1 \<noteq> FRAME_HDR_AUTH \<or> rx_len r1 = 0 \<or> rx_len r1 > of_nat (length dec_buf)
       then Some (None, dec_buf, r1)
       else
         do {
           (dec_len, dec_buf') \<leftarrow>
             rsa_decrypt ssl (drop FRAME_HEADER_SIZE (rx_buf r1)) (rx_len r1) dec_buf (Some privkey);
           if dec_len \<noteq> int n then Some (None, dec_buf', r1)
           else do { s \<leftarrow> mem_read dec_buf' 0 n; Some (Some s, dec_buf', r1) }
         }
     }"

definition client_secrets ::
  "('k, 'c) openssl \<Rightarrow> rx \<Rightarrow> ('k, 'c, 'a) peer_state_scheme \<Rightarrow> ((byte list \<times> byte list) option \<times> rx) option"
  where
  "client_secrets ssl r w =
     do {
       privkey \<leftarrow> cderef (get_daemon_privkey w);
       let dec_buf = replicate (rsa_size ssl privkey) 0;
       (key, dec_buf, r1) \<leftarrow> receive_secret ssl privkey AES_KEY_SIZE dec_buf (host_le w) r;
       case key of
         None \<Rightarrow> Some (None, r1)
       | Some aes_key \<Rightarrow>
           do {
             (iv, dec_buf, r2) \<leftarrow> receive_secret ssl privkey AES_IV_SIZE dec_buf (host_le w) r1;
             Some (map_option (\<lambda>aes_iv. (aes_key, aes_iv)) iv, r2)
           }
     }"

text \<open>One secret of the server's side: encrypted into the frame buffer and sent from there.\<close>

definition send_secret ::
  "('k, 'c) openssl \<Rightarrow> byte list \<Rightarrow> nat \<Rightarrow> byte list \<Rightarrow> ('k, 'c, 'a) peer_state_scheme
     \<Rightarrow> (bool \<times> byte list \<times> ('k, 'c, 'a) peer_state_scheme) option" where
  "send_secret ssl s i buf w =
     do {
       (enc_len, buf') \<leftarrow>
         rsa_encrypt ssl (rng w) s (of_nat (length s)) buf
           (case pubkey (peers w ! i) of Ptr k \<Rightarrow> Some k | _ \<Rightarrow> None);
       let w1 = w\<lparr>rng := rng w + 1\<rparr>;
       if enc_len \<le> 0 then Some (False, buf', w1)
       else do { w2 \<leftarrow> send_data_to_peer ssl FRAME_HDR_AUTH buf' (of_int enc_len) False i w1; Some (True, buf', w2) }
     }"

definition server_secrets ::
  "('k, 'c) openssl \<Rightarrow> nat \<Rightarrow> rx \<Rightarrow> ('k, 'c, 'a) peer_state_scheme
     \<Rightarrow> ((byte list \<times> byte list) option \<times> rx \<times> ('k, 'c, 'a) peer_state_scheme) option" where
  "server_secrets ssl i r w =
     (case rand_bytes ssl AES_KEY_SIZE w of
        (None, w1) \<Rightarrow> Some (None, r, w1)
      | (Some aes_key, w1) \<Rightarrow>
          (case rand_bytes ssl AES_IV_SIZE w1 of
             (None, w2) \<Rightarrow> Some (None, r, w2)
           | (Some aes_iv, w2) \<Rightarrow>
               do {
                 (ok, buf, w3) \<leftarrow> send_secret ssl aes_key i (rx_buf r) w2;
                 if \<not> ok then Some (None, r\<lparr>rx_buf := buf\<rparr>, w3)
                 else
                   do {
                     (ok, buf, w4) \<leftarrow> send_secret ssl aes_iv i buf w3;
                     Some (if ok then Some (aes_key, aes_iv) else None, r\<lparr>rx_buf := buf\<rparr>, w4)
                   }
               }))"

definition setup_contexts ::
  "('k, 'c) openssl \<Rightarrow> byte list \<Rightarrow> byte list \<Rightarrow> nat \<Rightarrow> ('k, 'c, 'a) peer_state_scheme
     \<Rightarrow> bool \<times> ('k, 'c, 'a) peer_state_scheme" where
  "setup_contexts ssl aes_key aes_iv i w =
     (let (enc, w1) = aes_init_ctx ssl aes_key aes_iv True w;
          w2 = set_peer i ((peers w1 ! i)\<lparr>enc_ctx := of_opt enc\<rparr>) w1;
          (dec, w3) = aes_init_ctx ssl aes_key aes_iv False w2;
          w4 = set_peer i ((peers w3 ! i)\<lparr>dec_ctx := of_opt dec\<rparr>) w3
      in if enc = None \<or> dec = None then (False, w4)
         else (True, set_peer i ((peers w4 ! i)\<lparr>authenticated := True\<rparr>) w4))"

text \<open>From the trusted key to the verdict.\<close>

definition agree_on_secrets ::
  "('k, 'c) openssl \<Rightarrow> nat \<Rightarrow> rx \<Rightarrow> ('k, 'c, 'a) peer_state_scheme
     \<Rightarrow> (bool \<times> rx \<times> ('k, 'c, 'a) peer_state_scheme) option" where
  "agree_on_secrets ssl i r w =
     do {
       (secrets, r1, w1) \<leftarrow>
         (if is_client (peers w ! i)
          then do { (s, r1) \<leftarrow> client_secrets ssl r w; Some (s, r1, w) }
          else server_secrets ssl i r w);
       case secrets of
         None \<Rightarrow> Some (False, r1, w1)
       | Some (aes_key, aes_iv) \<Rightarrow>
           (case setup_contexts ssl aes_key aes_iv i w1 of (b, w2) \<Rightarrow> Some (b, r1, w2))
     }"

definition authenticate_peer ::
  "('k, 'c) openssl \<Rightarrow> nat \<Rightarrow> rx \<Rightarrow> ('k, 'c, 'a) peer_state_scheme
     \<Rightarrow> (bool \<times> rx \<times> ('k, 'c, 'a) peer_state_scheme) option" where
  "authenticate_peer ssl i r w =
     (if \<not> i < length (peers w) then None
      else
        do {
          (ok, w1) \<leftarrow> send_public_key ssl i w;
          if \<not> ok then Some (False, r, w1)
          else
            do {
              (ok, r1, w2) \<leftarrow> receive_public_key ssl i r w1;
              if \<not> ok then Some (False, r1, w2) else agree_on_secrets ssl i r1 w2
            }
        })"

section \<open>The thread of a connection\<close>

lemma recv_loop_consumes:
  "recv_loop base goal t buf cs = Some (ok, buf', cs') \<Longrightarrow>
     (if ok then length (concat cs) = (goal - t) + length (concat cs')
      else length (concat cs') \<le> length (concat cs))"
proof (induction base goal t buf cs rule: recv_loop.induct)
  case (1 base goal t buf cs)
  show ?case
  proof (cases "t < goal")
    case False
    with "1.prems" show ?thesis by simp
  next
    case True
    obtain bs cs1 where r: "recv (goal - t) cs = (bs, cs1)" by (cases "recv (goal - t) cs")
    note rr = recv_result [OF r]
    show ?thesis
    proof (cases "bs = []")
      case True
      with "1.prems" \<open>t < goal\<close> r rr show ?thesis by (simp add: recv_loop_step)
    next
      case False
      with "1.prems" True r obtain b1 where w: "mem_write buf (base + t) bs = Some b1"
        and rec: "recv_loop base goal (t + length bs) b1 cs1 = Some (ok, buf', cs')"
        by (auto simp: recv_loop_step split: Option.bind_splits)
      from "1.IH" [OF True r [symmetric] False w rec] rr True show ?thesis
        by (auto split: if_splits)
    qed
  qed
qed

lemma receive_frame_consumes:
  assumes "receive_frame le r = Some (ret, r')" and "0 \<le> ret"
  shows "length (concat (rx_in r')) < length (concat (rx_in r))"
proof -
  obtain ok buf cs where h: "recv_loop 0 FRAME_HEADER_SIZE 0 (rx_buf r) (rx_in r) = Some (ok, buf, cs)"
    using assms(1) by (auto simp: receive_frame_def split: Option.bind_splits)
  with assms have ok by (cases ok) (auto simp: receive_frame_def)
  obtain t n where d: "decode_frame_header le buf = Some (t, n)"
    using assms(1) h \<open>ok\<close> by (auto simp: receive_frame_def split: Option.bind_splits)
  obtain bs cs1 where rc: "recv FRAME_MAXSIZE cs = (bs, cs1)" by (cases "recv FRAME_MAXSIZE cs")
  consider "unat n > FRAME_PAYLOAD_MAXSIZE" | "unat n = 0" | "unat n > 0" "unat n \<le> FRAME_PAYLOAD_MAXSIZE"
    by linarith
  then have "length (concat (rx_in r')) \<le> length (concat cs)"
  proof cases
    case 1
    with assms(1) h d rc \<open>ok\<close> have "rx_in r' = cs1"
      by (auto simp: receive_frame_def split: Option.bind_splits)
    with recv_result(2) [OF rc] show ?thesis by simp
  next
    case 2
    with assms(1) h d \<open>ok\<close> show ?thesis by (auto simp: receive_frame_def frame_sizes)
  next
    case 3
    with assms(1) h d \<open>ok\<close> obtain ok' buf' cs' where
      l: "recv_loop FRAME_HEADER_SIZE (unat n) 0 buf cs = Some (ok', buf', cs')" and "rx_in r' = cs'"
      by (auto simp: receive_frame_def Let_def split: Option.bind_splits if_splits)
    with recv_loop_consumes [OF l] show ?thesis by (auto split: if_splits)
  qed
  then show ?thesis using recv_loop_consumes [OF h] \<open>ok\<close> by (simp add: FRAME_HEADER_SIZE_def)
qed

text \<open>
  The frame loop. \<open>sts k\<close> is what the stack held at the \<open>k\<close>-th frame. Every turn takes at least a
  header off the stream, so the loop ends with the stream.
\<close>

function peer_loop ::
  "('k, 'c) openssl \<Rightarrow> (nat \<Rightarrow> stack) \<Rightarrow> nat \<Rightarrow> rx \<Rightarrow> ('k, 'c, 'a) peer_state_scheme
     \<Rightarrow> (rx \<times> ('k, 'c, 'a) peer_state_scheme) option" where
  "peer_loop ssl sts i r w =
     (case receive_frame (host_le w) r of
        None \<Rightarrow> None
      | Some (ret, r1) \<Rightarrow>
          (if ret < 0 then Some (r1, w)
           else
             (case process_frame ssl (sts 0) i (rx_buf r1) (rx_type r1) (rx_len r1) w of
                None \<Rightarrow> None
              | Some (res, w1) \<Rightarrow>
                  (if res < 0 then Some (r1, w1)
                   else peer_loop ssl (\<lambda>k. sts (Suc k)) i r1 w1))))"
  by pat_completeness auto
termination
  by (relation "measure (\<lambda>(ssl, sts, i, r, w). length (concat (rx_in r)))")
    (auto dest: receive_frame_consumes)

declare peer_loop.simps [simp del]

definition peer_receive ::
  "('k, 'c) openssl \<Rightarrow> (nat \<Rightarrow> stack) \<Rightarrow> (nat \<Rightarrow> byte) \<Rightarrow> nat \<Rightarrow> byte list list
     \<Rightarrow> ('k, 'c, 'a) peer_state_scheme \<Rightarrow> ('k, 'c, 'a) peer_state_scheme option" where
  "peer_receive ssl sts heap_bytes i cs w =
     (case malloc w of
        (False, w1) \<Rightarrow> Some w1
      | (True, w1) \<Rightarrow>
          do {
            let r = \<lparr>rx_buf = map heap_bytes [0..<FRAME_MAXSIZE], rx_type = 0, rx_len = 0, rx_in = cs\<rparr>;
            (ok, r1, w2) \<leftarrow> authenticate_peer ssl i r w1;
            if ok then do { (r2, w3) \<leftarrow> peer_loop ssl sts i (r1\<lparr>rx_type := 0, rx_len := 0\<rparr>) w2; Some w3 }
            else Some w2
          })"

section \<open>What the handshake may change\<close>

text \<open>A peer but for its key, its contexts and the verdict; \<open>auth_only i\<close>: nothing but these of peer
  \<open>i\<close>, the contents of contexts, and the traffic.\<close>

definition unkeyed :: "('k, 'c) peer \<Rightarrow> ('k, 'c) peer" where
  "unkeyed p = p\<lparr>pubkey := Null, authenticated := False, enc_ctx := Null, dec_ctx := Null\<rparr>"

definition auth_only :: "nat \<Rightarrow> ('k, 'c, 'a) peer_state_scheme \<Rightarrow> ('k, 'c, 'a) peer_state_scheme \<Rightarrow> bool" where
  "auth_only i w w' \<longleftrightarrow>
     length (peers w') = length (peers w) \<and>
     (\<forall>j < length (peers w). unkeyed (peers w' ! j) = unkeyed (peers w ! j)) \<and>
     (\<forall>j < length (peers w). j \<noteq> i \<longrightarrow> peer_core (peers w' ! j) = peer_core (peers w ! j)) \<and>
     local_routes w' = local_routes w \<and> trusted_keys w' = trusted_keys w \<and>
     daemon_pubkey w' = daemon_pubkey w \<and> daemon_privkey w' = daemon_privkey w \<and>
     if_fd w' = if_fd w \<and> if_tap w' = if_tap w \<and> host_le w' = host_le w \<and> closed w' = closed w \<and>
     tun_out w' = tun_out w"

lemma auth_only_refl [simp]: "auth_only i w w"
  by (simp add: auth_only_def)

lemma auth_only_trans: "auth_only i w w1 \<Longrightarrow> auth_only i w1 w2 \<Longrightarrow> auth_only i w w2"
  by (simp add: auth_only_def)

lemma peer_core_unkeyed: "peer_core p = peer_core q \<Longrightarrow> unkeyed p = unkeyed q"
proof -
  assume a: "peer_core p = peer_core q"
  have "unkeyed x = (fst (peer_core x))\<lparr>pubkey := Null, authenticated := False\<rparr>" for x :: "('a, 'b) peer"
    by (cases x) (simp add: unkeyed_def peer_core_def)
  with a show ?thesis by simp
qed

lemma sends_auth_only:
  assumes "sends_only w w'"
  shows "auth_only i w w'"
proof -
  have core: "peer_core (peers w' ! j) = peer_core (peers w ! j)" if "j < length (peers w)" for j
    using assms that by (rule sends_only_nth)
  show ?thesis
    using core peer_core_unkeyed [OF core]
    by (simp add: auth_only_def sends_only_fields [OF assms])
qed

lemma set_peer_auth_only:
  assumes "unkeyed p = unkeyed (peers w ! i)"
  shows "auth_only i w (set_peer i p w)"
proof -
  have "unkeyed ((peers w)[i := p] ! j) = unkeyed (peers w ! j)" if "j < length (peers w)" for j
    using assms that by (cases "j = i") simp_all
  then show ?thesis by (simp add: auth_only_def set_peer_def)
qed

text \<open>\<open>same_peer i\<close>: in addition peer \<open>i\<close> keeps its key and the verdict.\<close>

definition auth_quiet :: "nat \<Rightarrow> ('k, 'c, 'a) peer_state_scheme \<Rightarrow> ('k, 'c, 'a) peer_state_scheme \<Rightarrow> bool" where
  "auth_quiet i w w' \<longleftrightarrow>
     auth_only i w w' \<and> (i < length (peers w) \<longrightarrow> peer_core (peers w' ! i) = peer_core (peers w ! i))"

lemma auth_quiet_refl [simp]: "auth_quiet i w w"
  by (simp add: auth_quiet_def)

lemma auth_quiet_trans: "auth_quiet i w w1 \<Longrightarrow> auth_quiet i w1 w2 \<Longrightarrow> auth_quiet i w w2"
  using auth_only_trans by (auto simp: auth_quiet_def auth_only_def)

lemma sends_auth_quiet: "sends_only w w' \<Longrightarrow> auth_quiet i w w'"
  by (simp add: auth_quiet_def sends_auth_only sends_only_nth)

lemma update_auth_quiet [simp]: "auth_quiet i w (w\<lparr>mallocs := ms, rng := n\<rparr>)"
  by (simp add: auth_quiet_def auth_only_def)

lemma malloc_quiet: "malloc w = (b, w') \<Longrightarrow> auth_quiet i w w'"
  by (elim mallocE) (simp add: auth_quiet_def auth_only_def)

lemma send_public_key_quiet:
  assumes "send_public_key ssl i w = Some (ok, w')"
  shows "auth_quiet i w w'"
proof -
  obtain b w1 where m: "malloc w = (b, w1)" by (cases "malloc w")
  show ?thesis
  proof (cases b)
    case False
    with assms m malloc_quiet [OF m] show ?thesis by (simp add: send_public_key_def)
  next
    case True
    with assms m obtain d n where "send_data_to_peer ssl FRAME_HDR_AUTH d n False i w1 = Some w'"
      by (auto simp: send_public_key_def Let_def split: Option.bind_splits)
    then have "auth_quiet i w1 w'" using send_only sends_auth_quiet by blast
    with malloc_quiet [OF m] show ?thesis by (rule auth_quiet_trans)
  qed
qed

lemma receive_public_key_result:
  assumes "receive_public_key ssl i r w = Some (ok, r', w')" and i: "i < length (peers w)"
  shows "auth_only i w w' \<and>
         enc_ctx (peers w' ! i) = enc_ctx (peers w ! i) \<and> dec_ctx (peers w' ! i) = dec_ctx (peers w ! i) \<and>
         authenticated (peers w' ! i) = authenticated (peers w ! i) \<and>
         (ok \<longrightarrow> pem_text ssl \<longrightarrow> (\<exists>k \<in> set (trusted_keys w). pubkey (peers w' ! i) = Ptr k)) \<and>
         (ok \<longrightarrow> (\<exists>k. pubkey (peers w' ! i) = Ptr k))"
proof -
  obtain ret r1 where f: "receive_frame (host_le w) (r\<lparr>rx_type := 0, rx_len := 0\<rparr>) = Some (ret, r1)"
    using assms(1) by (auto simp: receive_public_key_def split: Option.bind_splits)
  show ?thesis
  proof (cases "ret < 0 \<or> rx_type r1 \<noteq> FRAME_HDR_AUTH \<or> rx_len r1 = 0")
    case True
    with assms f have "\<not> ok" "w' = w" by (auto simp: receive_public_key_def split: if_splits)
    then show ?thesis by simp
  next
    case False
    with assms(1) f obtain key w1 where l: "load_rsa_key_from_string ssl (drop FRAME_HEADER_SIZE (rx_buf r1)) (rx_len r1) True w = Some (key, w1)"
      by (auto simp: receive_public_key_def split: Option.bind_splits)
    obtain b wm where m: "malloc w = (b, wm)" by (cases "malloc w")
    with l have "w1 = wm" by (cases b) (auto simp: load_rsa_key_from_string_def split: Option.bind_splits)
    then obtain ms where w1: "w1 = w\<lparr>mallocs := ms\<rparr>" using m by (elim mallocE) simp
    define w2 where "w2 = set_peer i ((peers w1 ! i)\<lparr>pubkey := of_opt key\<rparr>) w1"
    have a2: "auth_only i w w2"
      using set_peer_auth_only [of "(peers w1 ! i)\<lparr>pubkey := of_opt key\<rparr>" w1 i]
      by (simp add: w2_def w1 auth_only_def unkeyed_def)
    have p2: "peers w2 ! i = (peers w ! i)\<lparr>pubkey := of_opt key\<rparr>" "trusted_keys w2 = trusted_keys w"
      using i by (simp_all add: w2_def w1 set_peer_def)
    show ?thesis
    proof (cases key)
      case None
      with assms(1) f False l have "\<not> ok" "w' = w2"
        by (auto simp: receive_public_key_def w2_def Let_def)
      with a2 p2 show ?thesis by simp
    next
      case (Some k)
      obtain c w3 where t: "is_trusted_key ssl k w2 = (c, w3)" by (cases "is_trusted_key ssl k w2")
      with Some assms(1) f False l have r: "ok = c" "w' = w3"
        by (auto simp: receive_public_key_def w2_def Let_def)
      obtain ms' where w3: "w3 = w2\<lparr>mallocs := ms'\<rparr>" using t by (rule is_trusted_keyE)
      have "ok \<Longrightarrow> pem_text ssl \<Longrightarrow> k \<in> set (trusted_keys w)"
        using is_trusted_key_sound t r(1) p2(2) by metis
      moreover have "auth_only i w w3" using a2 by (simp add: w3 auth_only_def)
      ultimately show ?thesis using Some r p2 w3 by simp
    qed
  qed
qed

lemma send_secret_quiet:
  assumes "send_secret ssl s i buf w = Some (ok, buf', w')"
  shows "auth_quiet i w w'"
proof -
  have q: "auth_quiet i w (w\<lparr>rng := n\<rparr>)" for n by (simp add: auth_quiet_def auth_only_def)
  from assms have "w' = w\<lparr>rng := rng w + 1\<rparr> \<or>
      (\<exists>d n. send_data_to_peer ssl FRAME_HDR_AUTH d n False i (w\<lparr>rng := rng w + 1\<rparr>) = Some w')"
    by (auto simp: send_secret_def Let_def split: Option.bind_splits if_splits)
  then show ?thesis using q send_only sends_auth_quiet auth_quiet_trans by blast
qed

lemma rng_quiet: "auth_quiet i (w\<lparr>rng := n\<rparr>) w' \<Longrightarrow> auth_quiet i w w'"
  by (simp add: auth_quiet_def auth_only_def)

lemma server_secrets_quiet:
  assumes "server_secrets ssl i r w = Some (s, r', w')"
  shows "auth_quiet i w w'"
proof -
  have "auth_quiet i w (w\<lparr>rng := n\<rparr>)" for n by (simp add: auth_quiet_def auth_only_def)
  then show ?thesis
    using assms
    by (auto simp: server_secrets_def rand_bytes_def Option.bind_eq_Some_conv
        split: option.splits if_splits dest!: send_secret_quiet intro: rng_quiet auth_quiet_trans)
qed

lemma setup_contexts_result:
  assumes "setup_contexts ssl key iv i w = (ok, w')" and i: "i < length (peers w)"
  shows "auth_only i w w' \<and> pubkey (peers w' ! i) = pubkey (peers w ! i) \<and>
         (ok \<longrightarrow> authenticated (peers w' ! i) \<and>
            (\<exists>c. enc_ctx (peers w' ! i) = Ptr c) \<and> (\<exists>c. dec_ctx (peers w' ! i) = Ptr c)) \<and>
         (\<not> ok \<longrightarrow> authenticated (peers w' ! i) = authenticated (peers w ! i))"
proof -
  obtain enc w1 where e: "aes_init_ctx ssl key iv True w = (enc, w1)" by (cases "aes_init_ctx ssl key iv True w")
  define w2 where "w2 = set_peer i ((peers w1 ! i)\<lparr>enc_ctx := of_opt enc\<rparr>) w1"
  obtain dec w3 where d: "aes_init_ctx ssl key iv False w2 = (dec, w3)" by (cases "aes_init_ctx ssl key iv False w2")
  obtain ms1 where w1: "w1 = w\<lparr>mallocs := ms1\<rparr>"
    using e by (auto simp: aes_init_ctx_def elim!: mallocE split: prod.splits bool.splits)
  obtain ms2 where w3: "w3 = w2\<lparr>mallocs := ms2\<rparr>"
    using d by (auto simp: aes_init_ctx_def elim!: mallocE split: prod.splits bool.splits)
  define p where "p = (peers w ! i)\<lparr>enc_ctx := of_opt enc, dec_ctx := of_opt dec\<rparr>"
  define p' where "p' = (if enc = None \<or> dec = None then p else p\<lparr>authenticated := True\<rparr>)"
  have w': "w' = w\<lparr>mallocs := ms2, peers := (peers w)[i := p']\<rparr>" "ok \<longleftrightarrow> enc \<noteq> None \<and> dec \<noteq> None"
    using assms e d unfolding w2_def
    by (cases enc; cases dec; auto simp: setup_contexts_def w1 w3 [unfolded w2_def] set_peer_def p_def p'_def)+
  have "unkeyed p' = unkeyed (peers w ! i)"
    by (simp add: p'_def p_def unkeyed_def)
  then have "auth_only i w (set_peer i p' w)" by (rule set_peer_auth_only)
  then have "auth_only i w w'" by (simp add: w'(1) set_peer_def auth_only_def)
  then show ?thesis using i w' by (auto simp: p'_def p_def)
qed

lemma agree_on_secrets_result:
  assumes "agree_on_secrets ssl i r w = Some (ok, r', w')" and i: "i < length (peers w)"
  shows "auth_only i w w' \<and> pubkey (peers w' ! i) = pubkey (peers w ! i) \<and>
         (ok \<longrightarrow> authenticated (peers w' ! i) \<and>
            (\<exists>c. enc_ctx (peers w' ! i) = Ptr c) \<and> (\<exists>c. dec_ctx (peers w' ! i) = Ptr c)) \<and>
         (\<not> ok \<longrightarrow> authenticated (peers w' ! i) = authenticated (peers w ! i))"
proof -
  obtain secrets r1 w1 where
    s: "(if is_client (peers w ! i) then do { (s, r1) \<leftarrow> client_secrets ssl r w; Some (s, r1, w) }
         else server_secrets ssl i r w) = Some (secrets, r1, w1)"
    and rest: "(case secrets of None \<Rightarrow> Some (False, r1, w1)
         | Some (aes_key, aes_iv) \<Rightarrow>
             (case setup_contexts ssl aes_key aes_iv i w1 of (b, w2) \<Rightarrow> Some (b, r1, w2))) = Some (ok, r', w')"
    using assms(1) by (auto simp: agree_on_secrets_def Option.bind_eq_Some_conv simp del: not_None_eq split: if_splits)
  have q: "auth_quiet i w w1"
    using s server_secrets_quiet by (auto split: if_splits Option.bind_splits)
  have a: "auth_only i w w1" and core: "peer_core (peers w1 ! i) = peer_core (peers w ! i)"
    using q i by (simp_all add: auth_quiet_def)
  have i1: "i < length (peers w1)" using a i by (simp add: auth_only_def)
  note p1 = peer_core_eqD(6,7) [OF core]
  show ?thesis
  proof (cases secrets)
    case None
    with rest a p1 show ?thesis by auto
  next
    case (Some s)
    obtain key iv where s: "s = (key, iv)" by (cases s)
    obtain b w2 where c: "setup_contexts ssl key iv i w1 = (b, w2)" by (cases "setup_contexts ssl key iv i w1")
    with rest Some s have r: "ok = b" "w' = w2" by auto
    have "auth_only i w w2" using a setup_contexts_result [OF c i1] auth_only_trans by blast
    then show ?thesis using setup_contexts_result [OF c i1] r p1 by auto
  qed
qed

lemma authenticate_peer_result:
  assumes "authenticate_peer ssl i r w = Some (ok, r', w')"
  shows "i < length (peers w) \<and> auth_only i w w' \<and>
         (ok \<longrightarrow> authenticated (peers w' ! i) \<and>
            (\<exists>c. enc_ctx (peers w' ! i) = Ptr c) \<and> (\<exists>c. dec_ctx (peers w' ! i) = Ptr c) \<and>
            (\<exists>k. pubkey (peers w' ! i) = Ptr k) \<and>
            (pem_text ssl \<longrightarrow> (\<exists>k \<in> set (trusted_keys w). pubkey (peers w' ! i) = Ptr k))) \<and>
         (\<not> ok \<longrightarrow> authenticated (peers w' ! i) = authenticated (peers w ! i))"
proof -
  have i: "i < length (peers w)" using assms by (auto simp: authenticate_peer_def split: if_splits)
  obtain ok1 w1 where s1: "send_public_key ssl i w = Some (ok1, w1)"
    using assms i by (auto simp: authenticate_peer_def split: Option.bind_splits)
  note q1 = send_public_key_quiet [OF s1]
  have a1: "auth_only i w w1" and i1: "i < length (peers w1)" and t1: "trusted_keys w1 = trusted_keys w"
    and v1: "authenticated (peers w1 ! i) = authenticated (peers w ! i)"
    using q1 i peer_core_eqD(7) by (auto simp: auth_quiet_def auth_only_def)
  show ?thesis
  proof (cases ok1)
    case False
    with assms i s1 have "\<not> ok" "w' = w1" by (auto simp: authenticate_peer_def)
    with a1 v1 i show ?thesis by simp
  next
    case ok1: True
    with assms i s1 obtain ok2 r1 w2 where s2: "receive_public_key ssl i r w1 = Some (ok2, r1, w2)"
      by (auto simp: authenticate_peer_def split: Option.bind_splits)
    note q2 = receive_public_key_result [OF s2 i1]
    have a2: "auth_only i w w2" using a1 q2 auth_only_trans by blast
    then have i2: "i < length (peers w2)" using i by (simp add: auth_only_def)
    show ?thesis
    proof (cases ok2)
      case False
      with assms i s1 ok1 s2 have "\<not> ok" "w' = w2" by (auto simp: authenticate_peer_def)
      with a2 q2 v1 i show ?thesis by simp
    next
      case ok2: True
      with assms i s1 ok1 s2 have s3: "agree_on_secrets ssl i r1 w2 = Some (ok, r', w')"
        by (simp add: authenticate_peer_def)
      note q3 = agree_on_secrets_result [OF s3 i2]
      have "auth_only i w w'" using a2 q3 auth_only_trans by blast
      with q2 q3 ok2 v1 t1 i show ?thesis by simp
    qed
  qed
qed

text \<open>The frame buffer keeps its size.\<close>

lemma receive_public_key_buf:
  "receive_public_key ssl i r w = Some (ok, r', w') \<Longrightarrow> length (rx_buf r) = FRAME_MAXSIZE \<Longrightarrow>
     length (rx_buf r') = FRAME_MAXSIZE"
  by (auto simp: receive_public_key_def Option.bind_eq_Some_conv Let_def case_prod_unfold
      split: if_splits option.splits dest!: receive_frame_keeps)

lemma receive_secret_buf:
  "receive_secret ssl k n d le r = Some (s, d', r') \<Longrightarrow> length (rx_buf r) = FRAME_MAXSIZE \<Longrightarrow>
     length (rx_buf r') = FRAME_MAXSIZE"
  by (auto simp: receive_secret_def Option.bind_eq_Some_conv Let_def split: if_splits dest!: receive_frame_keeps)

lemma send_secret_buf: "send_secret ssl s i buf w = Some (ok, buf', w') \<Longrightarrow> length buf' = length buf"
  by (auto simp: send_secret_def Option.bind_eq_Some_conv Let_def split: if_splits dest!: rsa_encrypt_length)

lemma agree_on_secrets_buf:
  assumes "agree_on_secrets ssl i r w = Some (ok, r', w')" and "length (rx_buf r) = FRAME_MAXSIZE"
  shows "length (rx_buf r') = FRAME_MAXSIZE"
proof -
  have c: "length (rx_buf r1) = FRAME_MAXSIZE" if "client_secrets ssl r w = Some (s, r1)" for s r1
    using that assms(2)
    by (auto simp: client_secrets_def Option.bind_eq_Some_conv Let_def split: option.splits dest!: receive_secret_buf)
  have s: "length (rx_buf r1) = FRAME_MAXSIZE" if "server_secrets ssl i r w = Some (s, r1, w1)" for s r1 w1
    using that assms(2)
    by (auto simp: server_secrets_def Option.bind_eq_Some_conv split: option.splits prod.splits if_splits dest!: send_secret_buf)
  show ?thesis
    using assms(1) c s
    by (cases "is_client (peers w ! i)")
      (auto simp: agree_on_secrets_def Option.bind_eq_Some_conv case_prod_unfold split: option.splits)
qed

section \<open>The handshake between two daemons\<close>

abbreviation wire_frame :: "bool \<Rightarrow> byte \<Rightarrow> byte list \<Rightarrow> byte list" where
  "wire_frame le t d \<equiv> frame_bytes (frame_header le) (Frame t d)"

lemma send_plain:
  assumes "i < length (peers w)" and "alive (peers w ! i)" and "send_good w"
    and "unat len \<le> length data"
  shows "\<exists>rs. send_data_to_peer ssl t data len False i w =
           Some (w\<lparr>send_rets := rs, wire := (wire w)(sockfd (peers w ! i) :=
                   wire w (sockfd (peers w ! i)) @ wire_frame (host_le w) t (take (unat len) data))\<rparr>) \<and>
         list_all (\<lambda>r. 0 < r) rs"
proof -
  have "(of_nat (length (take (unat len) data)) :: u32) = len"
    using assms(4) by (simp add: min_absorb2)
  then show ?thesis
    using put_frame_result [OF assms(4), of "sockfd (peers w ! i)" t w] assms(1-3)
    by (auto simp: send_data_to_peer_def frame_bytes_def)
qed

text \<open>A broadcast that is not encrypted.\<close>

lemma broadcast_plain:
  assumes len: "unat len \<le> length data"
  shows "set is \<subseteq> {..<length (peers w)} \<Longrightarrow> send_good w \<Longrightarrow>
     \<exists>rs wi. broadcast_from ssl t data len False None is w = Some (w\<lparr>send_rets := rs, wire := wi\<rparr>) \<and>
       (\<forall>fd. wi fd = wire w fd @ concat (map (\<lambda>p. if alive p \<and> sockfd p = fd
                then wire_frame (host_le w) t (take (unat len) data) else []) (map (nth (peers w)) is)))"
proof (induction "is" arbitrary: w)
  case Nil
  then show ?case by (auto intro!: exI [of _ "send_rets w"] exI [of _ "wire w"])
next
  case (Cons i js)
  show ?case
  proof (cases "alive (peers w ! i)")
    case False
    with Cons.IH [of w] Cons.prems show ?thesis by simp
  next
    case True
    let ?f = "wire_frame (host_le w) t (take (unat len) data)" and ?s = "sockfd (peers w ! i)"
    from Cons.prems have i: "i < length (peers w)" by simp
    obtain rs where s: "send_data_to_peer ssl t data len False i w =
        Some (w\<lparr>send_rets := rs, wire := (wire w)(?s := wire w ?s @ ?f)\<rparr>)" "list_all (\<lambda>r. 0 < r) rs"
      using send_plain [OF i True Cons.prems(2) len] by blast
    let ?w1 = "w\<lparr>send_rets := rs, wire := (wire w)(?s := wire w ?s @ ?f)\<rparr>"
    have g: "send_good ?w1" using s(2) by (simp add: send_good_def)
    have sub: "set js \<subseteq> {..<length (peers ?w1)}" using Cons.prems(1) by simp
    obtain rs' wi where b: "broadcast_from ssl t data len False None js ?w1 = Some (?w1\<lparr>send_rets := rs', wire := wi\<rparr>)"
      "\<forall>fd. wi fd = wire ?w1 fd @ concat (map (\<lambda>p. if alive p \<and> sockfd p = fd
          then wire_frame (host_le ?w1) t (take (unat len) data) else []) (map (nth (peers ?w1)) js))"
      using Cons.IH [OF sub g] by blast
    have run: "broadcast_from ssl t data len False None (i # js) w = Some (w\<lparr>send_rets := rs', wire := wi\<rparr>)"
      using True s(1) b(1) by simp
    have h: "host_le ?w1 = host_le w" "peers ?w1 = peers w" by simp_all
    have "wi fd = wire w fd @ concat (map (\<lambda>p. if alive p \<and> sockfd p = fd then ?f else [])
        (map (nth (peers w)) (i # js)))" for fd
      using True b(2) [unfolded h, THEN spec, of fd] by simp
    with run show ?thesis by blast
  qed
qed

lemma receive_exact:
  assumes "length (rx_buf r) = FRAME_MAXSIZE" and "chunks_ok (rx_in r)"
    and cat: "concat (rx_in r) = wire_frame le t d @ rest" and d: "length d \<le> FRAME_PAYLOAD_MAXSIZE"
  shows "\<exists>r'. receive_frame le r = Some (5 + int (length d), r') \<and> length (rx_buf r') = FRAME_MAXSIZE \<and>
           chunks_ok (rx_in r') \<and> concat (rx_in r') = rest \<and> rx_type r' = t \<and> rx_len r' = of_nat (length d) \<and>
           unat (rx_len r') = length d \<and> take (length d) (drop 5 (rx_buf r')) = d"
proof -
  have u: "unat (of_nat (length d) :: u32) = length d" using d by (simp add: unat_of_nat frame_sizes)
  have dec: "decode_frame_header le (concat (rx_in r)) = Some (t, of_nat (length d))"
    by (simp add: cat frame_bytes_def)
  have "frame_ok (Frame t d)" using d by (simp add: frame_ok_def frame_sizes)
  then have nxt: "next_frame (decode_frame_header le) (concat (rx_in r)) = Some (Frame t d, rest)"
    using codec.next_frame_bytes [of "Frame t d" le rest] by (simp only: cat)
  have len: "x = of_nat (length d)" if "unat x = length d" for x :: u32
    using that u by (simp only: word_unat_eq_iff)
  obtain r' where r': "receive_frame le r = Some (5 + int (length d), r')" "length (rx_buf r') = FRAME_MAXSIZE"
      "chunks_ok (rx_in r')" "concat (rx_in r') = rest" "rx_type r' = t" "unat (rx_len r') = length d"
      "take (length d) (drop 5 (rx_buf r')) = d"
    using receive_frame_spec [OF assms(1,2), of le] dec nxt d u by auto
  with len [OF r'(6)] show ?thesis by blast
qed

lemma send_public_key_ok:
  assumes "i < length (peers w)" and "alive (peers w ! i)" and "send_good w" and "mallocs w = []"
    and "daemon_pubkey w = Ptr k" and "length (pem_write_pub ssl k) \<le> FRAME_PAYLOAD_MAXSIZE"
  shows "\<exists>rs. send_public_key ssl i w =
           Some (True, w\<lparr>send_rets := rs, wire := (wire w)(sockfd (peers w ! i) :=
                   wire w (sockfd (peers w ! i)) @ wire_frame (host_le w) FRAME_HDR_AUTH (pem_write_pub ssl k))\<rparr>) \<and>
         list_all (\<lambda>r. 0 < r) rs"
proof -
  let ?pem = "pem_write_pub ssl k"
  have u: "unat (of_nat (length ?pem) :: u32) = length ?pem"
    using assms(6) by (simp add: unat_of_nat frame_sizes)
  then have "unat (of_nat (length ?pem) :: u32) \<le> length ?pem" by simp
  from send_plain [OF assms(1-3) this, of ssl FRAME_HDR_AUTH] show ?thesis
    using assms(4,5) by (auto simp: send_public_key_def get_daemon_pubkey_def u)
qed

lemma bio_mem_buf_small:
  "unat len < 2 ^ 31 \<Longrightarrow> unat len \<le> length buf \<Longrightarrow> bio_mem_buf buf len = Some (take (unat len) buf)"
  by (simp add: bio_mem_buf_def sint_small mem_read_def)

lemma receive_public_key_ok:
  assumes i: "i < length (peers w)" and r: "length (rx_buf r) = FRAME_MAXSIZE" "chunks_ok (rx_in r)"
    and cat: "concat (rx_in r) = wire_frame (host_le w) FRAME_HDR_AUTH (pem_write_pub ssl k) @ rest"
    and pem: "length (pem_write_pub ssl k) \<le> FRAME_PAYLOAD_MAXSIZE" "pem_write_pub ssl k \<noteq> []" "pem_text ssl"
    and w: "mallocs w = []" "k \<in> set (trusted_keys w)"
  shows "\<exists>r'. receive_public_key ssl i r w = Some (True, r', set_peer i ((peers w ! i)\<lparr>pubkey := Ptr k\<rparr>) w) \<and>
           length (rx_buf r') = FRAME_MAXSIZE \<and> chunks_ok (rx_in r') \<and> concat (rx_in r') = rest"
proof -
  let ?r = "r\<lparr>rx_type := 0, rx_len := 0\<rparr>" and ?pem = "pem_write_pub ssl k"
  have "length (rx_buf ?r) = FRAME_MAXSIZE" "chunks_ok (rx_in ?r)"
    "concat (rx_in ?r) = wire_frame (host_le w) FRAME_HDR_AUTH ?pem @ rest"
    using r cat by simp_all
  from receive_exact [OF this pem(1)] obtain r' where r':
    "receive_frame (host_le w) ?r = Some (5 + int (length ?pem), r')"
    "length (rx_buf r') = FRAME_MAXSIZE" "chunks_ok (rx_in r')" "concat (rx_in r') = rest"
    "rx_type r' = FRAME_HDR_AUTH" "unat (rx_len r') = length ?pem"
    "take (length ?pem) (drop 5 (rx_buf r')) = ?pem"
    by blast
  have "rx_len r' \<noteq> 0" using r'(6) pem(2) by auto
  moreover have "bio_mem_buf (drop FRAME_HEADER_SIZE (rx_buf r')) (rx_len r') = Some ?pem"
    using bio_mem_buf_small [of "rx_len r'" "drop 5 (rx_buf r')"] r'(2,6,7) pem(1)
    by (simp add: frame_sizes)
  then have "load_rsa_key_from_string ssl (drop FRAME_HEADER_SIZE (rx_buf r')) (rx_len r') True w = Some (Some k, w)"
    using w(1) pem(3) by (simp add: load_rsa_key_from_string_def pem_text_def)
  moreover have "is_trusted_key ssl k (set_peer i ((peers w ! i)\<lparr>pubkey := Ptr k\<rparr>) w) =
      (True, set_peer i ((peers w ! i)\<lparr>pubkey := Ptr k\<rparr>) w)"
    using is_trusted_key_complete [OF pem(3), of "set_peer i ((peers w ! i)\<lparr>pubkey := Ptr k\<rparr>) w" k] w
    by (simp add: set_peer_def)
  ultimately show ?thesis
    using r' by (auto simp: receive_public_key_def)
qed

lemma send_secret_ok:
  assumes i: "i < length (peers w)" "alive (peers w ! i)" "send_good w" "pubkey (peers w ! i) = Ptr k"
    and k: "rsa_pair ssl k priv" "rsa_size ssl k \<le> FRAME_PAYLOAD_MAXSIZE" "length s + 42 \<le> rsa_size ssl k"
    and buf: "length buf = FRAME_MAXSIZE"
  shows "\<exists>ct buf' rs. send_secret ssl s i buf w =
           Some (True, buf', w\<lparr>rng := rng w + 1, send_rets := rs, wire := (wire w)(sockfd (peers w ! i) :=
                   wire w (sockfd (peers w ! i)) @ wire_frame (host_le w) FRAME_HDR_AUTH ct)\<rparr>) \<and>
         list_all (\<lambda>r. 0 < r) rs \<and> length buf' = FRAME_MAXSIZE \<and>
         ct \<noteq> [] \<and> length ct \<le> rsa_size ssl k \<and> rsa_private_decrypt ssl priv ct = Some s"
proof -
  let ?w = "w\<lparr>rng := rng w + 1\<rparr>"
  obtain ct where ct: "rsa_public_encrypt ssl (rng w) k s = Some ct" "ct \<noteq> []" "length ct \<le> rsa_size ssl k"
      "rsa_private_decrypt ssl priv ct = Some s"
    using k(1,3) unfolding rsa_pair_def by meson
  have us: "unat (of_nat (length s) :: u32) = length s" using k(2,3) by (simp add: unat_of_nat frame_sizes)
  have "(of_int (int (rsa_size ssl k) - 41) :: u32) = of_nat (rsa_size ssl k - 41)"
    using k(3) by (simp add: of_nat_diff)
  then have "RSA_MAXSIZE ssl k = of_nat (rsa_size ssl k - 41)" by (simp only: RSA_MAXSIZE_def)
  moreover have "unat (of_nat m :: u32) = m" if "m \<le> 2048" for m using that by (simp add: unat_of_nat)
  ultimately have "unat (RSA_MAXSIZE ssl k) = rsa_size ssl k - 41"
    using k(2) by (simp only: FRAME_PAYLOAD_MAXSIZE_def)
  then have mx: "\<not> (of_nat (length s) :: u32) > RSA_MAXSIZE ssl k"
    using k(3) us by (simp add: word_less_nat_alt)
  let ?buf = "ct @ drop (length ct) buf"
  have enc: "rsa_encrypt ssl (rng w) s (of_nat (length s)) buf (Some k) = Some (int (length ct), ?buf)"
    using mx us ct(1,3) k(2) buf by (simp add: rsa_encrypt_def mem_read_def mem_write_def frame_sizes)
  have uc: "unat (of_nat (length ct) :: u32) = length ct"
    using ct(3) k(2) by (simp add: unat_of_nat frame_sizes)
  have "i < length (peers ?w)" "alive (peers ?w ! i)" "send_good ?w" "unat (of_nat (length ct) :: u32) \<le> length ?buf"
    using i uc by (simp_all add: send_good_def)
  from send_plain [OF this, of ssl FRAME_HDR_AUTH] obtain rs where
    "send_data_to_peer ssl FRAME_HDR_AUTH ?buf (of_nat (length ct)) False i ?w =
       Some (?w\<lparr>send_rets := rs, wire := (wire w)(sockfd (peers w ! i) :=
                   wire w (sockfd (peers w ! i)) @ wire_frame (host_le w) FRAME_HDR_AUTH ct)\<rparr>)"
    "list_all (\<lambda>r. 0 < r) rs"
    by (auto simp: uc)
  moreover have "length ?buf = FRAME_MAXSIZE" using ct(3) k(2) buf by (simp add: frame_sizes)
  ultimately show ?thesis
    using enc ct i(4) by (intro exI [of _ ct] exI [of _ ?buf] exI [of _ rs]) (simp add: send_secret_def)
qed

lemma receive_secret_ok:
  assumes r: "length (rx_buf r) = FRAME_MAXSIZE" "chunks_ok (rx_in r)"
    and cat: "concat (rx_in r) = wire_frame le FRAME_HDR_AUTH ct @ rest"
    and ct: "ct \<noteq> []" "length ct \<le> rsa_size ssl priv" "rsa_size ssl priv \<le> FRAME_PAYLOAD_MAXSIZE"
      "rsa_private_decrypt ssl priv ct = Some s"
    and buf: "length dec_buf = rsa_size ssl priv" "length s \<le> rsa_size ssl priv"
  shows "\<exists>r' dec_buf'. receive_secret ssl priv (length s) dec_buf le r = Some (Some s, dec_buf', r') \<and>
           length (rx_buf r') = FRAME_MAXSIZE \<and> chunks_ok (rx_in r') \<and> concat (rx_in r') = rest \<and>
           length dec_buf' = length dec_buf"
proof -
  have "length ct \<le> FRAME_PAYLOAD_MAXSIZE" using ct(2,3) by simp
  from receive_exact [OF r cat this] obtain r' where r':
    "receive_frame le r = Some (5 + int (length ct), r')"
    "length (rx_buf r') = FRAME_MAXSIZE" "chunks_ok (rx_in r')" "concat (rx_in r') = rest"
    "rx_type r' = FRAME_HDR_AUTH" "unat (rx_len r') = length ct"
    "take (length ct) (drop 5 (rx_buf r')) = ct"
    by blast
  have "rx_len r' \<noteq> 0" using r'(6) ct(1) by auto
  moreover have "\<not> rx_len r' > of_nat (rsa_size ssl priv)"
    using r'(6) ct(2,3) by (simp add: word_less_nat_alt unat_of_nat frame_sizes)
  moreover have "mem_read (drop FRAME_HEADER_SIZE (rx_buf r')) 0 (unat (rx_len r')) = Some ct"
    using r'(2,6,7) ct(2,3) by (simp add: mem_read_def frame_sizes)
  ultimately have "rsa_decrypt ssl (drop FRAME_HEADER_SIZE (rx_buf r')) (rx_len r') dec_buf (Some priv) =
      Some (int (length s), s @ drop (length s) dec_buf)"
    using ct(4) buf by (simp add: rsa_decrypt_def mem_write_def)
  then show ?thesis
    using r' \<open>rx_len r' \<noteq> 0\<close> \<open>\<not> rx_len r' > of_nat (rsa_size ssl priv)\<close> buf
    by (intro exI [of _ r'] exI [of _ "s @ drop (length s) dec_buf"])
      (simp add: receive_secret_def mem_read_def)
qed

lemma setup_contexts_ok:
  assumes "i < length (peers w)" and "mallocs w = []"
    and "evp_enc_init ssl key iv = Some ce" and "evp_dec_init ssl key iv = Some cd"
  shows "setup_contexts ssl key iv i w =
           (True, set_peer i ((peers w ! i)\<lparr>enc_ctx := Ptr ce, dec_ctx := Ptr cd, authenticated := True\<rparr>) w)"
  using assms by (simp add: setup_contexts_def aes_init_ctx_def set_peer_def Let_def)

text \<open>What a daemon has to have for the handshake: its key, a trusted peer key, text forms of legal size.\<close>

definition handshake_ready ::
  "('k, 'c) openssl \<Rightarrow> nat \<Rightarrow> 'k \<Rightarrow> 'k \<Rightarrow> ('k, 'c, 'a) peer_state_scheme \<Rightarrow> bool" where
  "handshake_ready ssl i own other w \<longleftrightarrow>
     i < length (peers w) \<and> alive (peers w ! i) \<and> send_good w \<and> mallocs w = [] \<and>
     daemon_pubkey w = Ptr own \<and> other \<in> set (trusted_keys w) \<and>
     (\<forall>k \<in> {own, other}. pem_write_pub ssl k \<noteq> [] \<and> length (pem_write_pub ssl k) \<le> FRAME_PAYLOAD_MAXSIZE)"

definition keyed_with :: "('k, 'c) openssl \<Rightarrow> byte list \<Rightarrow> byte list \<Rightarrow> ('k, 'c) peer \<Rightarrow> bool" where
  "keyed_with ssl key iv p \<longleftrightarrow>
     authenticated p \<and>
     (\<exists>ce cd. enc_ctx p = Ptr ce \<and> dec_ctx p = Ptr cd \<and>
              evp_enc_init ssl key iv = Some ce \<and> evp_dec_init ssl key iv = Some cd)"

text \<open>A handshake in which nothing fails leaves the other peers as they are, and nothing failing.\<close>

definition settled :: "nat \<Rightarrow> ('k, 'c, 'a) peer_state_scheme \<Rightarrow> ('k, 'c, 'a) peer_state_scheme \<Rightarrow> bool" where
  "settled i w w' \<longleftrightarrow>
     send_good w' \<and> mallocs w' = [] \<and> write_rets w' = write_rets w \<and> (\<forall>k. k \<noteq> i \<longrightarrow> peers w' ! k = peers w ! k)"

lemma settled_set_peer: "settled i w w' \<Longrightarrow> settled i w (set_peer i p w')"
  by (simp add: settled_def set_peer_def send_good_def)

lemma settled_sends: "settled i w w' \<Longrightarrow> list_all (\<lambda>r. 0 < r) rs \<Longrightarrow> settled i w (w'\<lparr>rng := n, send_rets := rs, wire := wi\<rparr>)"
  by (simp add: settled_def send_good_def)

text \<open>The part both sides have in common.\<close>

lemma exchange_keys:
  assumes ready: "handshake_ready ssl i own other w" and pem: "pem_text ssl"
    and r: "length (rx_buf r) = FRAME_MAXSIZE" "chunks_ok (rx_in r)"
    and cat: "concat (rx_in r) = wire_frame (host_le w) FRAME_HDR_AUTH (pem_write_pub ssl other) @ rest"
  shows "\<exists>w1 r1 w2. send_public_key ssl i w = Some (True, w1) \<and> receive_public_key ssl i r w1 = Some (True, r1, w2) \<and>
           length (rx_buf r1) = FRAME_MAXSIZE \<and> chunks_ok (rx_in r1) \<and> concat (rx_in r1) = rest \<and>
           length (peers w2) = length (peers w) \<and> peers w2 ! i = (peers w ! i)\<lparr>pubkey := Ptr other\<rparr> \<and>
           send_good w2 \<and> mallocs w2 = [] \<and> host_le w2 = host_le w \<and> rng w2 = rng w \<and>
           daemon_privkey w2 = daemon_privkey w \<and> settled i w w2 \<and>
           wire w2 (sockfd (peers w ! i)) = wire w (sockfd (peers w ! i)) @
             wire_frame (host_le w) FRAME_HDR_AUTH (pem_write_pub ssl own)"
proof -
  from ready have i: "i < length (peers w)" "alive (peers w ! i)" "send_good w" "mallocs w = []"
    and keys: "daemon_pubkey w = Ptr own" "other \<in> set (trusted_keys w)"
    and len: "length (pem_write_pub ssl own) \<le> FRAME_PAYLOAD_MAXSIZE"
      "length (pem_write_pub ssl other) \<le> FRAME_PAYLOAD_MAXSIZE" "pem_write_pub ssl other \<noteq> []"
    by (simp_all add: handshake_ready_def)
  obtain rs where s: "send_public_key ssl i w =
      Some (True, w\<lparr>send_rets := rs, wire := (wire w)(sockfd (peers w ! i) :=
         wire w (sockfd (peers w ! i)) @ wire_frame (host_le w) FRAME_HDR_AUTH (pem_write_pub ssl own))\<rparr>)"
      (is "_ = Some (True, ?w1)") and rs: "list_all (\<lambda>r. 0 < r) rs"
    using send_public_key_ok [OF i keys(1) len(1)] by blast
  have "i < length (peers ?w1)" "mallocs ?w1 = []" "other \<in> set (trusted_keys ?w1)"
    "concat (rx_in r) = wire_frame (host_le ?w1) FRAME_HDR_AUTH (pem_write_pub ssl other) @ rest"
    using i keys cat by simp_all
  then obtain r1 where p: "receive_public_key ssl i r ?w1 =
      Some (True, r1, set_peer i ((peers ?w1 ! i)\<lparr>pubkey := Ptr other\<rparr>) ?w1)"
      "length (rx_buf r1) = FRAME_MAXSIZE" "chunks_ok (rx_in r1)" "concat (rx_in r1) = rest"
    using receive_public_key_ok [of i ?w1 r ssl other rest] r len(2,3) pem by blast
  show ?thesis
    by (intro exI [of _ ?w1] exI [of _ r1] exI [of _ "set_peer i ((peers ?w1 ! i)\<lparr>pubkey := Ptr other\<rparr>) ?w1"])
      (use s p i rs in \<open>simp add: set_peer_def send_good_def settled_def\<close>)
qed

text \<open>The server's two secrets: random, sent so that the other key's owner reads them.\<close>

lemma server_secrets_ok:
  assumes i: "i < length (peers w)" "alive (peers w ! i)" "send_good w" "pubkey (peers w ! i) = Ptr other"
    and laws: "rsa_pair ssl other priv" "rand_ok ssl"
    and size: "74 \<le> rsa_size ssl other" "rsa_size ssl other \<le> FRAME_PAYLOAD_MAXSIZE"
    and r: "length (rx_buf r) = FRAME_MAXSIZE"
  obtains key iv ck ci buf n rs wi where
    "server_secrets ssl i r w = Some (Some (key, iv), r\<lparr>rx_buf := buf\<rparr>, w\<lparr>rng := n, send_rets := rs, wire := wi\<rparr>)"
    and "length key = 32" and "length iv = 16" and "list_all (\<lambda>r. 0 < r) rs"
    and "wi (sockfd (peers w ! i)) = wire w (sockfd (peers w ! i)) @
           wire_frame (host_le w) FRAME_HDR_AUTH ck @ wire_frame (host_le w) FRAME_HDR_AUTH ci"
    and "ck \<noteq> []" and "length ck \<le> rsa_size ssl other" and "rsa_private_decrypt ssl priv ck = Some key"
    and "ci \<noteq> []" and "length ci \<le> rsa_size ssl other" and "rsa_private_decrypt ssl priv ci = Some iv"
proof -
  let ?s = "sockfd (peers w ! i)"
  obtain key where key: "rand_priv_bytes ssl (rng w) AES_KEY_SIZE = Some key" "length key = 32"
    using laws(2) unfolding rand_ok_def AES_KEY_SIZE_def by blast
  obtain iv where iv: "rand_priv_bytes ssl (rng w + 1) AES_IV_SIZE = Some iv" "length iv = 16"
    using laws(2) unfolding rand_ok_def AES_IV_SIZE_def by blast
  define w3 where "w3 = w\<lparr>rng := rng w + 1 + 1\<rparr>"
  have "i < length (peers w3)" "alive (peers w3 ! i)" "send_good w3" "pubkey (peers w3 ! i) = Ptr other"
    "length key + 42 \<le> rsa_size ssl other"
    using i key(2) size(1) by (simp_all add: w3_def send_good_def)
  from send_secret_ok [OF this(1-4) laws(1) size(2) this(5) r] obtain ct1 buf1 rs1 where s1:
    "send_secret ssl key i (rx_buf r) w3 = Some (True, buf1, w3\<lparr>rng := rng w3 + 1, send_rets := rs1,
       wire := (wire w3)(?s := wire w3 ?s @ wire_frame (host_le w3) FRAME_HDR_AUTH ct1)\<rparr>)" (is "_ = Some (True, _, ?w4)")
    "list_all (\<lambda>r. 0 < r) rs1" "length buf1 = FRAME_MAXSIZE"
    "ct1 \<noteq> []" "length ct1 \<le> rsa_size ssl other" "rsa_private_decrypt ssl priv ct1 = Some key"
    by (auto simp: w3_def)
  have "i < length (peers ?w4)" "alive (peers ?w4 ! i)" "send_good ?w4" "pubkey (peers ?w4 ! i) = Ptr other"
    "length iv + 42 \<le> rsa_size ssl other"
    using i iv(2) size(1) s1(2) by (simp_all add: w3_def send_good_def)
  from send_secret_ok [OF this(1-4) laws(1) size(2) this(5) s1(3)] obtain ct2 buf2 rs2 where s2:
    "send_secret ssl iv i buf1 ?w4 = Some (True, buf2, ?w4\<lparr>rng := rng ?w4 + 1, send_rets := rs2,
       wire := (wire ?w4)(?s := wire ?w4 ?s @ wire_frame (host_le ?w4) FRAME_HDR_AUTH ct2)\<rparr>)"
    "ct2 \<noteq> []" "length ct2 \<le> rsa_size ssl other" "rsa_private_decrypt ssl priv ct2 = Some iv"
    "list_all (\<lambda>r. 0 < r) rs2"
    by (auto simp: w3_def)
  show thesis
    by (rule that [where key = key and iv = iv and buf = buf2 and rs = rs2 and n = "rng w + 1 + 1 + 1 + 1" and
        ck = ct1 and ci = ct2 and wi = "(wire w)(?s := wire w ?s @
          wire_frame (host_le w) FRAME_HDR_AUTH ct1 @ wire_frame (host_le w) FRAME_HDR_AUTH ct2)"])
      (use key iv s1 s2 in \<open>simp_all add: server_secrets_def rand_bytes_def w3_def\<close>)
qed

lemma server_authenticates:
  assumes ready: "handshake_ready ssl i own other w" and server: "\<not> is_client (peers w ! i)"
    and laws: "pem_text ssl" "rsa_pair ssl other priv" "rand_ok ssl" "evp_ready ssl"
    and size: "74 \<le> rsa_size ssl other" "rsa_size ssl other \<le> FRAME_PAYLOAD_MAXSIZE"
    and r: "length (rx_buf r) = FRAME_MAXSIZE" "chunks_ok (rx_in r)"
    and cat: "concat (rx_in r) = wire_frame (host_le w) FRAME_HDR_AUTH (pem_write_pub ssl other) @ rest"
  shows "\<exists>r' w' key iv ct1 ct2. authenticate_peer ssl i r w = Some (True, r', w') \<and> concat (rx_in r') = rest \<and>
           length key = 32 \<and> length iv = 16 \<and> keyed_with ssl key iv (peers w' ! i) \<and> settled i w w' \<and>
           wire w' (sockfd (peers w ! i)) = wire w (sockfd (peers w ! i)) @
             wire_frame (host_le w) FRAME_HDR_AUTH (pem_write_pub ssl own) @
             wire_frame (host_le w) FRAME_HDR_AUTH ct1 @ wire_frame (host_le w) FRAME_HDR_AUTH ct2 \<and>
           ct1 \<noteq> [] \<and> length ct1 \<le> rsa_size ssl other \<and> rsa_private_decrypt ssl priv ct1 = Some key \<and>
           ct2 \<noteq> [] \<and> length ct2 \<le> rsa_size ssl other \<and> rsa_private_decrypt ssl priv ct2 = Some iv"
proof -
  let ?s = "sockfd (peers w ! i)"
  have i: "i < length (peers w)" "alive (peers w ! i)" using ready by (simp_all add: handshake_ready_def)
  obtain w1 r1 w2 where e: "send_public_key ssl i w = Some (True, w1)" "receive_public_key ssl i r w1 = Some (True, r1, w2)"
      "length (rx_buf r1) = FRAME_MAXSIZE" "concat (rx_in r1) = rest"
      "length (peers w2) = length (peers w)" "peers w2 ! i = (peers w ! i)\<lparr>pubkey := Ptr other\<rparr>"
      "send_good w2" "mallocs w2 = []" "host_le w2 = host_le w"
      "wire w2 ?s = wire w ?s @ wire_frame (host_le w) FRAME_HDR_AUTH (pem_write_pub ssl own)" "settled i w w2"
    using exchange_keys [OF ready laws(1) r cat] by blast
  have w2: "i < length (peers w2)" "alive (peers w2 ! i)" "send_good w2" "pubkey (peers w2 ! i) = Ptr other"
    using e(5,6,7) i by simp_all
  obtain key iv ct1 ct2 buf n rs wi where
    sec: "server_secrets ssl i r1 w2 = Some (Some (key, iv), r1\<lparr>rx_buf := buf\<rparr>, w2\<lparr>rng := n, send_rets := rs, wire := wi\<rparr>)"
      (is "_ = Some (_, _, ?w5)")
    and len: "length key = 32" "length iv = 16" and rs: "list_all (\<lambda>r. 0 < r) rs"
    and wi: "wi (sockfd (peers w2 ! i)) = wire w2 (sockfd (peers w2 ! i)) @
           wire_frame (host_le w2) FRAME_HDR_AUTH ct1 @ wire_frame (host_le w2) FRAME_HDR_AUTH ct2"
    and ct: "ct1 \<noteq> []" "length ct1 \<le> rsa_size ssl other" "rsa_private_decrypt ssl priv ct1 = Some key"
      "ct2 \<noteq> []" "length ct2 \<le> rsa_size ssl other" "rsa_private_decrypt ssl priv ct2 = Some iv"
    by (rule server_secrets_ok [OF w2 laws(2,3) size e(3)])
  have "evp_enc_init ssl key iv \<noteq> None \<and> evp_dec_init ssl key iv \<noteq> None"
    using laws(4) len unfolding evp_ready_def by blast
  then obtain ce cd where ctx: "evp_enc_init ssl key iv = Some ce" "evp_dec_init ssl key iv = Some cd" by blast
  let ?p = "(peers w2 ! i)\<lparr>enc_ctx := Ptr ce, dec_ctx := Ptr cd, authenticated := True\<rparr>"
  have "i < length (peers ?w5)" "mallocs ?w5 = []" using w2(1) e(8) by simp_all
  from setup_contexts_ok [OF this ctx]
  have set5: "setup_contexts ssl key iv i ?w5 = (True, set_peer i ?p ?w5)" by simp
  have "authenticate_peer ssl i r w = Some (True, r1\<lparr>rx_buf := buf\<rparr>, set_peer i ?p ?w5)"
    using i e(1,2,6) server sec set5 by (simp add: authenticate_peer_def agree_on_secrets_def)
  moreover have "keyed_with ssl key iv (peers (set_peer i ?p ?w5) ! i)"
    using w2(1) ctx by (simp add: keyed_with_def set_peer_def)
  moreover have "settled i w (set_peer i ?p ?w5)" by (intro settled_set_peer settled_sends e(11) rs)
  moreover have "wire (set_peer i ?p ?w5) ?s = wire w ?s @
             wire_frame (host_le w) FRAME_HDR_AUTH (pem_write_pub ssl own) @
             wire_frame (host_le w) FRAME_HDR_AUTH ct1 @ wire_frame (host_le w) FRAME_HDR_AUTH ct2"
    using e(6,9,10) wi by (simp add: set_peer_def)
  ultimately show ?thesis
    using e(4) len ct by (intro exI [of _ "r1\<lparr>rx_buf := buf\<rparr>"] exI [of _ "set_peer i ?p ?w5"]) auto
qed

lemma client_authenticates:
  assumes ready: "handshake_ready ssl i own other w" and client: "is_client (peers w ! i)"
    and laws: "pem_text ssl" "evp_ready ssl" and priv: "daemon_privkey w = Ptr priv"
    and size: "32 \<le> rsa_size ssl priv" "rsa_size ssl priv \<le> FRAME_PAYLOAD_MAXSIZE"
    and r: "length (rx_buf r) = FRAME_MAXSIZE" "chunks_ok (rx_in r)"
    and cat: "concat (rx_in r) = wire_frame (host_le w) FRAME_HDR_AUTH (pem_write_pub ssl other) @
                wire_frame (host_le w) FRAME_HDR_AUTH ct1 @ wire_frame (host_le w) FRAME_HDR_AUTH ct2 @ rest"
    and ct1: "ct1 \<noteq> []" "length ct1 \<le> rsa_size ssl priv" "rsa_private_decrypt ssl priv ct1 = Some key" "length key = 32"
    and ct2: "ct2 \<noteq> []" "length ct2 \<le> rsa_size ssl priv" "rsa_private_decrypt ssl priv ct2 = Some iv" "length iv = 16"
  shows "\<exists>r' w'. authenticate_peer ssl i r w = Some (True, r', w') \<and> concat (rx_in r') = rest \<and>
           keyed_with ssl key iv (peers w' ! i) \<and> settled i w w' \<and>
           wire w' (sockfd (peers w ! i)) = wire w (sockfd (peers w ! i)) @
             wire_frame (host_le w) FRAME_HDR_AUTH (pem_write_pub ssl own)"
proof -
  let ?s = "sockfd (peers w ! i)"
  have i: "i < length (peers w)" using ready by (simp add: handshake_ready_def)
  obtain w1 r1 w2 where e: "send_public_key ssl i w = Some (True, w1)" "receive_public_key ssl i r w1 = Some (True, r1, w2)"
      "length (rx_buf r1) = FRAME_MAXSIZE" "chunks_ok (rx_in r1)"
      "concat (rx_in r1) = wire_frame (host_le w) FRAME_HDR_AUTH ct1 @ wire_frame (host_le w) FRAME_HDR_AUTH ct2 @ rest"
      "length (peers w2) = length (peers w)" "peers w2 ! i = (peers w ! i)\<lparr>pubkey := Ptr other\<rparr>"
      "mallocs w2 = []" "host_le w2 = host_le w" "daemon_privkey w2 = daemon_privkey w"
      "wire w2 ?s = wire w ?s @ wire_frame (host_le w) FRAME_HDR_AUTH (pem_write_pub ssl own)" "settled i w w2"
    using exchange_keys [OF ready laws(1) r cat] by blast
  let ?d0 = "replicate (rsa_size ssl priv) (0 :: byte)"
  have d0: "length ?d0 = rsa_size ssl priv" by simp
  have "length key \<le> rsa_size ssl priv" using ct1(4) size(1) by simp
  from receive_secret_ok [OF e(3,4,5) ct1(1,2) size(2) ct1(3) d0 this] obtain r2 d1 where s1:
    "receive_secret ssl priv (length key) ?d0 (host_le w) r1 = Some (Some key, d1, r2)"
    "length (rx_buf r2) = FRAME_MAXSIZE" "chunks_ok (rx_in r2)"
    "concat (rx_in r2) = wire_frame (host_le w) FRAME_HDR_AUTH ct2 @ rest" "length d1 = rsa_size ssl priv"
    by auto
  have "length iv \<le> rsa_size ssl priv" using ct2(4) size(1) by simp
  from receive_secret_ok [OF s1(2,3,4) ct2(1,2) size(2) ct2(3) s1(5) this] obtain r3 d2 where s2:
    "receive_secret ssl priv (length iv) d1 (host_le w) r2 = Some (Some iv, d2, r3)" "concat (rx_in r3) = rest"
    by blast
  have sec: "client_secrets ssl r1 w2 = Some (Some (key, iv), r3)"
    using s1(1) s2(1) e(9,10) priv ct1(4) ct2(4)
    by (simp add: client_secrets_def get_daemon_privkey_def secret_sizes)
  have "evp_enc_init ssl key iv \<noteq> None \<and> evp_dec_init ssl key iv \<noteq> None"
    using laws(2) ct1(4) ct2(4) unfolding evp_ready_def by blast
  then obtain ce cd where ctx: "evp_enc_init ssl key iv = Some ce" "evp_dec_init ssl key iv = Some cd" by blast
  have i2: "i < length (peers w2)" using i e(6) by simp
  let ?p = "(peers w2 ! i)\<lparr>enc_ctx := Ptr ce, dec_ctx := Ptr cd, authenticated := True\<rparr>"
  have "authenticate_peer ssl i r w = Some (True, r3, set_peer i ?p w2)"
    using i e(1,2,7) client sec setup_contexts_ok [OF i2 e(8) ctx]
    by (simp add: authenticate_peer_def agree_on_secrets_def)
  moreover have "keyed_with ssl key iv (peers (set_peer i ?p w2) ! i)"
    using i2 ctx by (simp add: keyed_with_def set_peer_def)
  moreover have "wire (set_peer i ?p w2) ?s = wire w2 ?s" by (simp add: set_peer_def)
  ultimately show ?thesis using s2(2) e(11) settled_set_peer [OF e(12)] by auto
qed


section \<open>The frame loop on a stream of legal frames\<close>

function legal_stream :: "bool \<Rightarrow> byte list \<Rightarrow> bool" where
  "legal_stream le bs =
     (case decode_frame_header le bs of
        None \<Rightarrow> True
      | Some (t, n) \<Rightarrow>
          unat n \<le> FRAME_PAYLOAD_MAXSIZE \<and>
          (length bs < 5 + unat n \<or> legal_stream le (drop (5 + unat n) bs)))"
  by pat_completeness auto
termination
  by (relation "measure (\<lambda>(le, bs). length bs)") (auto simp: decode_frame_header_def split: list.splits)

declare legal_stream.simps [simp del]

lemma packet_only_length: "packet_only i w w' \<Longrightarrow> length (peers w') = length (peers w)"
  unfolding packet_only_def by (metis length_map)

lemma receive_legal:
  assumes "receive_frame le r = Some (ret, r1)" and "length (rx_buf r) = FRAME_MAXSIZE"
    and "legal_stream le (concat (rx_in r))" and "\<not> ret < 0"
  shows "length (rx_buf r1) = FRAME_MAXSIZE" and "unat (rx_len r1) \<le> FRAME_PAYLOAD_MAXSIZE"
    and "legal_stream le (concat (rx_in r1))"
proof -
  obtain bs where st: "frame_step le r ret r1 bs" and ne: "ret \<noteq> -1"
    using receive_frame_result [OF assms(2), of le] assms(1,4) by auto
  then have d: "decode_frame_header le bs = Some (rx_type r1, rx_len r1)"
    and cat: "concat (rx_in r) = bs @ concat (rx_in r1)" and b1: "length (rx_buf r1) = FRAME_MAXSIZE"
    by (simp_all add: frame_step_def)
  have "decode_frame_header le (concat (rx_in r)) = Some (rx_type r1, rx_len r1)"
    using d st ne decode_frame_header_take [of bs le]
      decode_frame_header_take [of "bs @ concat (rx_in r1)" le] by (simp add: cat frame_step_def)
  note legal = assms(3) [unfolded legal_stream.simps [of _ "concat (rx_in r)"] this]
  then show small: "unat (rx_len r1) \<le> FRAME_PAYLOAD_MAXSIZE" by simp
  have "length bs = 5 + unat (rx_len r1)" using st ne small by (simp add: frame_step_def)
  with legal cat show "legal_stream le (concat (rx_in r1))" by auto
  show "length (rx_buf r1) = FRAME_MAXSIZE" by (rule b1)
qed

lemma peer_loop_safe:
  "cbc_sizes ssl \<Longrightarrow> i < length (peers w) \<Longrightarrow> list_all ctxs_ok (peers w) \<Longrightarrow> (\<forall>k. wf_stack (sts k)) \<Longrightarrow>
     length (rx_buf r) = FRAME_MAXSIZE \<Longrightarrow> legal_stream (host_le w) (concat (rx_in r)) \<Longrightarrow>
     \<exists>r' w'. peer_loop ssl sts i r w = Some (r', w') \<and> packet_only i w w'"
proof (induction ssl sts i r w rule: peer_loop.induct)
  case (1 ssl sts i r w)
  obtain ret r1 where f: "receive_frame (host_le w) r = Some (ret, r1)"
    using receive_frame_result [OF "1.prems"(5)] by blast
  show ?case
  proof (cases "ret < 0")
    case True
    with f show ?thesis by (simp add: peer_loop.simps [of ssl sts i r w])
  next
    case False
    note legal = receive_legal [OF f "1.prems"(5,6) False]
    note b1 = legal(1) and small = legal(2) and next1 = legal(3)
    obtain res w1 where p: "process_frame ssl (sts 0) i (rx_buf r1) (rx_type r1) (rx_len r1) w = Some (res, w1)"
        "packet_only i w w1"
      using process_frame_safe [OF "1.prems"(1-3) _ b1 small, of "sts 0" "rx_type r1"] "1.prems"(4) by blast
    show ?thesis
    proof (cases "res < 0")
      case True
      with f False p show ?thesis by (simp add: peer_loop.simps [of ssl sts i r w])
    next
      case res: False
      have le: "host_le w1 = host_le w" using p(2) by (simp add: packet_only_def)
      have "\<exists>r' w'. peer_loop ssl (\<lambda>k. sts (Suc k)) i r1 w1 = Some (r', w') \<and> packet_only i w1 w'"
        using "1.prems" p packet_only_length [OF p(2)] packet_only_ctxs [OF p(2)] b1 next1 le
        by (intro "1.IH" [OF f refl False p(1) refl res]) simp_all
      then show ?thesis
        using f False p res packet_only_trans by (auto simp: peer_loop.simps [of ssl sts i r w])
    qed
  qed
qed

section \<open>Two daemons that trust each other, for the witnesses\<close>

definition demo_side :: "bool \<Rightarrow> bool \<Rightarrow> bool \<Rightarrow> (bool, byte list) peer_state" where
  "demo_side own other client =
     peer_state_init\<lparr>peers := [initialize_peer\<lparr>alive := True, sockfd := 4, is_client := client\<rparr>],
       daemon_pubkey := Ptr own, daemon_privkey := Ptr own, trusted_keys := [other]\<rparr>"

definition demo_rx :: "byte list list \<Rightarrow> rx" where
  "demo_rx cs = \<lparr>rx_buf = replicate 2053 0, rx_type = 0, rx_len = 0, rx_in = cs\<rparr>"

lemma demo_side_fields:
  "peers (demo_side own other client) = [initialize_peer\<lparr>alive := True, sockfd := 4, is_client := client\<rparr>]"
  "daemon_pubkey (demo_side own other client) = Ptr own" "daemon_privkey (demo_side own other client) = Ptr own"
  "trusted_keys (demo_side own other client) = [other]" "host_le (demo_side own other client)"
  "wire (demo_side own other client) = (\<lambda>_. [])" "mallocs (demo_side own other client) = []"
  "send_rets (demo_side own other client) = []"
  by (simp_all add: demo_side_def peer_state_init_def key_init_def iface_init_def cfg_init_def log_init_def
      os_init_def os.defs log_state.defs cfg_state.defs iface_state.defs key_state.defs)

lemma demo_rx_ok: "length (rx_buf (demo_rx cs)) = FRAME_MAXSIZE" "rx_in (demo_rx cs) = cs"
  by (simp_all add: demo_rx_def frame_sizes)

lemma demo_pem: "pem_write_pub toy_ssl k \<noteq> []" "length (pem_write_pub toy_ssl k) \<le> FRAME_PAYLOAD_MAXSIZE"
  by (simp_all add: toy_ssl_def frame_sizes)

lemma demo_ready: "handshake_ready toy_ssl 0 own other (demo_side own other client)"
  by (simp add: handshake_ready_def demo_side_fields send_good_def demo_pem)

lemma demo_size: "74 \<le> rsa_size toy_ssl k" "rsa_size toy_ssl k \<le> FRAME_PAYLOAD_MAXSIZE"
  by (simp_all add: toy_ssl_def frame_sizes)

text \<open>Both sides of the handshake: the contexts are of one key and IV.\<close>

lemma handshake_run:
  assumes "handshake_ready ssl i ks kc ws" and "\<not> is_client (peers ws ! i)"
    and "handshake_ready ssl j kc ks wc" and "is_client (peers wc ! j)"
    and "daemon_privkey wc = Ptr priv" and "host_le wc = host_le ws"
    and "pem_text ssl" and "rsa_pair ssl kc priv" and "rand_ok ssl" and "evp_ready ssl"
    and "74 \<le> rsa_size ssl kc" and "rsa_size ssl kc \<le> FRAME_PAYLOAD_MAXSIZE"
    and "length (rx_buf rs) = FRAME_MAXSIZE" and "chunks_ok (rx_in rs)"
    and "concat (rx_in rs) = wire_frame (host_le ws) FRAME_HDR_AUTH (pem_write_pub ssl kc)"
  shows "\<exists>rs' ws' key iv. authenticate_peer ssl i rs ws = Some (True, rs', ws') \<and>
           keyed_with ssl key iv (peers ws' ! i) \<and> settled i ws ws' \<and>
           (\<forall>rc. length (rx_buf rc) = FRAME_MAXSIZE \<longrightarrow> chunks_ok (rx_in rc) \<longrightarrow>
              concat (rx_in rc) = drop (length (wire ws (sockfd (peers ws ! i)))) (wire ws' (sockfd (peers ws ! i))) \<longrightarrow>
              (\<exists>rc' wc'. authenticate_peer ssl j rc wc = Some (True, rc', wc') \<and>
                 wire wc' (sockfd (peers wc ! j)) = wire wc (sockfd (peers wc ! j)) @ concat (rx_in rs) \<and>
                 concat (rx_in rc') = [] \<and> keyed_with ssl key iv (peers wc' ! j) \<and> settled j wc wc'))"
proof -
  have cat: "concat (rx_in rs) = wire_frame (host_le ws) FRAME_HDR_AUTH (pem_write_pub ssl kc) @ []"
    using assms(15) by simp
  obtain rs' ws' key iv ct1 ct2 where s: "authenticate_peer ssl i rs ws = Some (True, rs', ws')"
    "length key = 32" "length iv = 16" "keyed_with ssl key iv (peers ws' ! i)" "settled i ws ws'"
    "wire ws' (sockfd (peers ws ! i)) = wire ws (sockfd (peers ws ! i)) @
             wire_frame (host_le ws) FRAME_HDR_AUTH (pem_write_pub ssl ks) @
             wire_frame (host_le ws) FRAME_HDR_AUTH ct1 @ wire_frame (host_le ws) FRAME_HDR_AUTH ct2"
    "ct1 \<noteq> []" "length ct1 \<le> rsa_size ssl kc" "rsa_private_decrypt ssl priv ct1 = Some key"
    "ct2 \<noteq> []" "length ct2 \<le> rsa_size ssl kc" "rsa_private_decrypt ssl priv ct2 = Some iv"
    using server_authenticates [OF assms(1,2,7-14) cat] by blast
  have size: "rsa_size ssl priv = rsa_size ssl kc" using assms(8) by (simp add: rsa_pair_def)
  have "\<exists>rc' wc'. authenticate_peer ssl j rc wc = Some (True, rc', wc') \<and>
                 wire wc' (sockfd (peers wc ! j)) = wire wc (sockfd (peers wc ! j)) @ concat (rx_in rs) \<and>
                 concat (rx_in rc') = [] \<and> keyed_with ssl key iv (peers wc' ! j) \<and> settled j wc wc'"
    if rc: "length (rx_buf rc) = FRAME_MAXSIZE" "chunks_ok (rx_in rc)"
      "concat (rx_in rc) = drop (length (wire ws (sockfd (peers ws ! i)))) (wire ws' (sockfd (peers ws ! i)))" for rc
  proof -
    have "concat (rx_in rc) = wire_frame (host_le wc) FRAME_HDR_AUTH (pem_write_pub ssl ks) @
        wire_frame (host_le wc) FRAME_HDR_AUTH ct1 @ wire_frame (host_le wc) FRAME_HDR_AUTH ct2 @ []"
      using rc(3) s(6) assms(6) by simp
    from client_authenticates [OF assms(3,4,7,10,5) _ _ rc(1,2) this s(7) _ s(9,2,10) _ s(12,3)]
    show ?thesis using assms(6,11,12,15) s(8,11) size by auto
  qed
  with s(1,4,5) show ?thesis by blast
qed

section \<open>Properties\<close>

text \<open>C1. Authentication is sound: if \<open>authenticate_peer\<close> returns true, on any input and with any failing
  call, the peer ends up with the public key of one of the trusted keys and with both cipher
  contexts; otherwise its verdict is unchanged. No other peer's key, verdict or routes change.\<close>

theorem authentication_sound:
  assumes "pem_text ssl" and "authenticate_peer ssl i r w = Some (ok, r', w')"
  shows "(ok \<longrightarrow> authenticated (peers w' ! i) \<and>
            (\<exists>k \<in> set (trusted_keys w). pubkey (peers w' ! i) = Ptr k) \<and>
            (\<exists>c. enc_ctx (peers w' ! i) = Ptr c) \<and> (\<exists>c. dec_ctx (peers w' ! i) = Ptr c)) \<and>
         (\<not> ok \<longrightarrow> authenticated (peers w' ! i) = authenticated (peers w ! i)) \<and> auth_only i w w'"
  using authenticate_peer_result [OF assms(2)] assms(1) by blast

theorem authentication_sound_witness:
  "\<exists>r' w'. authenticate_peer toy_ssl 0 (demo_rx [wire_frame True FRAME_HDR_AUTH (pem_write_pub toy_ssl True)])
             (demo_side False True False) = Some (True, r', w') \<and>
           pubkey (peers w' ! 0) = Ptr True"
proof -
  let ?w = "demo_side False True False" and ?f = "wire_frame True FRAME_HDR_AUTH (pem_write_pub toy_ssl True)"
  have s: "\<not> is_client (peers ?w ! 0)" by (simp add: demo_side_fields initialize_peer_def)
  have c: "chunks_ok (rx_in (demo_rx [?f]))" "concat (rx_in (demo_rx [?f])) = wire_frame (host_le ?w) FRAME_HDR_AUTH (pem_write_pub toy_ssl True) @ []"
    by (simp_all add: demo_rx_ok demo_side_fields frame_bytes_def frame_header_def)
  obtain r' w' where a: "authenticate_peer toy_ssl 0 (demo_rx [?f]) ?w = Some (True, r', w')"
    using server_authenticates [OF demo_ready s toy_pem_text toy_rsa_pair toy_rand_ok toy_evp_ready demo_size
        demo_rx_ok(1) c] by blast
  then show ?thesis
    using authentication_sound [OF toy_pem_text a] by (auto simp: demo_side_fields)
qed

text \<open>The handshake completes: when two daemons that trust each other's key are connected and nothing
  fails, both sides authenticate, whatever the segmentation. The server's run on what the client
  sends produces a stream on which the client's run succeeds and sends just that; afterwards each
  side's decryption context belongs to the other's encryption context.\<close>

theorem handshake_completes:
  assumes "handshake_ready ssl i ks kc ws" and "\<not> is_client (peers ws ! i)"
    and "handshake_ready ssl j kc ks wc" and "is_client (peers wc ! j)"
    and "daemon_privkey wc = Ptr priv" and "host_le wc = host_le ws"
    and "pem_text ssl" and "rsa_pair ssl kc priv" and "rand_ok ssl" and "evp_ready ssl" and "cbc_pairs ssl R"
    and "74 \<le> rsa_size ssl kc" and "rsa_size ssl kc \<le> FRAME_PAYLOAD_MAXSIZE"
    and "length (rx_buf rs) = FRAME_MAXSIZE" and "chunks_ok (rx_in rs)"
    and "concat (rx_in rs) = wire_frame (host_le ws) FRAME_HDR_AUTH (pem_write_pub ssl kc)"
  shows "\<exists>rs' ws'. authenticate_peer ssl i rs ws = Some (True, rs', ws') \<and>
           (\<forall>rc. length (rx_buf rc) = FRAME_MAXSIZE \<longrightarrow> chunks_ok (rx_in rc) \<longrightarrow>
              concat (rx_in rc) = drop (length (wire ws (sockfd (peers ws ! i)))) (wire ws' (sockfd (peers ws ! i))) \<longrightarrow>
              (\<exists>rc' wc'. authenticate_peer ssl j rc wc = Some (True, rc', wc') \<and>
                 wire wc' (sockfd (peers wc ! j)) = wire wc (sockfd (peers wc ! j)) @ concat (rx_in rs) \<and>
                 concat (rx_in rc') = [] \<and>
                 (\<exists>es ds ec dc. enc_ctx (peers ws' ! i) = Ptr es \<and> dec_ctx (peers ws' ! i) = Ptr ds \<and>
                    enc_ctx (peers wc' ! j) = Ptr ec \<and> dec_ctx (peers wc' ! j) = Ptr dc \<and> R es dc \<and> R ec ds)))"
proof -
  obtain rs' ws' key iv where s: "authenticate_peer ssl i rs ws = Some (True, rs', ws')" "keyed_with ssl key iv (peers ws' ! i)"
    and c: "\<forall>rc. length (rx_buf rc) = FRAME_MAXSIZE \<longrightarrow> chunks_ok (rx_in rc) \<longrightarrow>
              concat (rx_in rc) = drop (length (wire ws (sockfd (peers ws ! i)))) (wire ws' (sockfd (peers ws ! i))) \<longrightarrow>
              (\<exists>rc' wc'. authenticate_peer ssl j rc wc = Some (True, rc', wc') \<and>
                 wire wc' (sockfd (peers wc ! j)) = wire wc (sockfd (peers wc ! j)) @ concat (rx_in rs) \<and>
                 concat (rx_in rc') = [] \<and> keyed_with ssl key iv (peers wc' ! j) \<and> settled j wc wc')"
    using handshake_run [OF assms(1-10,12-16)] by blast
  have "R ce cd" if "evp_enc_init ssl key iv = Some ce" "evp_dec_init ssl key iv = Some cd" for ce cd
    using assms(11) that unfolding cbc_pairs_def by blast
  with s c show ?thesis by (intro exI [of _ rs'] exI [of _ ws']) (fastforce simp: keyed_with_def)
qed

theorem handshake_completes_witness:
  "\<exists>rs' ws' rc' wc'.
     authenticate_peer toy_ssl 0 (demo_rx [wire_frame True FRAME_HDR_AUTH (pem_write_pub toy_ssl True)])
       (demo_side False True False) = Some (True, rs', ws') \<and>
     authenticate_peer toy_ssl 0 (demo_rx (map (\<lambda>b. [b]) (wire ws' 4))) (demo_side True False True) = Some (True, rc', wc')"
proof -
  let ?s = "demo_side False True False" and ?c = "demo_side True False True"
  let ?f = "wire_frame True FRAME_HDR_AUTH (pem_write_pub toy_ssl True)"
  have s: "\<not> is_client (peers ?s ! 0)" "is_client (peers ?c ! 0)" "daemon_privkey ?c = Ptr True" "host_le ?c = host_le ?s"
    "wire ?s (sockfd (peers ?s ! 0)) = []" "sockfd (peers ?s ! 0) = 4"
    by (simp_all add: demo_side_fields initialize_peer_def)
  have c: "chunks_ok (rx_in (demo_rx [?f]))" "concat (rx_in (demo_rx [?f])) = wire_frame (host_le ?s) FRAME_HDR_AUTH (pem_write_pub toy_ssl True)"
    by (simp_all add: demo_rx_ok demo_side_fields frame_bytes_def frame_header_def)
  obtain rs' ws' where h: "authenticate_peer toy_ssl 0 (demo_rx [?f]) ?s = Some (True, rs', ws')"
    "\<And>rc. length (rx_buf rc) = FRAME_MAXSIZE \<Longrightarrow> chunks_ok (rx_in rc) \<Longrightarrow>
       concat (rx_in rc) = drop (length (wire ?s (sockfd (peers ?s ! 0)))) (wire ws' (sockfd (peers ?s ! 0))) \<Longrightarrow>
       \<exists>rc' wc'. authenticate_peer toy_ssl 0 rc ?c = Some (True, rc', wc')"
    using handshake_completes [OF demo_ready s(1) demo_ready s(2-4) toy_pem_text toy_rsa_pair toy_rand_ok
        toy_evp_ready toy_cbc_pairs demo_size demo_rx_ok(1) c]
    by blast
  have "chunks_ok (map (\<lambda>b. [b]) bs)" "concat (map (\<lambda>b. [b]) bs) = bs" for bs
    by (induction bs) simp_all
  then have "\<exists>rc' wc'. authenticate_peer toy_ssl 0 (demo_rx (map (\<lambda>b. [b]) (wire ws' 4))) ?c = Some (True, rc', wc')"
    by (intro h(2)) (simp_all add: demo_rx_ok demo_side_fields)
  with h(1) show ?thesis by blast
qed



text \<open>The frame loop of an authenticated connection is memory safe and ends, on every stream whose
  headers announce at most 2048 bytes, complete or cut anywhere, with any contents, any failing
  \<open>send\<close> or \<open>write\<close>, and any stack contents; and all it does to the peers is to add routes to its own
  one and to advance cipher contexts.\<close>

theorem frame_loop_safe:
  assumes "cbc_sizes ssl" and "i < length (peers w)" and "list_all ctxs_ok (peers w)"
    and "\<forall>k. wf_stack (sts k)" and "length (rx_buf r) = FRAME_MAXSIZE"
    and "legal_stream (host_le w) (concat (rx_in r))"
  shows "\<exists>r' w'. peer_loop ssl sts i r w = Some (r', w') \<and> packet_only i w w'"
  using assms by (rule peer_loop_safe)

theorem frame_loop_safe_witness:
  "\<exists>r' w'. peer_loop toy_ssl (\<lambda>_. demo_stack) 0 (demo_rx [[8, 16, 0, 0, 0, 1, 2, 3]]) demo_world = Some (r', w') \<and>
     packet_only 0 demo_world w'"
proof -
  have i: "0 < length (peers demo_world)" and c: "list_all ctxs_ok (peers demo_world)"
    by (simp_all add: demo_world_fields ctxs_ok_def demo_peer_fields)
  have d: "decode_frame_header (host_le demo_world) [8, 16, 0, 0, 0, 1, 2, 3] = Some (8, 16)"
    by (simp add: demo_world_fields decode_frame_header_def read_uint32_def join32_def)
  have u: "unat (16 :: u32) = 16" by simp
  have l: "legal_stream (host_le demo_world) (concat (rx_in (demo_rx [[8, 16, 0, 0, 0, 1, 2, 3]])))"
    by (subst legal_stream.simps) (simp add: demo_rx_ok d u frame_sizes)
  show ?thesis
    using frame_loop_safe [OF toy_cbc_sizes i c _ demo_rx_ok(1) l, of "\<lambda>_. demo_stack"] demo_stack_wf by blast
qed

end
