(* ===== verification/Connection.thy ===== *)
theory Connection
  imports Handshake
begin

text \<open>
  \<open>_peer_connection\<close> of \<open>src/peer.c\<close>: the whole life of one connection, from the handshake to the
  closed socket, composed of \<open>peer_receive\<close> (theory \<open>Handshake\<close>) and the end of the thread (theory
  \<open>Peer\<close>). The first group of lemmas shows what it leaves alone, the second that it is defined.
\<close>

definition connection_thread ::
  "('k, 'c) openssl \<Rightarrow> (nat \<Rightarrow> stack) \<Rightarrow> (nat \<Rightarrow> byte) \<Rightarrow> nat \<Rightarrow> byte list list
     \<Rightarrow> ('k, 'c, 'a) peer_state_scheme \<Rightarrow> ('k, 'c, 'a) peer_state_scheme option" where
  "connection_thread ssl sts heap_bytes i cs w =
     do { w1 \<leftarrow> peer_receive ssl sts heap_bytes i cs w; Some (peer_disconnect i w1) }"

section \<open>What goes out on the other sockets\<close>

definition own_wire :: "int \<Rightarrow> ('k, 'c, 'a) peer_state_scheme \<Rightarrow> ('k, 'c, 'a) peer_state_scheme \<Rightarrow> bool" where
  "own_wire s w w' \<longleftrightarrow> (\<forall>fd. fd \<noteq> s \<longrightarrow> wire w' fd = wire w fd)"

lemma own_wire_refl [simp]: "own_wire s w w"
  by (simp add: own_wire_def)

lemma own_wire_trans: "own_wire s w w1 \<Longrightarrow> own_wire s w1 w2 \<Longrightarrow> own_wire s w w2"
  by (simp add: own_wire_def)

lemma own_wire_same: "wire w' = wire w \<Longrightarrow> own_wire s w w'"
  by (simp add: own_wire_def)

lemma put_frame_wire:
  assumes "put_frame s t data len w = Some w'"
  shows "own_wire s w w'"
proof -
  from assms have "unat len \<le> length data"
    by (auto simp: put_frame_def mem_read_def split: Option.bind_splits if_splits)
  from put_frame_result [OF this, of s t w] assms show ?thesis by (auto simp: own_wire_def)
qed

lemma send_plain_wire:
  assumes "send_data_to_peer ssl t data len False i w = Some w'"
  shows "own_wire (sockfd (peers w ! i)) w w'"
proof -
  have "w' = w \<or> put_frame (sockfd (peers w ! i)) t data len w = Some w'"
    using assms unfolding send_data_to_peer_def Let_def by (simp split: if_splits)
  then show ?thesis by (auto dest: put_frame_wire)
qed

lemma send_public_key_wire:
  assumes "send_public_key ssl i w = Some (ok, w')"
  shows "own_wire (sockfd (peers w ! i)) w w'"
proof -
  obtain b w1 where m: "malloc w = (b, w1)" by (cases "malloc w")
  then obtain ms where w1: "w1 = w\<lparr>mallocs := ms\<rparr>" by (elim mallocE)
  have "w' = w1 \<or> (\<exists>d n. send_data_to_peer ssl FRAME_HDR_AUTH d n False i w1 = Some w')"
    using assms m by (cases b) (auto simp: send_public_key_def Let_def split: Option.bind_splits)
  then show ?thesis
    using send_plain_wire [of ssl FRAME_HDR_AUTH _ _ i w1 w'] by (auto simp: w1 own_wire_def)
qed

lemma receive_public_key_wire:
  assumes "receive_public_key ssl i r w = Some (ok, r', w')"
  shows "wire w' = wire w"
proof -
  have l: "wire w1 = wire w" if "load_rsa_key_from_string ssl k n p w = Some (key, w1)" for k n p key w1
    using that by (cases "malloc w")
      (auto simp: load_rsa_key_from_string_def Option.bind_eq_Some_conv split: bool.splits elim!: mallocE)
  have t: "wire (snd (is_trusted_key ssl k w1)) = wire w1" for k and w1 :: "('a, 'b, 'c) peer_state_scheme"
    by (rule is_trusted_keyE [of ssl k w1 "fst (is_trusted_key ssl k w1)" "snd (is_trusted_key ssl k w1)"]) simp_all
  show ?thesis
    using assms
    by (auto simp: receive_public_key_def Option.bind_eq_Some_conv Let_def set_peer_def case_prod_unfold
        t split: if_splits option.splits dest!: l)
qed

lemma send_secret_wire:
  assumes "send_secret ssl s i buf w = Some (ok, buf', w')"
  shows "own_wire (sockfd (peers w ! i)) w w'"
proof -
  let ?w = "w\<lparr>rng := rng w + 1\<rparr>"
  have "w' = ?w \<or> (\<exists>d n. send_data_to_peer ssl FRAME_HDR_AUTH d n False i ?w = Some w')"
    using assms by (auto simp: send_secret_def Let_def split: Option.bind_splits if_splits)
  then show ?thesis
    using send_plain_wire [of ssl FRAME_HDR_AUTH _ _ i ?w w'] by (auto simp: own_wire_def)
qed

lemma server_secrets_wire:
  assumes "server_secrets ssl i r w = Some (s, r', w')" and "i < length (peers w)"
  shows "own_wire (sockfd (peers w ! i)) w w'"
proof -
  let ?w = "\<lambda>n. w\<lparr>rng := rng w + n\<rparr>"
  have two: "own_wire (sockfd (peers w ! i)) w w4"
    if a: "send_secret ssl k i b (w\<lparr>rng := n\<rparr>) = Some (ok, b', w3)" and "send_secret ssl v i b' w3 = Some (ok', b'', w4)"
    for k v b b' b'' ok ok' w3 w4 n
  proof -
    have "auth_quiet i (w\<lparr>rng := n\<rparr>) w3" using a by (rule send_secret_quiet)
    then have "sockfd (peers w3 ! i) = sockfd (peers w ! i)"
      using assms(2) peer_core_eqD(1) by (auto simp: auth_quiet_def)
    then show ?thesis
      using send_secret_wire [OF a] send_secret_wire [OF that(2)] by (auto simp: own_wire_def)
  qed
  have one: "own_wire (sockfd (peers w ! i)) w w3" if "send_secret ssl k i b (w\<lparr>rng := n\<rparr>) = Some (ok, b', w3)"
    for k b b' ok w3 n
    using send_secret_wire [OF that] by (simp add: own_wire_def)
  show ?thesis
    using assms(1)
    by (auto simp: server_secrets_def rand_bytes_def Option.bind_eq_Some_conv own_wire_same
        split: option.splits if_splits dest: two one)
qed

lemma setup_contexts_wire: "wire (snd (setup_contexts ssl key iv i w)) = wire w"
proof -
  have a: "wire (snd (aes_init_ctx ssl key iv e v)) = wire v" for e and v :: "('a, 'b, 'c) peer_state_scheme"
    by (cases "malloc v") (auto simp: aes_init_ctx_def elim!: mallocE split: bool.splits)
  show ?thesis by (simp add: setup_contexts_def Let_def case_prod_unfold set_peer_def a)
qed

lemma agree_on_secrets_wire:
  assumes "agree_on_secrets ssl i r w = Some (ok, r', w')" and "i < length (peers w)"
  shows "own_wire (sockfd (peers w ! i)) w w'"
proof -
  obtain secrets r1 w1 where s: "w1 = w \<or> server_secrets ssl i r w = Some (secrets, r1, w1)"
    and rest: "w' = w1 \<or> (\<exists>key iv. w' = snd (setup_contexts ssl key iv i w1))"
    using assms(1)
    by (auto simp: agree_on_secrets_def Option.bind_eq_Some_conv case_prod_unfold split: if_splits option.splits; metis)
  have "own_wire (sockfd (peers w ! i)) w w1" using s server_secrets_wire [OF _ assms(2)] by auto
  then show ?thesis using rest by (auto simp: own_wire_def setup_contexts_wire)
qed

lemma authenticate_wire:
  assumes "authenticate_peer ssl i r w = Some (ok, r', w')"
  shows "own_wire (sockfd (peers w ! i)) w w'"
proof -
  let ?s = "sockfd (peers w ! i)"
  have i: "i < length (peers w)" using assms by (auto simp: authenticate_peer_def split: if_splits)
  obtain ok1 w1 where s1: "send_public_key ssl i w = Some (ok1, w1)"
    using assms i by (auto simp: authenticate_peer_def split: Option.bind_splits)
  have o1: "own_wire ?s w w1" using s1 by (rule send_public_key_wire)
  have p1: "sockfd (peers w1 ! i) = ?s" "i < length (peers w1)"
    using send_public_key_quiet [OF s1] i peer_core_eqD(1) by (auto simp: auth_quiet_def auth_only_def)
  show ?thesis
  proof (cases ok1)
    case False
    with assms i s1 o1 show ?thesis by (simp add: authenticate_peer_def)
  next
    case ok1: True
    with assms i s1 obtain ok2 r1 w2 where s2: "receive_public_key ssl i r w1 = Some (ok2, r1, w2)"
      by (auto simp: authenticate_peer_def split: Option.bind_splits)
    have o2: "own_wire ?s w w2" using o1 receive_public_key_wire [OF s2] by (simp add: own_wire_def)
    have "auth_only i w1 w2" using receive_public_key_result [OF s2 p1(2)] by simp
    then have "unkeyed (peers w2 ! i) = unkeyed (peers w1 ! i)" and i2: "i < length (peers w2)"
      using p1(2) by (simp_all add: auth_only_def)
    from arg_cong [OF this(1), of sockfd] have p2: "sockfd (peers w2 ! i) = ?s" by (simp add: unkeyed_def p1(1))
    show ?thesis
    proof (cases ok2)
      case False
      with assms i s1 ok1 s2 o2 show ?thesis by (simp add: authenticate_peer_def)
    next
      case True
      with assms i s1 ok1 s2 have "agree_on_secrets ssl i r1 w2 = Some (ok, r', w')" by (simp add: authenticate_peer_def)
      from agree_on_secrets_wire [OF this i2] o2 show ?thesis unfolding p2 by (rule own_wire_trans [rotated])
    qed
  qed
qed

section \<open>What a connection may change\<close>

lemma peer_loop_only:
  "peer_loop ssl sts i r w = Some (r', w') \<Longrightarrow> (\<forall>k. wf_stack (sts k)) \<Longrightarrow> packet_only i w w'"
proof (induction ssl sts i r w rule: peer_loop.induct)
  case (1 ssl sts i r w)
  obtain ret r1 where f: "receive_frame (host_le w) r = Some (ret, r1)"
    using "1.prems"(1) by (auto simp: peer_loop.simps [of ssl sts i r w] split: option.splits)
  show ?case
  proof (cases "ret < 0")
    case True
    with f "1.prems"(1) show ?thesis by (simp add: peer_loop.simps [of ssl sts i r w])
  next
    case False
    with f "1.prems"(1) obtain res w1 where
      p: "process_frame ssl (sts 0) i (rx_buf r1) (rx_type r1) (rx_len r1) w = Some (res, w1)"
      by (auto simp: peer_loop.simps [of ssl sts i r w] split: option.splits)
    have o: "packet_only i w w1" using process_frame_only [OF p] "1.prems"(2) by blast
    show ?thesis
    proof (cases "res < 0")
      case True
      with f False p "1.prems"(1) o show ?thesis by (simp add: peer_loop.simps [of ssl sts i r w])
    next
      case res: False
      have "peer_loop ssl (\<lambda>k. sts (Suc k)) i r1 w1 = Some (r', w')"
        using f False p res "1.prems"(1) by (simp add: peer_loop.simps [of ssl sts i r w])
      from "1.IH" [OF f refl False p refl res this] "1.prems"(2) o show ?thesis
        using packet_only_trans by blast
    qed
  qed
qed

lemma peer_receive_cases:
  assumes "peer_receive ssl sts hb i cs w = Some w1" and "\<forall>k. wf_stack (sts k)"
  obtains (no_memory) ms where "w1 = w\<lparr>mallocs := ms\<rparr>"
  | (refused) ms r q where "authenticate_peer ssl i r (w\<lparr>mallocs := ms\<rparr>) = Some (False, q, w1)"
  | (served) ms r q v where "authenticate_peer ssl i r (w\<lparr>mallocs := ms\<rparr>) = Some (True, q, v)" and "packet_only i v w1"
proof -
  let ?r = "\<lparr>rx_buf = map hb [0..<FRAME_MAXSIZE], rx_type = 0, rx_len = 0, rx_in = cs\<rparr>"
  obtain b wm where m: "malloc w = (b, wm)" by (cases "malloc w")
  then obtain ms where wm: "wm = w\<lparr>mallocs := ms\<rparr>" by (elim mallocE)
  show thesis
  proof (cases b)
    case False
    with assms(1) m have "w1 = w\<lparr>mallocs := ms\<rparr>" by (simp add: peer_receive_def wm)
    then show thesis by (rule no_memory)
  next
    case True
    with assms(1) m obtain ok r1 w2 where a: "authenticate_peer ssl i ?r (w\<lparr>mallocs := ms\<rparr>) = Some (ok, r1, w2)"
      and l: "if ok then \<exists>r2. peer_loop ssl sts i (r1\<lparr>rx_type := 0, rx_len := 0\<rparr>) w2 = Some (r2, w1) else w1 = w2"
      by (auto simp: peer_receive_def wm Option.bind_eq_Some_conv Let_def split: if_splits)
    show thesis
    proof (cases ok)
      case True
      with l peer_loop_only [OF _ assms(2)] have "packet_only i w2 w1" by auto
      with a True show thesis by (intro served [where ms = ms and r = ?r and q = r1 and v = w2]) simp_all
    next
      case False
      with a l show thesis by (intro refused [where ms = ms and r = ?r and q = r1]) simp_all
    qed
  qed
qed

lemma auth_only_mallocs: "auth_only i (w\<lparr>mallocs := ms\<rparr>) w' = auth_only i w w'"
  by (simp add: auth_only_def)

text \<open>\<open>conn_only i\<close>: what a connection leaves alone, before its socket is closed.\<close>

definition conn_only :: "nat \<Rightarrow> ('k, 'c, 'a) peer_state_scheme \<Rightarrow> ('k, 'c, 'a) peer_state_scheme \<Rightarrow> bool" where
  "conn_only i w w' \<longleftrightarrow>
     length (peers w') = length (peers w) \<and> sockfd (peers w' ! i) = sockfd (peers w ! i) \<and>
     (\<forall>j < length (peers w). j \<noteq> i \<longrightarrow> peer_core (peers w' ! j) = peer_core (peers w ! j)) \<and>
     local_routes w' = local_routes w \<and> trusted_keys w' = trusted_keys w \<and>
     daemon_pubkey w' = daemon_pubkey w \<and> daemon_privkey w' = daemon_privkey w \<and>
     if_fd w' = if_fd w \<and> closed w' = closed w"

lemma auth_conn_only:
  assumes "auth_only i w w'" and "i < length (peers w)"
  shows "conn_only i w w'" and "peer_routes (peers w' ! i) = peer_routes (peers w ! i)"
proof -
  have u: "unkeyed (peers w' ! i) = unkeyed (peers w ! i)" using assms by (simp add: auth_only_def)
  from arg_cong [OF u, of sockfd] arg_cong [OF u, of peer_routes]
  show "conn_only i w w'" and "peer_routes (peers w' ! i) = peer_routes (peers w ! i)"
    using assms by (simp_all add: conn_only_def auth_only_def unkeyed_def)
qed

lemma sans_routes_core:
  assumes "peer_sans_routes p = peer_sans_routes q" and "peer_routes p = peer_routes q"
  shows "peer_core p = peer_core q"
proof -
  have "p\<lparr>peer_routes := [], enc_ctx := Null, dec_ctx := Null\<rparr> = q\<lparr>peer_routes := [], enc_ctx := Null, dec_ctx := Null\<rparr>"
    "map_cptr (\<lambda>_. ()) (enc_ctx p) = map_cptr (\<lambda>_. ()) (enc_ctx q)" "map_cptr (\<lambda>_. ()) (dec_ctx p) = map_cptr (\<lambda>_. ()) (dec_ctx q)"
    using assms(1) by (simp_all add: peer_sans_routes_def peer_core_def)
  moreover from this(1) assms(2) have "p\<lparr>enc_ctx := Null, dec_ctx := Null\<rparr> = q\<lparr>enc_ctx := Null, dec_ctx := Null\<rparr>"
    by (cases p; cases q) simp
  ultimately show ?thesis by (simp add: peer_core_def)
qed

lemma packet_conn_only:
  assumes "packet_only i w w'" and "i < length (peers w)"
  shows "conn_only i w w'" and "authenticated (peers w' ! i) = authenticated (peers w ! i)"
    and "pubkey (peers w' ! i) = pubkey (peers w ! i)"
proof -
  have len: "length (peers w') = length (peers w)" using assms(1) by (rule packet_only_length)
  note f = packet_only_nth [OF assms(1)]
  show "authenticated (peers w' ! i) = authenticated (peers w ! i)" "pubkey (peers w' ! i) = pubkey (peers w ! i)"
    using f(3,4) [OF assms(2)] .
  show "conn_only i w w'"
    using assms(1) f(6) [OF assms(2)] f(1,7) len by (auto simp: conn_only_def packet_only_def intro: sans_routes_core)
qed

lemma conn_only_trans: "conn_only i w w1 \<Longrightarrow> conn_only i w1 w2 \<Longrightarrow> conn_only i w w2"
  by (simp add: conn_only_def)

lemma conn_only_mallocs: "conn_only i (w\<lparr>mallocs := ms\<rparr>) w' = conn_only i w w'"
  by (simp add: conn_only_def)

text \<open>The result of the thread that serves the connection.\<close>

lemma peer_receive_result:
  assumes "peer_receive ssl sts hb i cs w = Some w1" and "\<forall>k. wf_stack (sts k)" and "i < length (peers w)"
    and "\<not> authenticated (peers w ! i)" and "pem_text ssl"
  shows "conn_only i w w1 \<and>
         (if authenticated (peers w1 ! i) then \<exists>k \<in> set (trusted_keys w). pubkey (peers w1 ! i) = Ptr k
          else tun_out w1 = tun_out w \<and> peer_routes (peers w1 ! i) = peer_routes (peers w ! i) \<and>
               own_wire (sockfd (peers w ! i)) w w1)"
  using assms(1,2)
proof (cases rule: peer_receive_cases)
  case (no_memory ms)
  then have "conn_only i w w1" "peers w1 = peers w" "tun_out w1 = tun_out w" "wire w1 = wire w"
    by (simp_all add: conn_only_def)
  then show ?thesis using assms(4) by (simp add: own_wire_def)
next
  case (refused ms r q)
  note a = authenticate_peer_result [OF refused]
  then have o: "auth_only i w w1" by (simp only: auth_only_mallocs)
  have "own_wire (sockfd (peers w ! i)) w w1" using authenticate_wire [OF refused] by (simp add: own_wire_def)
  moreover have "tun_out w1 = tun_out w" "\<not> authenticated (peers w1 ! i)"
    using o a assms(4) by (simp_all add: auth_only_def)
  ultimately show ?thesis using auth_conn_only [OF o assms(3)] by simp
next
  case (served ms r q w2)
  note a = authenticate_peer_result [OF served(1)]
  then have "auth_only i w w2" by (simp only: auth_only_mallocs)
  then have c: "conn_only i w w2" using assms(3) by (rule auth_conn_only)
  then have "i < length (peers w2)" using assms(3) by (simp add: conn_only_def)
  note p = packet_conn_only [OF served(2) this]
  have "authenticated (peers w1 ! i)" "\<exists>k \<in> set (trusted_keys w). pubkey (peers w1 ! i) = Ptr k"
    using a assms(5) by (simp_all add: p(2,3))
  then show ?thesis using conn_only_trans [OF c p(1)] by simp
qed

section \<open>When a connection is defined\<close>

text \<open>The buffer has its size, and no header on the rest of the stream announces too much.\<close>

definition rx_legal :: "bool \<Rightarrow> rx \<Rightarrow> bool" where
  "rx_legal le r \<longleftrightarrow> length (rx_buf r) = FRAME_MAXSIZE \<and> legal_stream le (concat (rx_in r))"

lemma receive_rx_legal:
  assumes "rx_legal le r"
  shows "\<exists>ret r1. receive_frame le r = Some (ret, r1) \<and>
           (\<not> ret < 0 \<longrightarrow> rx_legal le r1 \<and> unat (rx_len r1) \<le> FRAME_PAYLOAD_MAXSIZE)"
proof -
  have l: "length (rx_buf r) = FRAME_MAXSIZE" "legal_stream le (concat (rx_in r))"
    using assms by (simp_all add: rx_legal_def)
  obtain ret r1 where f: "receive_frame le r = Some (ret, r1)" using receive_frame_result [OF l(1)] by blast
  show ?thesis using f receive_legal [OF f l] by (auto simp: rx_legal_def)
qed

lemma rx_legal_fields [simp]: "rx_legal le (r\<lparr>rx_type := t, rx_len := n\<rparr>) = rx_legal le r"
  by (simp add: rx_legal_def)

lemma unat_of_nat_le: "unat (of_nat n :: u32) \<le> n"
  by (simp add: unat_of_nat)

lemma send_public_key_defined:
  assumes "i < length (peers w)" and "daemon_pubkey w = Ptr k"
  shows "send_public_key ssl i w \<noteq> None"
proof -
  obtain b w1 where m: "malloc w = (b, w1)" by (cases "malloc w")
  then obtain ms where w1: "w1 = w\<lparr>mallocs := ms\<rparr>" by (elim mallocE)
  let ?pem = "pem_write_pub ssl k"
  obtain w2 where "send_data_to_peer ssl FRAME_HDR_AUTH ?pem (of_nat (length ?pem)) False i w1 = Some w2"
    using send_defined [of i w1 "of_nat (length ?pem)" ?pem False ssl FRAME_HDR_AUTH] assms unat_of_nat_le
    by (auto simp: w1)
  then show ?thesis using assms(2) m by (cases b) (auto simp: send_public_key_def get_daemon_pubkey_def w1)
qed

lemma load_from_frame_defined:
  assumes "length (rx_buf r) = FRAME_MAXSIZE" and "unat (rx_len r) \<le> FRAME_PAYLOAD_MAXSIZE"
  shows "load_rsa_key_from_string ssl (drop FRAME_HEADER_SIZE (rx_buf r)) (rx_len r) p w \<noteq> None"
  using bio_mem_buf_small [of "rx_len r" "drop FRAME_HEADER_SIZE (rx_buf r)"] assms
  by (cases "malloc w") (auto simp: load_rsa_key_from_string_def frame_sizes split: bool.splits)

lemma receive_public_key_defined:
  assumes "rx_legal (host_le w) r"
  shows "\<exists>ok r' w'. receive_public_key ssl i r w = Some (ok, r', w') \<and> (ok \<longrightarrow> rx_legal (host_le w) r')"
proof -
  have "rx_legal (host_le w) (r\<lparr>rx_type := 0, rx_len := 0\<rparr>)" using assms by simp
  from receive_rx_legal [OF this] obtain ret r1 where
    f: "receive_frame (host_le w) (r\<lparr>rx_type := 0, rx_len := 0\<rparr>) = Some (ret, r1)"
    and l: "\<not> ret < 0 \<longrightarrow> rx_legal (host_le w) r1 \<and> unat (rx_len r1) \<le> FRAME_PAYLOAD_MAXSIZE" by blast
  show ?thesis
  proof (cases "ret < 0 \<or> rx_type r1 \<noteq> FRAME_HDR_AUTH \<or> rx_len r1 = 0")
    case True
    then show ?thesis by (auto simp: receive_public_key_def f)
  next
    case False
    with l load_from_frame_defined [of r1 ssl True w] obtain key w1 where
      "load_rsa_key_from_string ssl (drop FRAME_HEADER_SIZE (rx_buf r1)) (rx_len r1) True w = Some (key, w1)"
      by (auto simp: rx_legal_def)
    with False l show ?thesis
      by (cases key) (auto simp: receive_public_key_def f Let_def case_prod_unfold)
  qed
qed

lemma rsa_decrypt_defined:
  assumes "rsa_sizes ssl" and "length dest = rsa_size ssl k" and "rsa_size ssl k < 2 ^ 32" and "unat n \<le> length src"
  shows "\<exists>m d. rsa_decrypt ssl src n dest (Some k) = Some (m, d) \<and> length d = length dest \<and> m \<le> int (length dest)"
proof (cases "n > of_nat (rsa_size ssl k)")
  case True
  then show ?thesis by (auto simp: rsa_decrypt_def)
next
  case False
  have "unat (of_nat (rsa_size ssl k) :: u32) = rsa_size ssl k"
    using assms(3) by (simp add: unat_of_nat)
  then have n: "unat n \<le> rsa_size ssl k" using False by (simp add: word_less_nat_alt)
  have r: "mem_read src 0 (unat n) = Some (take (unat n) src)" using assms(4) by (simp add: mem_read_def)
  show ?thesis
  proof (cases "rsa_private_decrypt ssl k (take (unat n) src)")
    case None
    with False r show ?thesis by (auto simp: rsa_decrypt_def)
  next
    case (Some pt)
    have "length pt \<le> length dest" using assms(1,2) Some n by (simp add: rsa_sizes_def)
    then have "mem_write dest 0 pt = Some (pt @ drop (length pt) dest)" by (simp add: mem_write_def)
    with False r Some \<open>length pt \<le> length dest\<close> show ?thesis by (auto simp: rsa_decrypt_def)
  qed
qed

lemma receive_secret_defined:
  assumes "rx_legal le r" and "rsa_sizes ssl" and "length d = rsa_size ssl k" and "rsa_size ssl k < 2 ^ 32"
  shows "\<exists>s d' r'. receive_secret ssl k n d le r = Some (s, d', r') \<and> length d' = length d \<and> (s \<noteq> None \<longrightarrow> rx_legal le r')"
proof -
  obtain ret r1 where f: "receive_frame le r = Some (ret, r1)"
    and l: "\<not> ret < 0 \<longrightarrow> rx_legal le r1 \<and> unat (rx_len r1) \<le> FRAME_PAYLOAD_MAXSIZE"
    using receive_rx_legal [OF assms(1)] by blast
  show ?thesis
  proof (cases "ret < 0 \<or> rx_type r1 \<noteq> FRAME_HDR_AUTH \<or> rx_len r1 = 0 \<or> rx_len r1 > of_nat (length d)")
    case True
    then show ?thesis by (auto simp: receive_secret_def f)
  next
    case False
    then have "unat (rx_len r1) \<le> length (drop FRAME_HEADER_SIZE (rx_buf r1))"
      using l by (auto simp: rx_legal_def frame_sizes)
    from rsa_decrypt_defined [OF assms(2-4) this] obtain m d' where
      m: "rsa_decrypt ssl (drop FRAME_HEADER_SIZE (rx_buf r1)) (rx_len r1) d (Some k) = Some (m, d')"
        "length d' = length d" "m \<le> int (length d)" by blast
    show ?thesis
    proof (cases "m = int n")
      case True
      with m(2,3) have "mem_read d' 0 n = Some (take n d')" by (simp add: mem_read_def)
      with True False f m l show ?thesis by (auto simp: receive_secret_def)
    next
      case ne: False
      with False f m show ?thesis by (auto simp: receive_secret_def)
    qed
  qed
qed

lemma client_secrets_defined:
  assumes "rx_legal (host_le w) r" and "rsa_sizes ssl" and "daemon_privkey w = Ptr k" and "rsa_size ssl k < 2 ^ 32"
  shows "\<exists>s r'. client_secrets ssl r w = Some (s, r') \<and> (s \<noteq> None \<longrightarrow> rx_legal (host_le w) r')"
proof -
  have "length (replicate (rsa_size ssl k) 0 :: byte list) = rsa_size ssl k" by simp
  from receive_secret_defined [OF assms(1,2) this assms(4), of AES_KEY_SIZE] obtain key d r1 where
    1: "receive_secret ssl k AES_KEY_SIZE (replicate (rsa_size ssl k) 0) (host_le w) r = Some (key, d, r1)"
      "length d = rsa_size ssl k" "key \<noteq> None \<longrightarrow> rx_legal (host_le w) r1" by auto
  show ?thesis
  proof (cases key)
    case None
    with 1 assms(3) show ?thesis by (simp add: client_secrets_def get_daemon_privkey_def)
  next
    case (Some v)
    with 1 receive_secret_defined [OF _ assms(2) 1(2) assms(4), of "host_le w" r1 AES_IV_SIZE] obtain iv d' r2 where
      2: "receive_secret ssl k AES_IV_SIZE d (host_le w) r1 = Some (iv, d', r2)" "iv \<noteq> None \<longrightarrow> rx_legal (host_le w) r2"
      by auto
    with Some 1 assms(3) show ?thesis by (simp add: client_secrets_def get_daemon_privkey_def)
  qed
qed

lemma rsa_encrypt_defined:
  assumes "rsa_sizes ssl" and "rsa_size ssl k \<le> length dest" and "length src < 2 ^ 32"
  shows "\<exists>m d. rsa_encrypt ssl call src (of_nat (length src)) dest (Some k) = Some (m, d) \<and> length d = length dest \<and>
           m \<le> int (length dest)"
proof -
  have "unat (of_nat (length src) :: u32) = length src" using assms(3) by (simp add: unat_of_nat)
  then have r: "mem_read src 0 (unat (of_nat (length src) :: u32)) = Some src" by (simp add: mem_read_def)
  show ?thesis
  proof (cases "of_nat (length src) > RSA_MAXSIZE ssl k \<or> rsa_public_encrypt ssl call k src = None")
    case True
    with r show ?thesis by (auto simp: rsa_encrypt_def)
  next
    case False
    then obtain ct where ct: "rsa_public_encrypt ssl call k src = Some ct" by auto
    then have "length ct \<le> length dest" using assms(1,2) unfolding rsa_sizes_def by (meson order_trans)
    moreover from this have "mem_write dest 0 ct = Some (ct @ drop (length ct) dest)" by (simp add: mem_write_def)
    ultimately show ?thesis using False r ct by (auto simp: rsa_encrypt_def)
  qed
qed

lemma send_secret_defined:
  assumes "i < length (peers w)" and "pubkey (peers w ! i) = Ptr k" and "rsa_sizes ssl"
    and "rsa_size ssl k \<le> length buf" and "length s < 2 ^ 32"
  shows "\<exists>ok buf' w'. send_secret ssl s i buf w = Some (ok, buf', w') \<and> length buf' = length buf \<and> auth_quiet i w w'"
proof -
  obtain m d where e: "rsa_encrypt ssl (rng w) s (of_nat (length s)) buf (Some k) = Some (m, d)"
    "length d = length buf" "m \<le> int (length buf)"
    using rsa_encrypt_defined [OF assms(3,4,5)] by blast
  let ?w = "w\<lparr>rng := rng w + 1\<rparr>"
  have "\<exists>ok w'. send_secret ssl s i buf w = Some (ok, d, w')"
  proof (cases "m \<le> 0")
    case True
    with e assms(2) show ?thesis by (auto simp: send_secret_def)
  next
    case False
    then have "(of_int m :: u32) = of_nat (nat m)" by simp
    then have "unat (of_int m :: u32) \<le> nat m" using unat_of_nat_le by metis
    then have "unat (of_int m :: u32) \<le> length d" using e(2,3) by linarith
    then obtain w2 where "send_data_to_peer ssl FRAME_HDR_AUTH d (of_int m) False i ?w = Some w2"
      using send_defined [of i ?w "of_int m" d False ssl FRAME_HDR_AUTH] assms(1) by auto
    with False e(1) assms(2) show ?thesis by (auto simp: send_secret_def)
  qed
  then show ?thesis using e(2) send_secret_quiet by blast
qed

lemma server_secrets_defined:
  assumes "i < length (peers w)" and "pubkey (peers w ! i) = Ptr k" and "rsa_sizes ssl" and "rand_sizes ssl"
    and "rsa_size ssl k \<le> FRAME_MAXSIZE" and "length (rx_buf r) = FRAME_MAXSIZE"
  shows "\<exists>s r' w'. server_secrets ssl i r w = Some (s, r', w') \<and> rx_in r' = rx_in r \<and> length (rx_buf r') = FRAME_MAXSIZE"
proof -
  show ?thesis
  proof (cases "rand_priv_bytes ssl (rng w) AES_KEY_SIZE = None \<or> rand_priv_bytes ssl (rng w + 1) AES_IV_SIZE = None")
    case True
    then show ?thesis using assms(6) by (auto simp: server_secrets_def rand_bytes_def split: option.split)
  next
    case False
    then obtain key iv where rnd: "rand_priv_bytes ssl (rng w) AES_KEY_SIZE = Some key"
      "rand_priv_bytes ssl (rng w + 1) AES_IV_SIZE = Some iv" by auto
    then have len: "length key < 2 ^ 32" "length iv < 2 ^ 32"
      using assms(4) by (auto simp: rand_sizes_def secret_sizes)
    let ?w = "w\<lparr>rng := rng w + 2\<rparr>"
    have w: "i < length (peers ?w)" "pubkey (peers ?w ! i) = Ptr k" "rsa_size ssl k \<le> length (rx_buf r)"
      using assms by simp_all
    obtain ok b w3 where s1: "send_secret ssl key i (rx_buf r) ?w = Some (ok, b, w3)"
      "length b = length (rx_buf r)" "auth_quiet i ?w w3"
      using send_secret_defined [OF w(1,2) assms(3) w(3) len(1)] by blast
    have "i < length (peers w3)" "peer_core (peers w3 ! i) = peer_core (peers ?w ! i)"
      using s1(3) w(1) by (simp_all add: auth_quiet_def auth_only_def)
    with w(2) have w3: "i < length (peers w3)" "pubkey (peers w3 ! i) = Ptr k"
      using peer_core_eqD(6) by metis+
    obtain ok' b' w4 where s2: "send_secret ssl iv i b w3 = Some (ok', b', w4)" "length b' = length b"
      using send_secret_defined [OF w3 assms(3) _ len(2), of b] w(3) s1(2) by auto
    show ?thesis
      using rnd s1 s2 assms(6) by (cases ok) (auto simp: server_secrets_def rand_bytes_def)
  qed
qed

text \<open>
  \<open>can_handshake\<close>: the daemon has both keys, and the keys that may encrypt into the frame buffer fit it.
\<close>

definition can_handshake :: "('k, 'c) openssl \<Rightarrow> ('k, 'c, 'a) peer_state_scheme \<Rightarrow> bool" where
  "can_handshake ssl w \<longleftrightarrow>
     (\<exists>pub priv. daemon_pubkey w = Ptr pub \<and> daemon_privkey w = Ptr priv \<and> rsa_size ssl priv < 2 ^ 32) \<and>
     (\<forall>k \<in> set (trusted_keys w). rsa_size ssl k \<le> FRAME_MAXSIZE)"

definition ssl_sizes :: "('k, 'c) openssl \<Rightarrow> bool" where
  "ssl_sizes ssl \<longleftrightarrow> cbc_sizes ssl \<and> rsa_sizes ssl \<and> rand_sizes ssl \<and> pem_text ssl"

lemma agree_on_secrets_defined:
  assumes "rx_legal (host_le w) r" and "ssl_sizes ssl" and "can_handshake ssl w" and "i < length (peers w)"
    and "\<exists>k \<in> set (trusted_keys w). pubkey (peers w ! i) = Ptr k"
  shows "\<exists>ok r' w'. agree_on_secrets ssl i r w = Some (ok, r', w') \<and> (ok \<longrightarrow> rx_legal (host_le w) r')"
proof (cases "is_client (peers w ! i)")
  case True
  obtain priv where "daemon_privkey w = Ptr priv" "rsa_size ssl priv < 2 ^ 32" using assms(3) by (auto simp: can_handshake_def)
  with client_secrets_defined [OF assms(1), of ssl] assms(2) obtain s r' where
    c: "client_secrets ssl r w = Some (s, r')" "s \<noteq> None \<longrightarrow> rx_legal (host_le w) r'"
    by (auto simp: ssl_sizes_def)
  with True show ?thesis
    by (cases s) (auto simp: agree_on_secrets_def case_prod_unfold split: prod.split)
next
  case False
  obtain k where k: "k \<in> set (trusted_keys w)" "pubkey (peers w ! i) = Ptr k" using assms(5) by blast
  obtain s r' w' where c: "server_secrets ssl i r w = Some (s, r', w')" "rx_in r' = rx_in r" "length (rx_buf r') = FRAME_MAXSIZE"
    using server_secrets_defined [OF assms(4) k(2), of ssl r] assms(1-3) k(1)
    by (auto simp: ssl_sizes_def can_handshake_def rx_legal_def)
  then have "rx_legal (host_le w) r'" using assms(1) by (simp add: rx_legal_def)
  with False c show ?thesis
    by (cases s) (auto simp: agree_on_secrets_def case_prod_unfold split: prod.split)
qed

lemma authenticate_peer_defined:
  assumes "rx_legal (host_le w) r" and "ssl_sizes ssl" and "can_handshake ssl w" and "i < length (peers w)"
  shows "\<exists>ok r' w'. authenticate_peer ssl i r w = Some (ok, r', w') \<and> (ok \<longrightarrow> rx_legal (host_le w) r')"
proof -
  obtain ok1 w1 where s1: "send_public_key ssl i w = Some (ok1, w1)"
    using send_public_key_defined [OF assms(4)] assms(3) by (fastforce simp: can_handshake_def)
  have w1: "host_le w1 = host_le w" "can_handshake ssl w1" "i < length (peers w1)"
    using send_public_key_quiet [OF s1] assms(3,4) by (auto simp: auth_quiet_def auth_only_def can_handshake_def)
  obtain ok2 r1 w2 where s2: "receive_public_key ssl i r w1 = Some (ok2, r1, w2)" "ok2 \<longrightarrow> rx_legal (host_le w1) r1"
    using receive_public_key_defined [of w1 r ssl i] assms(1) w1(1) by auto
  note q = receive_public_key_result [OF s2(1) w1(3)]
  then have a: "auth_only i w1 w2" by simp
  have w2: "host_le w2 = host_le w" "can_handshake ssl w2" "i < length (peers w2)" "trusted_keys w2 = trusted_keys w1"
    using a w1 by (auto simp: auth_only_def can_handshake_def)
  have ag: "\<exists>ok r' w'. agree_on_secrets ssl i r1 w2 = Some (ok, r', w') \<and> (ok \<longrightarrow> rx_legal (host_le w) r')" if ok2
    using agree_on_secrets_defined [of w2 r1 ssl i] that s2(2) w1(1) w2 assms(2) q by (auto simp: ssl_sizes_def)
  show ?thesis
    using s1 s2(1) assms(4) ag by (cases ok1; cases ok2) (auto simp: authenticate_peer_def)
qed

lemma peer_receive_defined:
  assumes "legal_stream (host_le w) (concat cs)" and "ssl_sizes ssl" and "can_handshake ssl w" and "i < length (peers w)"
    and "list_all ctxs_ok (peers w)" and "\<forall>k. wf_stack (sts k)"
  shows "peer_receive ssl sts hb i cs w \<noteq> None"
proof -
  let ?r = "\<lparr>rx_buf = map hb [0..<FRAME_MAXSIZE], rx_type = 0, rx_len = 0, rx_in = cs\<rparr>"
  obtain b w1 where m: "malloc w = (b, w1)" by (cases "malloc w")
  then obtain ms where w1: "w1 = w\<lparr>mallocs := ms\<rparr>" by (elim mallocE)
  have "rx_legal (host_le w1) ?r" "can_handshake ssl w1" "i < length (peers w1)"
    using assms by (simp_all add: rx_legal_def w1 can_handshake_def)
  from authenticate_peer_defined [OF this(1) assms(2) this(2,3)] obtain ok r1 w2 where
    a: "authenticate_peer ssl i ?r w1 = Some (ok, r1, w2)" "ok \<longrightarrow> rx_legal (host_le w) r1"
    by (auto simp: w1)
  note res = authenticate_peer_result [OF a(1)]
  have w2: "host_le w2 = host_le w" "length (peers w2) = length (peers w)"
    "\<And>j. j < length (peers w) \<Longrightarrow> j \<noteq> i \<Longrightarrow> peer_core (peers w2 ! j) = peer_core (peers w ! j)"
    using res by (simp_all add: auth_only_def w1)
  have "ctxs_ok (peers w2 ! j)" if "ok" "j < length (peers w)" for j
  proof (cases "j = i")
    case True
    with res that show ?thesis by (simp add: ctxs_ok_def)
  next
    case False
    with w2(3) that have c: "peer_core (peers w2 ! j) = peer_core (peers w ! j)" by simp
    show ?thesis
      using assms(5) that(2) peer_core_eqD(7,9,10) [OF c] unfolding ctxs_ok_def list_all_length by simp
  qed
  then have "\<exists>r' w'. peer_loop ssl sts i (r1\<lparr>rx_type := 0, rx_len := 0\<rparr>) w2 = Some (r', w') \<and> packet_only i w2 w'" if ok
    using that a(2) w2(1,2) assms(2,4,6)
    by (intro peer_loop_safe) (simp_all add: ssl_sizes_def rx_legal_def list_all_length)
  then show ?thesis using m a(1) by (cases b; cases ok) (auto simp: peer_receive_def)
qed

section \<open>A concrete connection, for the witnesses\<close>

lemma demo_side_connection:
  "can_handshake toy_ssl (demo_side False True False)" "list_all ctxs_ok (peers (demo_side False True False))"
  "0 < length (peers (demo_side False True False))" "\<not> authenticated (peers (demo_side False True False) ! 0)"
  "ssl_sizes toy_ssl" "sockfd (peers (demo_side False True False) ! 0) = 4" "closed (demo_side False True False) = []"
  "tun_out (demo_side False True False) = []"
proof -
  have "rsa_size toy_ssl k = 256" for k by (simp add: toy_ssl_def)
  then show "can_handshake toy_ssl (demo_side False True False)"
    by (auto simp: can_handshake_def demo_side_fields frame_sizes)
qed (simp_all add: demo_side_fields initialize_peer_def ctxs_ok_def ssl_sizes_def toy_cbc_sizes
      toy_rsa_sizes toy_rand_sizes toy_pem_text,
    simp_all add: demo_side_def peer_state_init_def key_init_def iface_init_def cfg_init_def log_init_def
      os_init_def os.defs log_state.defs cfg_state.defs iface_state.defs key_state.defs)

text \<open>A stranger's stream: an AUTH frame of one byte, in three pieces, then half a header.\<close>

definition demo_stranger :: "byte list list" where
  "demo_stranger = [[0, 1], [0, 0, 0, 9], [2, 0]]"

lemma demo_stranger_legal: "legal_stream (host_le (demo_side False True False)) (concat demo_stranger)"
proof -
  have d: "decode_frame_header True [0, 1, 0, 0, 0, 9, 2, 0] = Some (0, 1)" "decode_frame_header True [2, 0] = None"
    by (simp_all add: decode_frame_header_def read_uint32_def join32_def)
  have u: "unat (1 :: u32) = 1" by simp
  have e: "legal_stream True [2, 0]" by (subst legal_stream.simps) (simp add: d)
  have "legal_stream True [0, 1, 0, 0, 0, 9, 2, 0]"
    by (subst legal_stream.simps) (simp add: d u e frame_sizes)
  then show ?thesis by (simp add: demo_side_fields demo_stranger_def)
qed

lemma demo_stranger_run:
  "\<exists>w'. connection_thread toy_ssl (\<lambda>_. demo_stack) (\<lambda>_. 0) 0 demo_stranger (demo_side False True False) = Some w'"
  using peer_receive_defined [OF demo_stranger_legal demo_side_connection(5,1,3,2), of "\<lambda>_. demo_stack" "\<lambda>_. 0"] demo_stack_wf
  by (auto simp: connection_thread_def)

section \<open>Properties\<close>

text \<open>C7. What a connection can do in its whole life, for any peer, any bytes and any failing call: if its
  thread ends, its slot is free and its socket has been closed once and nothing else; no other peer's
  key, verdict, socket or routes, no local route and no trusted key has changed. A peer that was not
  authenticated has not put a byte on the device or on the socket of another peer, and owns no new
  route; one that was has a trusted key.\<close>

theorem connection_contained:
  assumes "connection_thread ssl sts hb i cs w = Some w'" and "\<forall>k. wf_stack (sts k)" and "i < length (peers w)"
    and "\<not> authenticated (peers w ! i)" and "pem_text ssl"
  shows "closed w' = closed w @ [sockfd (peers w ! i)] \<and> \<not> alive (peers w' ! i) \<and>
         length (peers w') = length (peers w) \<and>
         (\<forall>j < length (peers w). j \<noteq> i \<longrightarrow> peer_core (peers w' ! j) = peer_core (peers w ! j)) \<and>
         local_routes w' = local_routes w \<and> trusted_keys w' = trusted_keys w \<and> if_fd w' = if_fd w \<and>
         (if authenticated (peers w' ! i) then \<exists>k \<in> set (trusted_keys w). pubkey (peers w' ! i) = Ptr k
          else tun_out w' = tun_out w \<and> peer_routes (peers w' ! i) = peer_routes (peers w ! i) \<and>
               own_wire (sockfd (peers w ! i)) w w')"
proof -
  obtain w1 where r: "peer_receive ssl sts hb i cs w = Some w1" and w': "w' = peer_disconnect i w1"
    using assms(1) by (auto simp: connection_thread_def Option.bind_eq_Some_conv)
  note p = peer_receive_result [OF r assms(2-5)]
  have "i < length (peers w1)" using p assms(3) by (simp add: conn_only_def)
  then have d: "peers w' = (peers w1)[i := (peers w1 ! i)\<lparr>alive := False\<rparr>]" "closed w' = closed w1 @ [sockfd (peers w1 ! i)]"
    "tun_out w' = tun_out w1" "own_wire (sockfd (peers w ! i)) w w' = own_wire (sockfd (peers w ! i)) w w1"
    "local_routes w' = local_routes w1" "trusted_keys w' = trusted_keys w1" "if_fd w' = if_fd w1"
    by (simp_all add: w' peer_disconnect_def sys_close_def Let_def own_wire_def)
  show ?thesis
    using p assms(3) unfolding d conn_only_def by simp
qed

theorem connection_contained_witness:
  "\<exists>w'. connection_thread toy_ssl (\<lambda>_. demo_stack) (\<lambda>_. 0) 0 demo_stranger (demo_side False True False) = Some w' \<and>
     closed w' = [4] \<and> trusted_keys w' = [True]"
proof -
  obtain w' where r: "connection_thread toy_ssl (\<lambda>_. demo_stack) (\<lambda>_. 0) 0 demo_stranger (demo_side False True False) = Some w'"
    using demo_stranger_run by blast
  from connection_contained [OF r _ demo_side_connection(3,4) toy_pem_text] r demo_stack_wf
  show ?thesis by (auto simp: demo_side_connection demo_side_fields)
qed

text \<open>C8. Every connection comes to an end: for any peer and any contents, cut anywhere, in which no header
  announces more than 2048 bytes, and whatever call fails, the thread runs without undefined behaviour
  from the handshake to the closed socket.\<close>

theorem connection_ends:
  assumes "legal_stream (host_le w) (concat cs)" and "ssl_sizes ssl" and "can_handshake ssl w" and "i < length (peers w)"
    and "list_all ctxs_ok (peers w)" and "\<forall>k. wf_stack (sts k)" and "\<not> authenticated (peers w ! i)"
  shows "\<exists>w'. connection_thread ssl sts hb i cs w = Some w' \<and> closed w' = closed w @ [sockfd (peers w ! i)] \<and>
           \<not> alive (peers w' ! i)"
proof -
  obtain w1 where r: "peer_receive ssl sts hb i cs w = Some w1"
    using peer_receive_defined [OF assms(1-6)] by blast
  have "conn_only i w w1"
    using peer_receive_result [OF r assms(6,4,7)] assms(2) by (simp add: ssl_sizes_def)
  then show ?thesis
    using r assms(4) by (simp add: connection_thread_def peer_disconnect_def sys_close_def conn_only_def Let_def)
qed

theorem connection_ends_witness:
  "\<exists>w'. connection_thread toy_ssl (\<lambda>_. demo_stack) (\<lambda>_. 0) 0 demo_stranger (demo_side False True False) = Some w' \<and>
     closed w' = [4]"
  using connection_ends [OF demo_stranger_legal demo_side_connection(5,1,3,2) _ demo_side_connection(4), of "\<lambda>_. demo_stack" "\<lambda>_. 0"]
    demo_stack_wf
  by (auto simp: demo_side_connection)

end
