(* ===== verification/Tun_Broadcast.thy ===== *)
theory Tun_Broadcast
  imports Peer_Net
begin

text \<open>
  The loop of \<open>src/peer.c\<close> that reads the TUN/TAP device, \<open>_broadcast_tuntap_device\<close>. Its automatic
  variables outlive the turns: the buffer keeps what earlier, longer packets left behind the current
  one, and \<open>route\<close> keeps the last address parsed. They are the \<open>tun_vars\<close> record; what they hold at
  the start is arbitrary but for \<open>mac\<close> and \<open>ip4\<close>, which the code resets.
\<close>

record tun_vars =
  tun_buf :: "byte list"
  tun_route :: netroute

definition wf_tun :: "tun_vars \<Rightarrow> bool" where
  "wf_tun v \<longleftrightarrow> length (tun_buf v) = FRAME_PAYLOAD_MAXSIZE \<and> wf_route (tun_route v)"

definition tun_vars_init :: "(nat \<Rightarrow> byte) \<Rightarrow> (nat \<Rightarrow> byte) \<Rightarrow> tun_vars" where
  "tun_vars_init stale_buf stale_addr =
     \<lparr>tun_buf = map stale_buf [0..<FRAME_PAYLOAD_MAXSIZE],
      tun_route = \<lparr>mac = False, ip4 = False, addr = map stale_addr [0..<16]\<rparr>\<rparr>"

text \<open>The body of the loop, for a packet \<open>p\<close> that \<open>tuntap_read\<close> put at the start of the buffer.\<close>

definition broadcast_packet ::
  "('k, 'c) openssl \<Rightarrow> byte list \<Rightarrow> tun_vars \<Rightarrow> ('k, 'c, 'a) peer_state_scheme
     \<Rightarrow> (tun_vars \<times> ('k, 'c, 'a) peer_state_scheme) option" where
  "broadcast_packet ssl p v w =
     do {
       buf \<leftarrow> mem_write (tun_buf v) 0 p;
       let n = (of_nat (length p) :: u32);
       route \<leftarrow> parse_packet_addr (host_le w) (tuntap_tap_mode w) buf (tun_route v) True;
       let w1 =
         (if \<not> is_local_route route w then
            (case add_netroute route (local_routes w) w of (rs, w') \<Rightarrow> w'\<lparr>local_routes := rs\<rparr>)
          else w);
       route \<leftarrow> parse_packet_addr (host_le w1) (tuntap_tap_mode w1) buf route False;
       let v' = \<lparr>tun_buf = buf, tun_route = route\<rparr>;
       w2 \<leftarrow> (case get_peer_route route w1 of
                 Some target \<Rightarrow> send_data_to_peer ssl FRAME_HDR_NETPACKET buf n True target w1
               | None \<Rightarrow> broadcast_data_to_peers ssl FRAME_HDR_NETPACKET buf n True None w1);
       Some (v', w2)
     }"

text \<open>The loop over what successive reads of the device answer (\<open>None\<close>: an error).\<close>

fun broadcast_tuntap_device ::
  "('k, 'c) openssl \<Rightarrow> byte list option list \<Rightarrow> tun_vars \<Rightarrow> ('k, 'c, 'a) peer_state_scheme
     \<Rightarrow> (tun_vars \<times> ('k, 'c, 'a) peer_state_scheme) option" where
  "broadcast_tuntap_device ssl [] v w = Some (v, w)"
| "broadcast_tuntap_device ssl (a # reads) v w =
     (case tuntap_read a FRAME_PAYLOAD_MAXSIZE w of
        (n, p) \<Rightarrow>
          (if n > 0 then
             do {
               (v', w') \<leftarrow> broadcast_packet ssl p v w;
               broadcast_tuntap_device ssl reads v' w'
             }
           else Some (v, w)))"

section \<open>Lemmas\<close>

definition learn_local :: "netroute \<Rightarrow> ('k, 'c, 'a) peer_state_scheme \<Rightarrow> ('k, 'c, 'a) peer_state_scheme" where
  "learn_local route w =
     (if \<not> is_local_route route w then
        (case add_netroute route (local_routes w) w of (rs, w') \<Rightarrow> w'\<lparr>local_routes := rs\<rparr>)
      else w)"

lemma learn_local_result:
  "\<exists>ms. learn_local r w = w\<lparr>mallocs := ms,
          local_routes := (if is_local_route r w \<or> \<not> fst (malloc w) then local_routes w else local_routes w @ [r])\<rparr>"
proof -
  obtain ok bs where m: "malloc w = (ok, w\<lparr>mallocs := bs\<rparr>)" by (metis mallocE surj_pair)
  show ?thesis
  proof (cases "is_local_route r w")
    case True
    then show ?thesis by (intro exI [of _ "mallocs w"]) (simp add: learn_local_def)
  next
    case False
    then show ?thesis
      by (intro exI [of _ bs], cases ok) (simp_all add: learn_local_def add_netroute_def m append_route_def)
  qed
qed

lemma learn_local_keys:
  assumes "mallocs w = []"
  shows "route_keys (local_routes (learn_local r w)) = insert (route_key r) (route_keys (local_routes w))"
    and "mallocs (learn_local r w) = []"
  using assms
  by (auto simp: learn_local_def add_netroute_def append_route_def is_local_route_known route_known_key route_keys_def)

lemma learn_local_fields [frame_simps]:
  "peers (learn_local r w) = peers w" "wire (learn_local r w) = wire w" "send_rets (learn_local r w) = send_rets w"
  "if_fd (learn_local r w) = if_fd w" "if_tap (learn_local r w) = if_tap w" "host_le (learn_local r w) = host_le w"
  "tun_out (learn_local r w) = tun_out w" "write_rets (learn_local r w) = write_rets w"
  "trusted_keys (learn_local r w) = trusted_keys w" "closed (learn_local r w) = closed w"
  "tuntap_tap_mode (learn_local r w) = tuntap_tap_mode w"
  using learn_local_result [of r w] by (auto simp: tuntap_tap_mode_def)

text \<open>The end of a turn: to the peer that has the address, or to all.\<close>

definition pass_on ::
  "('k, 'c) openssl \<Rightarrow> byte list \<Rightarrow> u32 \<Rightarrow> netroute \<Rightarrow> ('k, 'c, 'a) peer_state_scheme \<Rightarrow> ('k, 'c, 'a) peer_state_scheme option"
  where
  "pass_on ssl buf n r w =
     (case get_peer_route r w of
        Some t \<Rightarrow> send_data_to_peer ssl FRAME_HDR_NETPACKET buf n True t w
      | None \<Rightarrow> broadcast_data_to_peers ssl FRAME_HDR_NETPACKET buf n True None w)"

lemma pass_on_only: "pass_on ssl buf n r w = Some w' \<Longrightarrow> sends_only w w'"
  using send_only broadcast_from_only
  unfolding pass_on_def broadcast_data_to_peers_def by (fastforce split: option.splits)

lemma pass_on_defined:
  assumes "cbc_sizes ssl" and "list_all ctxs_ok (peers w)" and "unat n \<le> length buf"
    and "cbc_padded (unat n) \<le> FRAME_PAYLOAD_MAXSIZE"
  shows "\<exists>w'. pass_on ssl buf n r w = Some w' \<and> sends_only w w'"
  using send_ctxs [OF assms get_peer_route_SomeD(1) [of r w]] broadcast_ctxs [OF assms, where ex = None]
  by (auto simp: pass_on_def split: option.split)

text \<open>What goes out when nothing fails.\<close>

lemma pass_on_exact:
  assumes "sends_ok ssl p w" and "p = take (unat n) buf" and "unat n \<le> length buf" and "unat n < 2 ^ 31"
  shows "\<exists>w'. pass_on ssl buf n r w = Some w' \<and> sends_only w w' \<and>
           (case get_peer_route r w of
              Some t \<Rightarrow> wire w' = (wire w)(sockfd (peers w ! t) :=
                wire w (sockfd (peers w ! t)) @ frame_for ssl FRAME_HDR_NETPACKET p w t)
            | None \<Rightarrow> \<forall>j < length (peers w). alive (peers w ! j) \<longrightarrow>
                wire w' (sockfd (peers w ! j)) = wire w (sockfd (peers w ! j)) @ frame_for ssl FRAME_HDR_NETPACKET p w j)"
proof (cases "get_peer_route r w")
  case (Some t)
  then show ?thesis
    using send_ok [OF assms(1,2,3,4) get_peer_route_SomeD(1) [OF Some]] by (simp add: pass_on_def)
next
  case None
  then show ?thesis
    using broadcast_ok [OF assms, where ex = None] by (simp add: pass_on_def)
qed

text \<open>A turn of the loop: the two addresses, the table, and the send that follows.\<close>

lemma bind_Some_pair: "Option.bind x (\<lambda>y. Some (v, y)) = map_option (Pair v) x"
  by (cases x) simp_all

lemma broadcast_packet_step:
  assumes v: "wf_tun v" and p: "length p \<le> FRAME_PAYLOAD_MAXSIZE"
  obtains r1 r2 where
    "broadcast_packet ssl p v w =
       map_option (\<lambda>w2. (\<lparr>tun_buf = p @ drop (length p) (tun_buf v), tun_route = r2\<rparr>, w2))
         (pass_on ssl (p @ drop (length p) (tun_buf v)) (of_nat (length p)) r2 (learn_local r1 w))"
    and "wf_route r1" and "wf_route r2" and "length (p @ drop (length p) (tun_buf v)) = FRAME_PAYLOAD_MAXSIZE"
    and "HEADER_SPAN \<le> length p \<longrightarrow>
           (if packet_addr (tuntap_tap_mode w) p True = None then r1 = tun_route v \<and> r2 = r1
            else route_key r1 = wire_key w p True \<and> route_key r2 = wire_key w p False)"
proof -
  let ?buf = "p @ drop (length p) (tun_buf v)"
  have len: "length ?buf = FRAME_PAYLOAD_MAXSIZE" using v p by (simp add: wf_tun_def)
  have wr: "mem_write (tun_buf v) 0 p = Some ?buf" using v p by (simp add: mem_write_prefix wf_tun_def)
  have span: "HEADER_SPAN \<le> length ?buf" using len by (simp add: HEADER_SPAN_def frame_sizes)
  have r: "wf_route (tun_route v)" using v by (simp add: wf_tun_def)
  obtain r1 where r1: "parse_packet_addr (host_le w) (tuntap_tap_mode w) ?buf (tun_route v) True = Some r1" "wf_route r1"
      "case packet_addr (tuntap_tap_mode w) ?buf True of None \<Rightarrow> r1 = tun_route v
       | Some k \<Rightarrow> route_key r1 = host_order (host_le w) k"
    using parse_packet_addr_cases [OF span r] by blast
  obtain r2 where r2: "parse_packet_addr (host_le w) (tuntap_tap_mode w) ?buf r1 False = Some r2" "wf_route r2"
      "case packet_addr (tuntap_tap_mode w) ?buf False of None \<Rightarrow> r2 = r1
       | Some k \<Rightarrow> route_key r2 = host_order (host_le w) k"
    using parse_packet_addr_cases [OF span r1(2)] by blast
  have "broadcast_packet ssl p v w =
       map_option (\<lambda>w2. (\<lparr>tun_buf = ?buf, tun_route = r2\<rparr>, w2)) (pass_on ssl ?buf (of_nat (length p)) r2 (learn_local r1 w))"
    using r2(1)
    by (simp add: broadcast_packet_def wr r1(1) Let_def learn_local_def [symmetric] learn_local_fields pass_on_def bind_Some_pair)
  moreover have "if packet_addr (tuntap_tap_mode w) p True = None then r1 = tun_route v \<and> r2 = r1
            else route_key r1 = wire_key w p True \<and> route_key r2 = wire_key w p False" if "HEADER_SPAN \<le> length p"
    using r1(3) r2(3) packet_addr_append [OF that] packet_addr_source [of "tuntap_tap_mode w" p True False]
    by (auto simp: wire_key_def split: option.splits)
  ultimately show thesis using that r1(2) r2(2) len by blast
qed

text \<open>What a turn may change besides the traffic: one new address of our own.\<close>

definition tun_only :: "('k, 'c, 'a) peer_state_scheme \<Rightarrow> ('k, 'c, 'a) peer_state_scheme \<Rightarrow> bool" where
  "tun_only w w' \<longleftrightarrow>
     map peer_core (peers w') = map peer_core (peers w) \<and>
     (local_routes w' = local_routes w \<or>
      (\<exists>r. local_routes w' = local_routes w @ [r] \<and> \<not> is_local_route r w)) \<and>
     trusted_keys w' = trusted_keys w \<and> daemon_pubkey w' = daemon_pubkey w \<and>
     daemon_privkey w' = daemon_privkey w \<and> if_fd w' = if_fd w \<and> if_tap w' = if_tap w \<and>
     host_le w' = host_le w \<and> closed w' = closed w \<and> tun_out w' = tun_out w"

lemma learn_sends_tun_only:
  assumes "sends_only (learn_local r w) w'"
  shows "tun_only w w'"
proof -
  obtain ms where l: "learn_local r w = w\<lparr>mallocs := ms,
      local_routes := (if is_local_route r w \<or> \<not> fst (malloc w) then local_routes w else local_routes w @ [r])\<rparr>"
    using learn_local_result by blast
  have "map peer_core (peers w') = map peer_core (peers w)"
    using assms by (simp add: sends_only_def learn_local_fields)
  then show ?thesis
    unfolding tun_only_def using sends_only_fields [OF assms] by (auto simp: l)
qed

lemma core_ctxs_ok:
  assumes "map peer_core (peers w') = map peer_core (peers w)" and "list_all ctxs_ok (peers w)"
  shows "list_all ctxs_ok (peers w')"
proof -
  have len: "length (peers w') = length (peers w)" using arg_cong [OF assms(1), of length] by simp
  have "ctxs_ok (peers w' ! j)" if j: "j < length (peers w)" for j
  proof -
    have "peer_core (peers w' ! j) = peer_core (peers w ! j)"
      using arg_cong [OF assms(1), of "\<lambda>xs. xs ! j"] j len by simp
    from peer_core_eqD(7,9,10) [OF this] show ?thesis
      using assms(2) j unfolding ctxs_ok_def list_all_length by blast
  qed
  with len show ?thesis by (simp add: list_all_length)
qed

lemma broadcast_packet_only:
  assumes run: "broadcast_packet ssl p v w = Some (v', w')" and v: "wf_tun v"
    and p: "length p \<le> FRAME_PAYLOAD_MAXSIZE"
  shows "wf_tun v' \<and> tun_only w w'"
proof -
  let ?buf = "p @ drop (length p) (tun_buf v)" and ?n = "of_nat (length p) :: u32"
  obtain r1 r2 where s: "broadcast_packet ssl p v w =
       map_option (\<lambda>w2. (\<lparr>tun_buf = ?buf, tun_route = r2\<rparr>, w2)) (pass_on ssl ?buf ?n r2 (learn_local r1 w))"
      "wf_route r2" "length ?buf = FRAME_PAYLOAD_MAXSIZE"
    using v p by (rule broadcast_packet_step [where ssl = ssl and w = w])
  have "map_option (\<lambda>w2. (\<lparr>tun_buf = ?buf, tun_route = r2\<rparr>, w2)) (pass_on ssl ?buf ?n r2 (learn_local r1 w)) = Some (v', w')"
    using run by (simp only: s(1))
  then have "pass_on ssl ?buf ?n r2 (learn_local r1 w) = Some w'" "v' = \<lparr>tun_buf = ?buf, tun_route = r2\<rparr>"
    by auto
  then show ?thesis
    using s(2,3) by (auto simp: wf_tun_def dest!: pass_on_only learn_sends_tun_only)
qed

lemma broadcast_packet_safe:
  assumes ssl: "cbc_sizes ssl" and ok: "list_all ctxs_ok (peers w)" and v: "wf_tun v"
    and p: "length p < FRAME_PAYLOAD_MAXSIZE"
  shows "\<exists>v' w'. broadcast_packet ssl p v w = Some (v', w') \<and> wf_tun v' \<and> tun_only w w'"
proof -
  have p': "length p \<le> FRAME_PAYLOAD_MAXSIZE" using p by simp
  let ?buf = "p @ drop (length p) (tun_buf v)" and ?n = "of_nat (length p) :: u32"
  obtain r1 r2 where s: "broadcast_packet ssl p v w =
       map_option (\<lambda>w2. (\<lparr>tun_buf = ?buf, tun_route = r2\<rparr>, w2)) (pass_on ssl ?buf ?n r2 (learn_local r1 w))"
    using v p' by (rule broadcast_packet_step [where ssl = ssl and w = w])
  have un: "unat ?n = length p" using p by (simp add: unat_of_nat frame_sizes)
  have "cbc_padded (unat ?n) \<le> FRAME_PAYLOAD_MAXSIZE" using p un by (simp add: cbc_padded_def frame_sizes)
  then obtain w2 where "pass_on ssl ?buf ?n r2 (learn_local r1 w) = Some w2"
    using pass_on_defined [OF ssl, of "learn_local r1 w" ?n ?buf r2] ok un by (auto simp: learn_local_fields)
  then have "broadcast_packet ssl p v w = Some (\<lparr>tun_buf = ?buf, tun_route = r2\<rparr>, w2)" by (simp add: s)
  with broadcast_packet_only [OF this v p'] show ?thesis by blast
qed

lemma broadcast_loop_safe:
  assumes "cbc_sizes ssl"
  shows "list_all ctxs_ok (peers w) \<Longrightarrow> wf_tun v \<Longrightarrow>
     (\<forall>p. Some p \<in> set reads \<longrightarrow> length p < FRAME_PAYLOAD_MAXSIZE) \<Longrightarrow>
     \<exists>v' w'. broadcast_tuntap_device ssl reads v w = Some (v', w') \<and> wf_tun v' \<and>
        map peer_core (peers w') = map peer_core (peers w)"
proof (induction reads arbitrary: v w)
  case Nil
  then show ?case by simp
next
  case (Cons a reads)
  obtain n p where r: "tuntap_read a FRAME_PAYLOAD_MAXSIZE w = (n, p)"
    by (cases "tuntap_read a FRAME_PAYLOAD_MAXSIZE w")
  show ?case
  proof (cases "n > 0")
    case False
    with r Cons.prems show ?thesis by auto
  next
    case True
    with r have "\<exists>q. a = Some q \<and> p = take FRAME_PAYLOAD_MAXSIZE q"
      by (auto simp: tuntap_read_def split: if_splits option.splits)
    then have "length p < FRAME_PAYLOAD_MAXSIZE" using Cons.prems(3) by auto
    from broadcast_packet_safe [OF assms Cons.prems(1,2) this] obtain v1 w1 where
      b: "broadcast_packet ssl p v w = Some (v1, w1)" "wf_tun v1" "tun_only w w1" by blast
    have core: "map peer_core (peers w1) = map peer_core (peers w)" using b(3) by (simp add: tun_only_def)
    have "\<exists>v' w'. broadcast_tuntap_device ssl reads v1 w1 = Some (v', w') \<and> wf_tun v' \<and>
        map peer_core (peers w') = map peer_core (peers w1)"
      using Cons.prems(3) by (intro Cons.IH core_ctxs_ok [OF core Cons.prems(1)] b(2)) auto
    with r True b core show ?thesis by auto
  qed
qed

text \<open>What a turn leaves in the tables when the allocator works.\<close>

lemma broadcast_packet_tables:
  assumes ssl: "cbc_sizes ssl" and ok: "list_all ctxs_ok (peers w)" and v: "wf_tun v"
    and p: "HEADER_SPAN \<le> length p" "length p < FRAME_PAYLOAD_MAXSIZE" and m: "mallocs w = []"
  shows "\<exists>v' w'. broadcast_packet ssl p v w = Some (v', w') \<and> wf_tun v' \<and> mallocs w' = [] \<and>
           host_le w' = host_le w \<and> if_tap w' = if_tap w \<and> if_fd w' = if_fd w \<and> list_all ctxs_ok (peers w') \<and>
           (case packet_addr (tuntap_tap_mode w) p True of
              None \<Rightarrow> tun_route v' = tun_route v \<and>
                route_keys (local_routes w') = insert (route_key (tun_route v)) (route_keys (local_routes w))
            | Some _ \<Rightarrow> route_key (tun_route v') = wire_key w p False \<and>
                route_keys (local_routes w') = insert (wire_key w p True) (route_keys (local_routes w)))"
proof -
  have p': "length p \<le> FRAME_PAYLOAD_MAXSIZE" using p(2) by simp
  let ?buf = "p @ drop (length p) (tun_buf v)" and ?n = "of_nat (length p) :: u32"
  obtain r1 r2 where s: "broadcast_packet ssl p v w =
       map_option (\<lambda>w2. (\<lparr>tun_buf = ?buf, tun_route = r2\<rparr>, w2)) (pass_on ssl ?buf ?n r2 (learn_local r1 w))"
      "wf_route r1" "wf_route r2" "length ?buf = FRAME_PAYLOAD_MAXSIZE"
      "HEADER_SPAN \<le> length p \<longrightarrow>
           (if packet_addr (tuntap_tap_mode w) p True = None then r1 = tun_route v \<and> r2 = r1
            else route_key r1 = wire_key w p True \<and> route_key r2 = wire_key w p False)"
    using v p' by (rule broadcast_packet_step [where ssl = ssl and w = w])
  obtain v' w' where b: "broadcast_packet ssl p v w = Some (v', w')" "wf_tun v'" "tun_only w w'"
    using broadcast_packet_safe [OF ssl ok v p(2)] by blast
  have v': "tun_route v' = r2" and only: "sends_only (learn_local r1 w) w'"
    using b(1) s(1) pass_on_only by auto
  have m': "mallocs w' = []"
    using sends_only_fields(10) [OF only] learn_local_keys(2) [OF m, of r1] by simp
  have keys: "route_keys (local_routes w') = insert (route_key r1) (route_keys (local_routes w))"
    using sends_only_fields(2) [OF only] learn_local_keys(1) [OF m, of r1] by simp
  have "list_all ctxs_ok (peers w')" using b(3) ok core_ctxs_ok unfolding tun_only_def by blast
  with b m' show ?thesis
    using s(5) p(1) v' keys by (auto simp: tun_only_def split: option.split)
qed

text \<open>A turn of the loop, exactly.\<close>

lemma broadcast_packet_exact:
  assumes "wf_tun v" and "HEADER_SPAN \<le> length p" and "length p < FRAME_PAYLOAD_MAXSIZE"
    and "packet_addr (tuntap_tap_mode w) p True \<noteq> None" and "sends_ok ssl p w"
  shows "\<exists>v' w'. broadcast_packet ssl p v w = Some (v', w') \<and> wf_tun v' \<and>
           route_keys (local_routes w') = insert (wire_key w p True) (route_keys (local_routes w)) \<and>
           tun_out w' = tun_out w \<and>
           (case find_index (holds_route (wire_key w p False)) (peers w) of
              Some t \<Rightarrow>
                wire w' = (wire w)(sockfd (peers w ! t) :=
                  wire w (sockfd (peers w ! t)) @ frame_for ssl FRAME_HDR_NETPACKET p w t)
            | None \<Rightarrow>
                (\<forall>j < length (peers w). alive (peers w ! j) \<longrightarrow>
                   wire w' (sockfd (peers w ! j)) = wire w (sockfd (peers w ! j)) @
                     frame_for ssl FRAME_HDR_NETPACKET p w j))"
proof -
  have p': "length p \<le> FRAME_PAYLOAD_MAXSIZE" using assms(3) by simp
  let ?buf = "p @ drop (length p) (tun_buf v)" and ?n = "of_nat (length p) :: u32"
  obtain r1 r2 where s: "broadcast_packet ssl p v w =
       map_option (\<lambda>w2. (\<lparr>tun_buf = ?buf, tun_route = r2\<rparr>, w2)) (pass_on ssl ?buf ?n r2 (learn_local r1 w))"
      "wf_route r1" "wf_route r2" "length ?buf = FRAME_PAYLOAD_MAXSIZE"
      "HEADER_SPAN \<le> length p \<longrightarrow>
           (if packet_addr (tuntap_tap_mode w) p True = None then r1 = tun_route v \<and> r2 = r1
            else route_key r1 = wire_key w p True \<and> route_key r2 = wire_key w p False)"
    using assms(1) p' by (rule broadcast_packet_step [where ssl = ssl and w = w])
  have k: "route_key r1 = wire_key w p True" "route_key r2 = wire_key w p False"
    using s(5) assms(2,4) by simp_all
  have un: "unat ?n = length p" using assms(3) by (simp add: unat_of_nat frame_sizes)
  have un31: "unat ?n < 2 ^ 31" using assms(3) unfolding un by (simp add: frame_sizes)
  have n: "p = take (unat ?n) ?buf" "unat ?n \<le> length ?buf" by (simp_all add: un)
  let ?w1 = "learn_local r1 w"
  have w1: "peers ?w1 = peers w" "wire ?w1 = wire w" "tun_out ?w1 = tun_out w" "sends_ok ssl p ?w1"
    using assms(5) learn_local_keys(2) [of w r1] by (simp_all add: learn_local_fields sends_ok_def send_good_def)
  have keys: "route_keys (local_routes ?w1) = insert (wire_key w p True) (route_keys (local_routes w))"
    using learn_local_keys(1) [of w r1] k(1) assms(5) by (simp add: sends_ok_def)
  have frame: "frame_for ssl t d ?w1 j = frame_for ssl t d w j" for t d j
    by (simp add: frame_for_def learn_local_fields Let_def split: option.split)
  have idx: "get_peer_route r2 ?w1 = find_index (holds_route (wire_key w p False)) (peers w)"
    using get_peer_route_holds [OF k(2), of ?w1] by (simp add: w1)
  obtain w' where b: "pass_on ssl ?buf ?n r2 ?w1 = Some w'" "sends_only ?w1 w'"
    and wr: "case find_index (holds_route (wire_key w p False)) (peers w) of
              Some t \<Rightarrow>
                wire w' = (wire w)(sockfd (peers w ! t) :=
                  wire w (sockfd (peers w ! t)) @ frame_for ssl FRAME_HDR_NETPACKET p w t)
            | None \<Rightarrow>
                (\<forall>j < length (peers w). alive (peers w ! j) \<longrightarrow>
                   wire w' (sockfd (peers w ! j)) = wire w (sockfd (peers w ! j)) @
                     frame_for ssl FRAME_HDR_NETPACKET p w j)"
    using pass_on_exact [OF w1(4) n un31, of r2] unfolding idx w1(1,2) frame by blast
  have "broadcast_packet ssl p v w = Some (\<lparr>tun_buf = ?buf, tun_route = r2\<rparr>, w')" by (simp add: s(1) b(1))
  then show ?thesis
    using wr sends_only_fields(2,8) [OF b(2)] keys s(3,4) w1(3) by (auto simp: wf_tun_def)
qed

section \<open>Properties\<close>

text \<open>C11. A packet read from the device goes exactly where the tables say: its source becomes a local
  address, and it is sent to the connected peer that announced its destination, encrypted for that
  peer, or, when there is none, to every connected and authenticated peer. Bytes that longer packets
  left in the buffer play no part.\<close>

theorem tun_packet_routing:
  assumes "wf_tun v" and "HEADER_SPAN \<le> length p" and "length p < FRAME_PAYLOAD_MAXSIZE"
    and "packet_addr (tuntap_tap_mode w) p True \<noteq> None" and "sends_ok ssl p w"
  shows "\<exists>v' w'. broadcast_packet ssl p v w = Some (v', w') \<and> wf_tun v' \<and>
           route_keys (local_routes w') = insert (wire_key w p True) (route_keys (local_routes w)) \<and>
           tun_out w' = tun_out w \<and>
           (case find_index (holds_route (wire_key w p False)) (peers w) of
              Some t \<Rightarrow>
                wire w' = (wire w)(sockfd (peers w ! t) :=
                  wire w (sockfd (peers w ! t)) @ frame_for ssl FRAME_HDR_NETPACKET p w t)
            | None \<Rightarrow>
                (\<forall>j < length (peers w). alive (peers w ! j) \<longrightarrow>
                   wire w' (sockfd (peers w ! j)) = wire w (sockfd (peers w ! j)) @
                     frame_for ssl FRAME_HDR_NETPACKET p w j))"
  using assms by (rule broadcast_packet_exact)

theorem tun_packet_routing_witness:
  "\<exists>v' w'. broadcast_packet toy_ssl demo_packet (tun_vars_init (\<lambda>_. 9) (\<lambda>_. 9)) demo_world = Some (v', w') \<and>
     route_keys (local_routes w') = {(False, True, [1, 0, 0, 10])} \<and>
     wire w' 4 = frame_for toy_ssl FRAME_HDR_NETPACKET demo_packet demo_world 0"
proof -
  have v: "wf_tun (tun_vars_init (\<lambda>_. 9) (\<lambda>_. 9))" by (simp add: wf_tun_def tun_vars_init_def wf_route_def)
  have p: "HEADER_SPAN \<le> length demo_packet" "length demo_packet < FRAME_PAYLOAD_MAXSIZE"
    by (simp_all add: demo_packet_facts HEADER_SPAN_def frame_sizes)
  have src: "packet_addr False demo_packet True = Some (False, True, [10, 0, 0, 1])"
    by (simp add: demo_packet_def packet_addr_def be_u16_def ETH_P_IP_def)
  then have ip: "packet_addr (tuntap_tap_mode demo_world) demo_packet True \<noteq> None"
    by (simp add: demo_world_fields tuntap_tap_mode_def)
  have k: "wire_key demo_world demo_packet True = (False, True, [1, 0, 0, 10])"
    by (simp add: wire_key_def demo_world_fields tuntap_tap_mode_def src host_order_def)
  show ?thesis
    using tun_packet_routing [OF v p ip demo_sends_ok] k
    by (auto simp: demo_world_fields demo_peer_fields route_keys_def holds_route_def)
qed

text \<open>C37. Reading a packet that is neither IPv4 nor IPv6 (ARP never occurs in TUN mode, but the kernel may
  hand over other ether types) declares the destination of the previous packet a local address: the
  route variable still holds it. From then on packets from peers for that address are written to the
  own device instead of being forwarded.\<close>

theorem non_ip_packet_captures_route:
  assumes "cbc_sizes ssl" and "list_all ctxs_ok (peers w)" and "wf_tun v" and "mallocs w = []"
    and "0 \<le> if_fd w" and "HEADER_SPAN \<le> length p" and "length p < FRAME_PAYLOAD_MAXSIZE"
    and "HEADER_SPAN \<le> length q" and "length q < FRAME_PAYLOAD_MAXSIZE"
    and "packet_addr (tuntap_tap_mode w) p True \<noteq> None" and "packet_addr (tuntap_tap_mode w) q True = None"
  shows "\<exists>v' w'. broadcast_tuntap_device ssl [Some p, Some q] v w = Some (v', w') \<and>
           packet_fate w' p = To_device"
proof -
  obtain v1 w1 where 1: "broadcast_packet ssl p v w = Some (v1, w1)" "wf_tun v1" "mallocs w1 = []"
      "host_le w1 = host_le w" "if_tap w1 = if_tap w" "if_fd w1 = if_fd w" "list_all ctxs_ok (peers w1)"
      "route_key (tun_route v1) = wire_key w p False"
    using broadcast_packet_tables [OF assms(1-3,6,7,4)] assms(10) by (auto split: option.splits)
  have "packet_addr (tuntap_tap_mode w1) q True = None" using assms(11) 1(5) by (simp add: tuntap_tap_mode_def)
  then obtain v2 w2 where 2: "broadcast_packet ssl q v1 w1 = Some (v2, w2)" "host_le w2 = host_le w1"
      "if_tap w2 = if_tap w1"
      "route_keys (local_routes w2) = insert (route_key (tun_route v1)) (route_keys (local_routes w1))"
    using broadcast_packet_tables [OF assms(1) 1(7,2) assms(8,9) 1(3)] by auto
  have rd: "tuntap_read (Some x) FRAME_PAYLOAD_MAXSIZE u = (int (length x), x)"
    if "0 \<le> if_fd u" "length x < FRAME_PAYLOAD_MAXSIZE" for x and u :: "('a, 'b, 'c) peer_state_scheme"
    using that by (simp add: tuntap_read_def)
  have pos: "0 < length p" "0 < length q" using assms(6,8) unfolding HEADER_SPAN_def by linarith+
  have "broadcast_tuntap_device ssl [Some p, Some q] v w = Some (v2, w2)"
    using pos rd [of w p] rd [of w1 q] assms(5,7,9) 1(1,6) 2(1) by (simp add: length_greater_0_conv)
  moreover have "wire_key w2 p False = wire_key w p False"
    using 1(4,5) 2(2,3) by (simp add: wire_key_def tuntap_tap_mode_def)
  ultimately show ?thesis using 1(8) 2(4) by (simp add: packet_fate_def)
qed

theorem non_ip_packet_captures_route_witness:
  "\<exists>v' w'. broadcast_tuntap_device toy_ssl [Some demo_packet, Some (replicate 44 0)]
       (tun_vars_init (\<lambda>_. 9) (\<lambda>_. 9)) demo_world = Some (v', w') \<and> packet_fate w' demo_packet = To_device"
proof -
  have v: "wf_tun (tun_vars_init (\<lambda>_. 9) (\<lambda>_. 9))" by (simp add: wf_tun_def tun_vars_init_def wf_route_def)
  have w: "list_all ctxs_ok (peers demo_world)" "mallocs demo_world = []" "0 \<le> if_fd demo_world"
    by (simp_all add: demo_world_fields ctxs_ok_def demo_peer_fields)
  have p: "HEADER_SPAN \<le> length demo_packet" "length demo_packet < FRAME_PAYLOAD_MAXSIZE"
    "HEADER_SPAN \<le> length (replicate 44 (0 :: byte))" "length (replicate 44 (0 :: byte)) < FRAME_PAYLOAD_MAXSIZE"
    by (simp_all add: demo_packet_facts HEADER_SPAN_def frame_sizes)
  have a: "packet_addr (tuntap_tap_mode demo_world) demo_packet True \<noteq> None"
    "packet_addr (tuntap_tap_mode demo_world) (replicate 44 0) True = None"
    by (simp_all add: demo_world_fields tuntap_tap_mode_def demo_packet_def packet_addr_def be_u16_def
        ETH_P_IP_def ETH_P_IPV6_def)
  show ?thesis by (rule non_ip_packet_captures_route [OF toy_cbc_sizes w(1) v w(2,3) p a])
qed

end
