(* ===== verification/Tcp.thy ===== *)
theory Tcp
  imports Peer Packet_Header "HOL-Library.Multiset"
begin

text \<open>
  \<open>src/tcp.c\<close>, \<open>src/tcp4.c\<close>, \<open>src/tcp6.c\<close>: listening sockets, incoming and outgoing connections. The
  statics \<open>tcp4_socket\<close> and \<open>tcp6_socket\<close> join the process state. What the kernel and the resolver
  answer are arguments. \<open>peer_connection\<close> ends with the start of the connection's thread, which the
  result reports; the thread itself is in \<open>Connection\<close>, its steps are in \<open>Daemon_System\<close>.
\<close>

record ('k, 'c) tcp_state = "('k, 'c) peer_state" +
  tcp4_socket :: int
  tcp6_socket :: int

definition tcp_state_init :: "('k, 'c) tcp_state" where
  "tcp_state_init = peer_state.extend peer_state_init \<lparr>tcp4_socket = -1, tcp6_socket = -1\<rparr>"

definition DEFAULT_PORT :: u16 where "DEFAULT_PORT = 9678"

section \<open>Listening sockets\<close>

text \<open>
  The address given to \<open>bind\<close>: family, port in network byte order, address; for IPv6 the socket has
  dual mode disabled. A \<open>listener\<close> gathers the answers of \<open>inet_pton\<close>, \<open>socket\<close>, \<open>bind\<close>, \<open>listen\<close>.
\<close>

datatype sock_addr = Inet (sa_port: "byte list") (sa_addr: "byte list") | Inet6 (sa_port: "byte list") (sa_addr: "byte list")

record listener =
  inet_pton :: "string \<Rightarrow> byte list option"
  socket_ret :: int
  bind_ret :: "sock_addr \<Rightarrow> int"
  listen_ret :: "int \<Rightarrow> int"

text \<open>The bytes of \<open>htons(port)\<close> in memory, on any host.\<close>

definition htons_bytes :: "u16 \<Rightarrow> byte list" where
  "htons_bytes p = [ucast (drop_bit 8 p), ucast p]"

definition tcp4_bind ::
  "listener \<Rightarrow> string option \<Rightarrow> u16 \<Rightarrow> int \<Rightarrow> 'a os_scheme \<Rightarrow> int \<times> 'a os_scheme" where
  "tcp4_bind k bind_address bind_port backlog w =
     (case (case bind_address of None \<Rightarrow> Some (replicate 4 0) | Some a \<Rightarrow> inet_pton k a) of
        None \<Rightarrow> (-1, w)
      | Some a \<Rightarrow>
          (let sin = Inet (htons_bytes bind_port) a; s = socket_ret k
           in if s < 0 then (-1, w)
              else if bind_ret k sin = -1 then (-1, sys_close s w)
              else if listen_ret k backlog = -1 then (-1, sys_close s w)
              else (s, w)))"

definition tcp6_bind ::
  "listener \<Rightarrow> string option \<Rightarrow> u16 \<Rightarrow> int \<Rightarrow> 'a os_scheme \<Rightarrow> int \<times> 'a os_scheme" where
  "tcp6_bind k bind_address bind_port backlog w =
     (case (case bind_address of None \<Rightarrow> Some (replicate 16 0) | Some a \<Rightarrow> inet_pton k a) of
        None \<Rightarrow> (-1, w)
      | Some a \<Rightarrow>
          (let sin = Inet6 (htons_bytes bind_port) a; s = socket_ret k
           in if s < 0 then (-1, w)
              else if bind_ret k sin = -1 then (-1, sys_close s w)
              else if listen_ret k backlog = -1 then (-1, sys_close s w)
              else (s, w)))"

section \<open>Connections\<close>

definition AF_INET6 :: u16 where "AF_INET6 = 10"

definition host_u16 :: "bool \<Rightarrow> byte list \<Rightarrow> u16" where
  "host_u16 le bs = (if le then be_u16 (bs ! 1) (bs ! 0) else be_u16 (bs ! 0) (bs ! 1))"

text \<open>
  \<open>add_peer\<close> and the start of the thread: the slot of the new peer, none when there was no memory (the
  socket then stays open).
\<close>

definition peer_connection ::
  "string \<Rightarrow> u16 \<Rightarrow> int \<Rightarrow> bool \<Rightarrow> ('k, 'c, 'a) peer_state_scheme
     \<Rightarrow> (nat option \<times> ('k, 'c, 'a) peer_state_scheme) option" where
  "peer_connection adr prt s client w = add_peer adr prt s client w"

text \<open>
  \<open>accept\<close> answers a descriptor and fills the 16 bytes of a \<open>struct sockaddr\<close>: family, port, address.
  The address of an IPv6 peer is read at bytes 8 to 23, outside that object. The port is stored as it
  is on the wire and loaded as a host integer.
\<close>

definition tcp_accept_connection ::
  "(int \<times> byte list) option \<Rightarrow> ('k, 'c, 'a) peer_state_scheme
     \<Rightarrow> (int \<times> nat option \<times> ('k, 'c, 'a) peer_state_scheme) option" where
  "tcp_accept_connection answer w =
     (case answer of
        None \<Rightarrow> Some (-1, None, w)
      | Some (s, sin) \<Rightarrow>
          (let prt = host_u16 (host_le w) (drop 2 sin)
           in do {
                adr \<leftarrow> (if host_u16 (host_le w) sin = AF_INET6
                        then map_option inet_ntop6 (mem_read sin 8 16)
                        else map_option inet_ntop4 (mem_read sin 4 4));
                (i, w1) \<leftarrow> peer_connection adr prt s False w;
                Some (0, i, w1)
              }))"

definition tcp_server_close :: "('k, 'c, 'a) tcp_state_scheme \<Rightarrow> ('k, 'c, 'a) tcp_state_scheme" where
  "tcp_server_close w =
     (let w1 = (if tcp4_socket w > 0 then (sys_close (tcp4_socket w) w)\<lparr>tcp4_socket := -1\<rparr> else w)
      in if tcp6_socket w1 > 0 then (sys_close (tcp6_socket w1) w1)\<lparr>tcp6_socket := -1\<rparr> else w1)"

definition tcp_server_open ::
  "listener \<Rightarrow> listener \<Rightarrow> bool \<Rightarrow> bool \<Rightarrow> int \<Rightarrow> ('k, 'c, 'a) tcp_state_scheme \<Rightarrow> ('k, 'c, 'a) tcp_state_scheme" where
  "tcp_server_open k4 k6 v4 v6 backlog w =
     (let w1 = (if v4 then (case tcp4_bind k4 None DEFAULT_PORT backlog w of (s, w') \<Rightarrow> w'\<lparr>tcp4_socket := s\<rparr>) else w)
      in if v6 then (case tcp6_bind k6 None DEFAULT_PORT backlog w1 of (s, w') \<Rightarrow> w'\<lparr>tcp6_socket := s\<rparr>) else w1)"

text \<open>
  One answer of \<open>poll\<close>: an error, nothing within the second, the servers closed by the signal handler
  meanwhile, or for each of the two sockets whether it is readable and what its \<open>accept\<close> answers.
\<close>

datatype poll_event =
    Poll_error
  | Poll_timeout
  | Closed_meanwhile
  | Poll_ready "(int \<times> byte list) option option" "(int \<times> byte list) option option"

definition accept_ready ::
  "(int \<times> byte list) option option \<Rightarrow> ('k, 'c, 'a) peer_state_scheme \<Rightarrow> ('k, 'c, 'a) peer_state_scheme option" where
  "accept_ready a w =
     (case a of
        None \<Rightarrow> Some w
      | Some answer \<Rightarrow> do { (ret, i, w1) \<leftarrow> tcp_accept_connection answer w; Some w1 })"

text \<open>The loop of \<open>tcp_server\<close>; the first component is its return value, none while it is still polling.\<close>

fun tcp_server_loop ::
  "poll_event list \<Rightarrow> ('k, 'c, 'a) tcp_state_scheme \<Rightarrow> (int option \<times> ('k, 'c, 'a) tcp_state_scheme) option" where
  "tcp_server_loop [] w = Some (if tcp4_socket w > 0 \<or> tcp6_socket w > 0 then None else Some 0, w)"
| "tcp_server_loop (e # es) w =
     (if tcp4_socket w > 0 \<or> tcp6_socket w > 0 then
        (case e of
           Poll_error \<Rightarrow> Some (Some (-1), tcp_server_close w)
         | Poll_timeout \<Rightarrow> tcp_server_loop es w
         | Closed_meanwhile \<Rightarrow> tcp_server_loop es (tcp_server_close w)
         | Poll_ready a4 a6 \<Rightarrow>
             do { w1 \<leftarrow> accept_ready a4 w; w2 \<leftarrow> accept_ready a6 w1; tcp_server_loop es w2 })
      else Some (Some 0, w))"

definition tcp_server ::
  "listener \<Rightarrow> listener \<Rightarrow> bool \<Rightarrow> bool \<Rightarrow> int \<Rightarrow> poll_event list \<Rightarrow> ('k, 'c, 'a) tcp_state_scheme
     \<Rightarrow> (int option \<times> ('k, 'c, 'a) tcp_state_scheme) option" where
  "tcp_server k4 k6 v4 v6 backlog es w = tcp_server_loop es (tcp_server_open k4 k6 v4 v6 backlog w)"

text \<open>
  The resolver answers the first address, whether it is IPv6 and its bytes. \<open>connect\<close> is given the size
  of the IPv6 structure whatever the family and reads what is there.
\<close>

definition tcp_client ::
  "(string \<Rightarrow> (bool \<times> byte list) option) \<Rightarrow> int \<Rightarrow> (sock_addr \<Rightarrow> int) \<Rightarrow> string \<Rightarrow> u16
     \<Rightarrow> ('k, 'c, 'a) peer_state_scheme \<Rightarrow> (int \<times> nat option \<times> ('k, 'c, 'a) peer_state_scheme) option" where
  "tcp_client getaddrinfo socket_r connect_r hostname prt w =
     (case getaddrinfo hostname of
        None \<Rightarrow> Some (-1, None, w)
      | Some (inet6, a) \<Rightarrow>
          (let adr = (if inet6 then inet_ntop6 a else inet_ntop4 a);
               sin = (if inet6 then Inet6 (htons_bytes prt) a else Inet (htons_bytes prt) a);
               s = socket_r
           in if s = -1 then Some (-1, None, w)
              else if connect_r sin = -1 then Some (-1, None, sys_close s w)
              else do { (i, w1) \<leftarrow> peer_connection adr prt s True w; Some (0, i, w1) }))"

section \<open>Lemmas\<close>

lemma bind_result:
  "tcp4_bind k a p b w = (r, w') \<Longrightarrow>
     (r = -1 \<longrightarrow> w' = w \<or> (0 \<le> socket_ret k \<and> w' = sys_close (socket_ret k) w)) \<and>
     (r \<noteq> -1 \<longrightarrow> r = socket_ret k \<and> 0 \<le> r \<and> w' = w)"
  "tcp6_bind k a p b w = (r, w') \<Longrightarrow>
     (r = -1 \<longrightarrow> w' = w \<or> (0 \<le> socket_ret k \<and> w' = sys_close (socket_ret k) w)) \<and>
     (r \<noteq> -1 \<longrightarrow> r = socket_ret k \<and> 0 \<le> r \<and> w' = w)"
  by (auto simp: tcp4_bind_def tcp6_bind_def Let_def split: option.splits if_splits)

definition listening :: "('k, 'c, 'a) tcp_state_scheme \<Rightarrow> int list" where
  "listening w = filter (\<lambda>s. s > 0) [tcp4_socket w, tcp6_socket w]"

lemma tcp_server_close_result:
  "closed (tcp_server_close w) = closed w @ listening w" "listening (tcp_server_close w) = []"
  "peers (tcp_server_close w) = peers w"
  by (simp_all add: tcp_server_close_def listening_def sys_close_def Let_def)

definition handed_out :: "listener \<Rightarrow> bool \<Rightarrow> int multiset" where
  "handed_out k v = (if v \<and> 0 \<le> socket_ret k then {#socket_ret k#} else {#})"

text \<open>One family: what \<open>bind\<close> closed and what is left listening are together what was handed out.\<close>

lemma bind_accounts:
  "tcp4_bind k None p b w = (s, w') \<Longrightarrow>
     \<exists>cs. w' = w\<lparr>closed := closed w @ cs\<rparr> \<and>
       mset cs + (if 0 \<le> s then {#s#} else {#}) = handed_out k True \<and> (s = -1 \<or> s = socket_ret k \<and> 0 \<le> s)"
  "tcp6_bind k None p b w = (s, w') \<Longrightarrow>
     \<exists>cs. w' = w\<lparr>closed := closed w @ cs\<rparr> \<and>
       mset cs + (if 0 \<le> s then {#s#} else {#}) = handed_out k True \<and> (s = -1 \<or> s = socket_ret k \<and> 0 \<le> s)"
  by (auto simp: tcp4_bind_def tcp6_bind_def Let_def handed_out_def sys_close_def
      intro: exI [of _ "[]"] exI [of _ "[_]"] split: if_splits)

lemma tcp_server_open_accounts:
  assumes "tcp4_socket w = -1" and "tcp6_socket w = -1" and "socket_ret k4 \<noteq> 0" and "socket_ret k6 \<noteq> 0"
  shows "mset (closed (tcp_server_open k4 k6 v4 v6 b w)) + mset (listening (tcp_server_open k4 k6 v4 v6 b w)) =
           mset (closed w) + handed_out k4 v4 + handed_out k6 v6"
proof -
  obtain s4 w4 where b4: "tcp4_bind k4 None DEFAULT_PORT b w = (s4, w4)"
    by (cases "tcp4_bind k4 None DEFAULT_PORT b w")
  from bind_accounts(1) [OF b4] obtain cs4 where c4: "w4 = w\<lparr>closed := closed w @ cs4\<rparr>"
    "mset cs4 + (if 0 \<le> s4 then {#s4#} else {#}) = handed_out k4 True" "s4 = -1 \<or> s4 = socket_ret k4 \<and> 0 \<le> s4"
    by blast
  define w1 where "w1 = (if v4 then w4\<lparr>tcp4_socket := s4\<rparr> else w)"
  obtain s6 w6 where b6: "tcp6_bind k6 None DEFAULT_PORT b w1 = (s6, w6)"
    by (cases "tcp6_bind k6 None DEFAULT_PORT b w1")
  from bind_accounts(2) [OF b6] obtain cs6 where c6: "w6 = w1\<lparr>closed := closed w1 @ cs6\<rparr>"
    "mset cs6 + (if 0 \<le> s6 then {#s6#} else {#}) = handed_out k6 True" "s6 = -1 \<or> s6 = socket_ret k6 \<and> 0 \<le> s6"
    by blast
  have o: "tcp_server_open k4 k6 v4 v6 b w = (if v6 then w6\<lparr>tcp6_socket := s6\<rparr> else w1)"
    using b4 b6 by (cases v4) (simp_all add: tcp_server_open_def w1_def)
  have pos: "s > 0 \<longleftrightarrow> 0 \<le> s" if "s = -1 \<or> s = k \<and> 0 \<le> s" "k \<noteq> 0" for s k :: int using that by auto
  have none: "handed_out k False = {#}" for k by (simp add: handed_out_def)
  note p = pos [OF c4(3) assms(3)] pos [OF c6(3) assms(4)]
  show ?thesis
    unfolding o
    by (cases v4; cases v6)
      (auto simp: w1_def c4(1) c6(1) c4(2) [symmetric] c6(2) [symmetric] p listening_def none assms(1,2))
qed

text \<open>What the accept loop accepted: the sockets of the ready listeners up to the end of the loop.\<close>

definition answered :: "(int \<times> byte list) option option \<Rightarrow> int list" where
  "answered a = (case a of Some (Some (s, sin)) \<Rightarrow> [s] | _ \<Rightarrow> [])"

fun accepted :: "poll_event list \<Rightarrow> int list" where
  "accepted (Poll_ready a4 a6 # es) = answered a4 @ answered a6 @ accepted es"
| "accepted (Poll_timeout # es) = accepted es"
| "accepted es = []"

definition connected :: "('k, 'c) peer list \<Rightarrow> bool" where
  "connected ps \<longleftrightarrow> list_all alive ps \<and> list_all no_dangling ps"

lemma connected_append [simp]: "connected (ps @ qs) \<longleftrightarrow> connected ps \<and> connected qs"
  by (auto simp: connected_def)

lemma add_peer_connected:
  assumes "connected (peers w)" and "mallocs w = []"
  shows "add_peer adr prt s client w =
           Some (Some (length (peers w)), w\<lparr>peers := peers w @ [fresh_peer (Ptr adr) prt s client Null]\<rparr>)"
  using assms by (simp add: add_peer_def find_dead_slot create_peer_ok connected_def)

lemma accept_ready_result:
  assumes "accept_ready a w = Some w'" and "connected (peers w)" and "mallocs w = []"
  shows "\<exists>ps. w' = w\<lparr>peers := peers w @ ps\<rparr> \<and> map sockfd ps = answered a \<and> connected ps"
proof -
  have fresh: "connected [fresh_peer (Ptr adr) prt s client Null]" for adr prt s client
    by (simp add: connected_def fresh_peer_def no_dangling_def)
  consider "a = None \<or> a = Some None" | s sin where "a = Some (Some (s, sin))"
    by (metis not_None_eq surj_pair)
  then show ?thesis
  proof cases
    case 1
    then have "w' = w" "answered a = []"
      using assms(1) by (auto simp: accept_ready_def tcp_accept_connection_def answered_def)
    then show ?thesis by (intro exI [of _ "[]"]) (simp add: connected_def)
  next
    case 2
    then obtain adr prt where "w' = w\<lparr>peers := peers w @ [fresh_peer (Ptr adr) prt s False Null]\<rparr>"
      using assms
      by (auto simp: accept_ready_def tcp_accept_connection_def peer_connection_def add_peer_connected
          Option.bind_eq_Some_conv Let_def)
    with 2 fresh show ?thesis
      by (intro exI [of _ "[fresh_peer (Ptr adr) prt s False Null]"]) (simp add: answered_def fresh_peer_def)
  qed
qed

lemma listening_None: "listening w = [] \<longleftrightarrow> \<not> (tcp4_socket w > 0 \<or> tcp6_socket w > 0)"
  by (simp add: listening_def)

lemma tcp_server_close_shape:
  "\<exists>t4 t6. tcp_server_close w = w\<lparr>closed := closed w @ listening w, tcp4_socket := t4, tcp6_socket := t6\<rparr>"
proof -
  have "tcp_server_close w = w\<lparr>closed := closed w @ listening w,
      tcp4_socket := (if tcp4_socket w > 0 then -1 else tcp4_socket w),
      tcp6_socket := (if tcp6_socket w > 0 then -1 else tcp6_socket w)\<rparr>"
    by (simp add: tcp_server_close_def listening_def sys_close_def Let_def)
  then show ?thesis by blast
qed

text \<open>How the loop leaves the state: listeners closed, the accepted connections in the table.\<close>

definition served :: "('k, 'c, 'a) tcp_state_scheme \<Rightarrow> int list \<Rightarrow> ('k, 'c, 'a) tcp_state_scheme \<Rightarrow> bool" where
  "served w socks w' \<longleftrightarrow>
     (\<exists>t4 t6 ps. w' = w\<lparr>closed := closed w @ listening w, tcp4_socket := t4, tcp6_socket := t6, peers := peers w @ ps\<rparr> \<and>
        listening w' = [] \<and> map sockfd ps = socks \<and> connected ps)"

lemma connected_Nil [simp]: "connected []"
  by (simp add: connected_def)

lemma served_nothing: "listening w = [] \<Longrightarrow> served w [] w"
  unfolding served_def
  by (intro exI [of _ "tcp4_socket w"] exI [of _ "tcp6_socket w"] exI [of _ "[]"]) simp

lemma served_close: "served w [] (tcp_server_close w)"
proof -
  obtain t4 t6 where c: "tcp_server_close w = w\<lparr>closed := closed w @ listening w, tcp4_socket := t4, tcp6_socket := t6\<rparr>"
    using tcp_server_close_shape by blast
  show ?thesis
    unfolding served_def
    by (rule exI [of _ t4], rule exI [of _ t6], rule exI [of _ "[]"])
      (use c tcp_server_close_result(2) [of w] in simp)
qed

lemma listening_peers: "listening (w\<lparr>peers := ps\<rparr>) = listening w"
  by (simp add: listening_def)

lemma served_accepted:
  assumes "served (w\<lparr>peers := peers w @ ps\<rparr>) socks w'" and "connected ps"
  shows "served w (map sockfd ps @ socks) w'"
proof -
  obtain t4 t6 qs where "w' = w\<lparr>closed := closed w @ listening w, tcp4_socket := t4, tcp6_socket := t6, peers := peers w @ ps @ qs\<rparr>"
    "listening w' = []" "map sockfd qs = socks" "connected qs"
    using assms(1) unfolding served_def listening_peers by auto
  with assms(2) show ?thesis
    unfolding served_def by (intro exI [of _ t4] exI [of _ t6] exI [of _ "ps @ qs"]) simp
qed

lemma accept_both_result:
  assumes "accept_ready a4 w = Some w1" and "accept_ready a6 w1 = Some w2" and "connected (peers w)" and "mallocs w = []"
  shows "\<exists>ps. w2 = w\<lparr>peers := peers w @ ps\<rparr> \<and> map sockfd ps = answered a4 @ answered a6 \<and> connected ps"
proof -
  obtain p4 where p4: "w1 = w\<lparr>peers := peers w @ p4\<rparr>" "map sockfd p4 = answered a4" "connected p4"
    using accept_ready_result [OF assms(1,3,4)] by blast
  obtain p6 where "w2 = w1\<lparr>peers := peers w1 @ p6\<rparr>" "map sockfd p6 = answered a6" "connected p6"
    using accept_ready_result [OF assms(2)] assms(3,4) p4 by auto
  with p4 show ?thesis by (intro exI [of _ "p4 @ p6"]) simp
qed

lemma tcp_server_loop_result:
  "tcp_server_loop es w = Some (Some r, w') \<Longrightarrow> connected (peers w) \<Longrightarrow> mallocs w = [] \<Longrightarrow>
     served w (if listening w = [] then [] else accepted es) w'"
proof (induction es arbitrary: w)
  case Nil
  then show ?case by (auto simp: listening_None served_nothing split: if_splits)
next
  case (Cons e es)
  show ?case
  proof (cases "listening w = []")
    case True
    with Cons.prems(1) show ?thesis by (auto simp: listening_None served_nothing)
  next
    case False
    then have pos: "tcp4_socket w > 0 \<or> tcp6_socket w > 0" by (simp add: listening_None)
    show ?thesis
    proof (cases e)
      case Poll_error
      then show ?thesis using Cons.prems(1) pos served_close [of w] by auto
    next
      case Poll_timeout
      then have "tcp_server_loop es w = Some (Some r, w')" using Cons.prems(1) pos by simp
      from Cons.IH [OF this Cons.prems(2,3)] show ?thesis by (simp only: Poll_timeout accepted.simps)
    next
      case Closed_meanwhile
      then have "tcp_server_loop es (tcp_server_close w) = Some (Some r, w')" using Cons.prems(1) pos by simp
      then have "w' = tcp_server_close w"
        using tcp_server_close_result(2) [of w] by (cases es) (auto simp: listening_None)
      then show ?thesis by (simp add: Closed_meanwhile served_close)
    next
      case (Poll_ready a4 a6)
      then obtain w1 w2 where a: "accept_ready a4 w = Some w1" "accept_ready a6 w1 = Some w2"
        and l: "tcp_server_loop es w2 = Some (Some r, w')"
        using Cons.prems(1) pos by (auto simp: Option.bind_eq_Some_conv)
      obtain ps where ps: "w2 = w\<lparr>peers := peers w @ ps\<rparr>" "map sockfd ps = answered a4 @ answered a6" "connected ps"
        using accept_both_result [OF a Cons.prems(2,3)] by blast
      have "listening w2 = listening w" using ps(1) by (simp add: listening_def)
      then have "served w2 (accepted es) w'" using Cons.IH [OF l] Cons.prems(2,3) ps False by simp
      then have "served w (map sockfd ps @ accepted es) w'" unfolding ps(1) by (rule served_accepted [OF _ ps(3)])
      then show ?thesis using False ps(2) by (simp add: Poll_ready)
    qed
  qed
qed

lemma tcp_server_open_shape:
  "\<exists>cs t4 t6. tcp_server_open k4 k6 v4 v6 b w = w\<lparr>closed := cs, tcp4_socket := t4, tcp6_socket := t6\<rparr>"
proof -
  obtain s4 w4 where b4: "tcp4_bind k4 None DEFAULT_PORT b w = (s4, w4)" by (cases "tcp4_bind k4 None DEFAULT_PORT b w")
  define w1 where "w1 = (if v4 then w4\<lparr>tcp4_socket := s4\<rparr> else w)"
  obtain s6 w6 where b6: "tcp6_bind k6 None DEFAULT_PORT b w1 = (s6, w6)" by (cases "tcp6_bind k6 None DEFAULT_PORT b w1")
  obtain c4 c6 where c: "w4 = w\<lparr>closed := closed w @ c4\<rparr>" "w6 = w1\<lparr>closed := closed w1 @ c6\<rparr>"
    using bind_accounts(1) [OF b4] bind_accounts(2) [OF b6] by blast
  have o: "tcp_server_open k4 k6 v4 v6 b w = (if v6 then w6\<lparr>tcp6_socket := s6\<rparr> else w1)"
    using b4 b6 by (cases v4) (simp_all add: tcp_server_open_def w1_def)
  have w1: "\<exists>cs t4. w1 = w\<lparr>closed := cs, tcp4_socket := t4, tcp6_socket := tcp6_socket w\<rparr>"
  proof (cases v4)
    case True
    then show ?thesis by (auto simp: w1_def c(1))
  next
    case False
    have "w = w\<lparr>closed := closed w, tcp4_socket := tcp4_socket w, tcp6_socket := tcp6_socket w\<rparr>" by simp
    with False show ?thesis unfolding w1_def by metis
  qed
  show ?thesis
  proof (cases v6)
    case True
    obtain cs t4 where e: "w1 = w\<lparr>closed := cs, tcp4_socket := t4, tcp6_socket := tcp6_socket w\<rparr>" using w1 by blast
    have "w6\<lparr>tcp6_socket := s6\<rparr> = w\<lparr>closed := cs @ c6, tcp4_socket := t4, tcp6_socket := s6\<rparr>"
      unfolding c(2) e by simp
    with True show ?thesis unfolding o by auto
  next
    case False
    obtain cs t4 where e: "w1 = w\<lparr>closed := cs, tcp4_socket := t4, tcp6_socket := tcp6_socket w\<rparr>" using w1 by blast
    have "tcp_server_open k4 k6 v4 v6 b w = w\<lparr>closed := cs, tcp4_socket := t4, tcp6_socket := tcp6_socket w\<rparr>"
      unfolding o using False e by (simp only: if_False)
    then show ?thesis by blast
  qed
qed

lemma tcp_server_result:
  assumes "tcp_server k4 k6 v4 v6 b es w = Some (Some r, w')" and "connected (peers w)" and "mallocs w = []"
    and "tcp4_socket w = -1" and "tcp6_socket w = -1" and "socket_ret k4 \<noteq> 0" and "socket_ret k6 \<noteq> 0"
  shows "\<exists>cs t4 t6 ps. w' = w\<lparr>closed := cs, tcp4_socket := t4, tcp6_socket := t6, peers := peers w @ ps\<rparr> \<and>
           mset cs = mset (closed w) + handed_out k4 v4 + handed_out k6 v6 \<and> listening w' = [] \<and> connected ps \<and>
           map sockfd ps = (if listening (tcp_server_open k4 k6 v4 v6 b w) = [] then [] else accepted es)"
proof -
  let ?o = "tcp_server_open k4 k6 v4 v6 b w"
  obtain cs t4 t6 where o: "?o = w\<lparr>closed := cs, tcp4_socket := t4, tcp6_socket := t6\<rparr>"
    using tcp_server_open_shape by blast
  have l: "tcp_server_loop es ?o = Some (Some r, w')" using assms(1) by (simp add: tcp_server_def)
  have c: "connected (peers ?o)" "mallocs ?o = []" using assms(2,3) by (simp_all add: o)
  obtain u4 u6 ps where r: "w' = ?o\<lparr>closed := closed ?o @ listening ?o, tcp4_socket := u4, tcp6_socket := u6, peers := peers ?o @ ps\<rparr>"
    "listening w' = []" "map sockfd ps = (if listening ?o = [] then [] else accepted es)" "connected ps"
    using tcp_server_loop_result [OF l c] unfolding served_def by blast
  have "w' = w\<lparr>closed := closed ?o @ listening ?o, tcp4_socket := u4, tcp6_socket := u6, peers := peers w @ ps\<rparr>"
    by (simp add: r(1)) (simp add: o)
  then show ?thesis
    using r(2-4) tcp_server_open_accounts [OF assms(4-7), of v4 v6 b]
    by (intro exI [of _ "closed ?o @ listening ?o"] exI [of _ u4] exI [of _ u6] exI [of _ ps]) simp
qed

text \<open>A listener comes up when its three calls succeed; it is the default port's, whatever port was asked for.\<close>

definition comes_up :: "listener \<Rightarrow> sock_addr \<Rightarrow> int \<Rightarrow> bool \<Rightarrow> bool" where
  "comes_up k sin backlog v \<longleftrightarrow>
     v \<and> 0 \<le> socket_ret k \<and> bind_ret k sin \<noteq> -1 \<and> listen_ret k backlog \<noteq> -1"

definition any4 :: sock_addr where "any4 = Inet (htons_bytes DEFAULT_PORT) (replicate 4 0)"
definition any6 :: sock_addr where "any6 = Inet6 (htons_bytes DEFAULT_PORT) (replicate 16 0)"

lemma listening_open:
  assumes "tcp4_socket w = -1" and "tcp6_socket w = -1" and "socket_ret k4 \<noteq> 0" and "socket_ret k6 \<noteq> 0"
  shows "listening (tcp_server_open k4 k6 v4 v6 b w) = [] \<longleftrightarrow> \<not> comes_up k4 any4 b v4 \<and> \<not> comes_up k6 any6 b v6"
  using assms
  by (auto simp: tcp_server_open_def tcp4_bind_def tcp6_bind_def listening_def comes_up_def any4_def any6_def
      Let_def sys_close_def)

section \<open>Properties\<close>

text \<open>No descriptor is lost or closed twice when the servers are opened and closed: after
  \<open>tcp_server_open\<close> and \<open>tcp_server_close\<close> every socket the kernel handed out, and nothing else, has
  been closed exactly once, whichever of \<open>bind\<close> and \<open>listen\<close> failed; and a second close does nothing.
  (The kernel must not hand out descriptor 0, which the code takes for no socket.)\<close>

theorem server_sockets_closed_once:
  assumes "tcp4_socket w = -1" and "tcp6_socket w = -1" and "socket_ret k4 \<noteq> 0" and "socket_ret k6 \<noteq> 0"
  shows "mset (closed (tcp_server_close (tcp_server_open k4 k6 v4 v6 b w))) =
           mset (closed w) + handed_out k4 v4 + handed_out k6 v6 \<and>
         tcp_server_close (tcp_server_close (tcp_server_open k4 k6 v4 v6 b w)) =
           tcp_server_close (tcp_server_open k4 k6 v4 v6 b w)"
proof
  show "mset (closed (tcp_server_close (tcp_server_open k4 k6 v4 v6 b w))) =
           mset (closed w) + handed_out k4 v4 + handed_out k6 v6"
    using tcp_server_open_accounts [OF assms] by (simp add: tcp_server_close_result)
  show "tcp_server_close (tcp_server_close (tcp_server_open k4 k6 v4 v6 b w)) =
           tcp_server_close (tcp_server_open k4 k6 v4 v6 b w)"
    by (simp add: tcp_server_close_def sys_close_def Let_def)
qed

theorem server_sockets_closed_once_witness:
  "mset (closed (tcp_server_close (tcp_server_open
      \<lparr>inet_pton = (\<lambda>_. None), socket_ret = 5, bind_ret = (\<lambda>_. 0), listen_ret = (\<lambda>_. 0)\<rparr>
      \<lparr>inet_pton = (\<lambda>_. None), socket_ret = 6, bind_ret = (\<lambda>_. -1), listen_ret = (\<lambda>_. 0)\<rparr>
      True True 10 (tcp_state_init :: (bool, bool) tcp_state)))) = {#5, 6#}"
proof -
  let ?w = "tcp_state_init :: (bool, bool) tcp_state"
  have w: "tcp4_socket ?w = -1" "tcp6_socket ?w = -1" "closed ?w = []"
    by (simp_all add: tcp_state_init_def peer_state.defs peer_state_init_def key_init_def iface_init_def
        cfg_init_def log_init_def os_init_def os.defs log_state.defs cfg_state.defs iface_state.defs
        key_state.defs)
  show ?thesis
    using server_sockets_closed_once [OF w(1,2),
        of "\<lparr>inet_pton = (\<lambda>_. None), socket_ret = 5, bind_ret = (\<lambda>_. 0), listen_ret = (\<lambda>_. 0)\<rparr>"
           "\<lparr>inet_pton = (\<lambda>_. None), socket_ret = 6, bind_ret = (\<lambda>_. -1), listen_ret = (\<lambda>_. 0)\<rparr>" True True 10]
    by (simp add: w handed_out_def)
qed

text \<open>C38. Accepting an IPv4 connection registers the peer with the dotted form of its address, as a server
  side, but with the two bytes of its port swapped on a little-endian host; accepting an IPv6
  connection reads 8 bytes past the address structure.\<close>

theorem accept_connection_address:
  assumes "length fam = 2" and "length a = 4" and "length pad = 8"
  shows "tcp_accept_connection (Some (s, fam @ htons_bytes p @ a @ pad)) w =
           (if host_u16 (host_le w) fam = AF_INET6 then None
            else
              map_option (\<lambda>(i, w1). (0, i, w1))
                (add_peer (inet_ntop4 a)
                   (if host_le w then be_u16 (ucast p) (ucast (drop_bit 8 p)) else p) s False w))"
proof -
  have join: "be_u16 (ucast (drop_bit 8 p)) (ucast p) = p"
    by (rule bit_word_eqI) (auto simp: be_u16_def bit_simps dest: bit_imp_le_length)
  obtain f g where f: "fam = [f, g]" using assms(1) by (auto simp: numeral_2_eq_2 length_Suc_conv)
  have prt: "host_u16 (host_le w) (htons_bytes p @ xs) =
      (if host_le w then be_u16 (ucast p) (ucast (drop_bit 8 p)) else p)" for xs
    by (simp add: host_u16_def htons_bytes_def join)
  have fam: "host_u16 le (fam @ xs) = host_u16 le fam" for le xs by (simp add: f host_u16_def)
  have six: "mem_read (fam @ htons_bytes p @ a @ pad) 8 16 = None"
    using assms by (simp add: mem_read_None f htons_bytes_def)
  have four: "mem_read (fam @ htons_bytes p @ a @ pad) 4 4 = Some a"
    using assms by (simp add: mem_read_def f htons_bytes_def numeral_eq_Suc)
  have drop2: "drop 2 (fam @ xs) = xs" for xs by (simp add: f numeral_2_eq_2)
  let ?p = "if host_le w then be_u16 (ucast p) (ucast (drop_bit 8 p)) else p"
  have "tcp_accept_connection (Some (s, fam @ htons_bytes p @ a @ pad)) w =
      (if host_u16 (host_le w) fam = AF_INET6 then None
       else Option.bind (add_peer (inet_ntop4 a) ?p s False w) (\<lambda>(i, w1). Some (0, i, w1)))"
    by (simp add: tcp_accept_connection_def Let_def peer_connection_def fam prt six four drop2 del: drop_append)
  then show ?thesis
    by (cases "add_peer (inet_ntop4 a) ?p s False w") auto
qed

theorem accept_connection_address_witness:
  "map_option (\<lambda>(r, i, w). (i, port (peers w ! 0)))
     (tcp_accept_connection (Some (9, [2, 0] @ htons_bytes 0x1234 @ [10, 0, 0, 7] @ replicate 8 0))
        (peer_state_init :: (bool, bool) peer_state)) = Some (Some 0, 0x3412)"
proof -
  have m: "mallocs (peer_state_init :: (bool, bool) peer_state) = []" "peers (peer_state_init :: (bool, bool) peer_state) = []"
    "host_le (peer_state_init :: (bool, bool) peer_state)"
    by (simp_all add: peer_state_init_def peer_state.defs key_init_def iface_init_def cfg_init_def log_init_def os_init_def
      os.defs log_state.defs cfg_state.defs iface_state.defs key_state.defs)
  have sw: "be_u16 (ucast (0x1234 :: u16)) (ucast (drop_bit 8 (0x1234 :: u16))) = 0x3412"
    by (simp add: be_u16_def)
  have f: "host_u16 True [2, 0] \<noteq> AF_INET6" by (simp add: host_u16_def be_u16_def AF_INET6_def)
  have "length [2, 0 :: byte] = 2" "length [10, 0, 0, 7 :: byte] = 4" "length (replicate 8 (0 :: byte)) = 8" by simp_all
  from accept_connection_address [OF this, of 9 "0x1234" "peer_state_init :: (bool, bool) peer_state"]
  show ?thesis
    using m sw f by (simp add: add_peer_def create_peer_ok fresh_peer_def)
qed

end
