(* ===== verification/Args.thy ===== *)
theory Args
  imports Tcp
begin

text \<open>
  \<open>src/args.c\<close>: the command line. What \<open>getopt_long\<close> finds is an argument: the options in order, each
  with its \<open>optarg\<close> (empty when it takes none), and the operands that are left. An \<open>exit\<close> is an
  outcome of its own, with its status and what was printed on the two standard streams. The
  configuration directory and the logging level, which options set, are in the process state.
\<close>

record args =
  detach :: bool
  tap_mode :: bool
  server :: bool
  dev :: string
  args_address :: "string option"
  args_port :: u16
  no_ipv4 :: bool
  no_ipv6 :: bool

text \<open>
  A parsing function goes on, or the process exits with a status and what it wrote to the standard
  output and the standard error. \<open>GITVER\<close> (set by the build) and \<open>av[0]\<close> are arguments.
\<close>

datatype 'a outcome = Exit int string string | Continue 'a

definition EXIT_SUCCESS :: int where "EXIT_SUCCESS = 0"
definition EXIT_FAILURE :: int where "EXIT_FAILURE = 1"

definition nl :: string where "nl = [CHR 0x0A]"

definition print_license :: string where
  "print_license =
     ''VPNd  Copyright (C) 2020  akrocynova'' @ nl @
     ''This program comes with ABSOLUTELY NO WARRANTY.'' @ nl @
     ''This is free software, and you are welcome to redistribute it'' @ nl @
     ''under certain conditions.'' @ nl @
     ''Read LICENSE for more information.'' @ nl"

definition print_version :: "string \<Rightarrow> string" where
  "print_version gitver = ''VPN daemon version '' @ gitver @ nl"

definition print_usage :: "string \<Rightarrow> string" where
  "print_usage bin_name = ''Usage: '' @ bin_name @ '' [options] address'' @ nl"

definition print_help :: "string \<Rightarrow> string" where
  "print_help bin_name =
     print_license @ nl @ print_usage bin_name @
     nl @ ''Description:'' @ nl @
     ''Optionnal arguments:'' @ nl @
     ''    -h, --help           show this help message'' @ nl @
     ''    -v, --version        display program version'' @ nl @
     ''    --log-level {level}  set the log level (default=warn)'' @ nl @ nl @
     ''    -c, --config         path to configuration directory'' @ nl @
     ''                         (default=./)'' @ nl @
     ''    -s, --server         run in server mode'' @ nl @
     ''    --no-ipv4            disable IPv4 listening socket'' @ nl @
     ''    --no-ipv6            disable IPv6 listening socket'' @ nl @
     ''    -i, --interface      interface name'' @ nl @
     ''                         (default=vpnd)'' @ nl @
     ''    -m, --mode {mode}    interface mode, can be either tun or tap'' @ nl @
     ''                         (default: tun)'' @ nl @
     ''    -p, --port {port}    port to connect to or listen on'' @ nl @
     ''    --detach             detach the process to run as a daemon'' @ nl @
     nl @ ''Positionnal argument:'' @ nl @
     ''    address              address to connect to'' @ nl @
     ''                         only when running in client mode'' @ nl"

definition initialize_default_args ::
  "'a cfg_state_scheme \<Rightarrow> (args \<times> 'a cfg_state_scheme) option" where
  "initialize_default_args w =
     do {
       (_, w1) \<leftarrow> set_config_dir ''./'' w;
       Some (\<lparr>detach = False, tap_mode = False, server = False, dev = take (IFNAMSIZ - 1) ''vpnd'',
              args_address = None, args_port = DEFAULT_PORT, no_ipv4 = False, no_ipv6 = False\<rparr>, w1)
     }"

definition parse_interface_mode :: "string \<Rightarrow> args \<Rightarrow> args outcome" where
  "parse_interface_mode arg a =
     (if arg = ''tun'' then Continue (a\<lparr>tap_mode := False\<rparr>)
      else if arg = ''tap'' then Continue (a\<lparr>tap_mode := True\<rparr>)
      else Exit EXIT_FAILURE '''' (''Invalid mode: '' @ arg @ nl))"

section \<open>Ports\<close>

text \<open>
  \<open>atoi\<close>: white space, an optional sign, digits up to the first other character. A value that is not
  an \<open>int\<close> is undefined behaviour.
\<close>

definition c_isspace :: "char \<Rightarrow> bool" where
  "c_isspace c \<longleftrightarrow> c = CHR '' '' \<or> ((of_char c :: nat) \<in> {9, 10, 11, 12, 13})"

definition c_isdigit :: "char \<Rightarrow> bool" where
  "c_isdigit c \<longleftrightarrow> 48 \<le> (of_char c :: nat) \<and> (of_char c :: nat) \<le> 57"

fun digits_value :: "int \<Rightarrow> string \<Rightarrow> int" where
  "digits_value acc [] = acc"
| "digits_value acc (c # cs) =
     (if c_isdigit c then digits_value (10 * acc + (of_char c - 48)) cs else acc)"

definition atoi :: "string \<Rightarrow> int option" where
  "atoi s =
     (let t = dropWhile c_isspace s;
          v = (case t of
                 [] \<Rightarrow> 0
               | c # cs \<Rightarrow>
                   if c = CHR ''-'' then - digits_value 0 cs
                   else if c = CHR ''+'' then digits_value 0 cs
                   else digits_value 0 t)
      in if - (2 ^ 31) \<le> v \<and> v < 2 ^ 31 then Some v else None)"

definition UINT16_MAX :: int where "UINT16_MAX = 65535"

definition parse_port :: "string \<Rightarrow> args \<Rightarrow> args outcome option" where
  "parse_port arg a =
     do {
       port \<leftarrow> atoi arg;
       Some (if port \<le> 0 \<or> port > UINT16_MAX then Exit EXIT_FAILURE '''' (''Invalid port: '' @ arg @ nl)
             else Continue (a\<lparr>args_port := of_int port\<rparr>))
     }"

definition parse_log_level :: "string \<Rightarrow> 'a log_state_scheme \<Rightarrow> 'a log_state_scheme outcome" where
  "parse_log_level arg w =
     (case set_logging_level_str arg w of
        (r, w1) \<Rightarrow>
          if r < 0
          then Exit EXIT_FAILURE (print_logging_levels_str @ nl) ''Invalid logging level, possible levels are: ''
          else Continue w1)"

section \<open>Options\<close>

datatype opt = Long nat string | Short char string

fun with_world :: "args outcome \<Rightarrow> 'w \<Rightarrow> (args \<times> 'w) outcome" where
  "with_world (Exit c out err) w = Exit c out err"
| "with_world (Continue a) w = Continue (a, w)"

definition parse_longopt ::
  "string \<Rightarrow> string \<Rightarrow> nat \<Rightarrow> string \<Rightarrow> args \<Rightarrow> 'a cfg_state_scheme \<Rightarrow> (args \<times> 'a cfg_state_scheme) outcome option" where
  "parse_longopt gitver av0 opt_index optarg a w =
     (if opt_index = 0 then Some (Exit EXIT_SUCCESS (print_help av0) '''')
      else if opt_index = 1 then Some (Exit EXIT_SUCCESS (print_version gitver) '''')
      else if opt_index = 2 then
        Some (case parse_log_level optarg w of Exit c out err \<Rightarrow> Exit c out err | Continue w1 \<Rightarrow> Continue (a, w1))
      else if opt_index = 3 then Some (Continue (a\<lparr>server := True\<rparr>, w))
      else if opt_index = 4 then Some (with_world (parse_interface_mode optarg a) w)
      else if opt_index = 5 then do { r \<leftarrow> parse_port optarg a; Some (with_world r w) }
      else if opt_index = 6 then Some (Continue (a\<lparr>dev := take (IFNAMSIZ - 1) optarg\<rparr>, w))
      else if opt_index = 7 then Some (Continue (a\<lparr>detach := True\<rparr>, w))
      else if opt_index = 8 then do { (_, w1) \<leftarrow> set_config_dir optarg w; Some (Continue (a, w1)) }
      else if opt_index = 9 then Some (Continue (a\<lparr>no_ipv4 := True\<rparr>, w))
      else if opt_index = 10 then Some (Continue (a\<lparr>no_ipv6 := True\<rparr>, w))
      else Some (Exit EXIT_FAILURE '''' ''''))"

definition parse_shortopt ::
  "string \<Rightarrow> string \<Rightarrow> char \<Rightarrow> string \<Rightarrow> args \<Rightarrow> 'a cfg_state_scheme \<Rightarrow> (args \<times> 'a cfg_state_scheme) outcome option" where
  "parse_shortopt gitver av0 c optarg a w =
     (if c = CHR ''h'' then Some (Exit EXIT_SUCCESS (print_help av0) '''')
      else if c = CHR ''v'' then Some (Exit EXIT_SUCCESS (print_version gitver) '''')
      else if c = CHR ''s'' then Some (Continue (a\<lparr>server := True\<rparr>, w))
      else if c = CHR ''m'' then Some (with_world (parse_interface_mode optarg a) w)
      else if c = CHR ''p'' then do { r \<leftarrow> parse_port optarg a; Some (with_world r w) }
      else if c = CHR ''i'' then Some (Continue (a\<lparr>dev := take (IFNAMSIZ - 1) optarg\<rparr>, w))
      else if c = CHR ''c'' then do { (_, w1) \<leftarrow> set_config_dir optarg w; Some (Continue (a, w1)) }
      else Some (Exit EXIT_FAILURE '''' ''''))"

fun parse_options ::
  "string \<Rightarrow> string \<Rightarrow> opt list \<Rightarrow> args \<Rightarrow> 'a cfg_state_scheme \<Rightarrow> (args \<times> 'a cfg_state_scheme) outcome option" where
  "parse_options gitver av0 [] a w = Some (Continue (a, w))"
| "parse_options gitver av0 (opt # opts) a w =
     do {
       r \<leftarrow> (case opt of Long i optarg \<Rightarrow> parse_longopt gitver av0 i optarg a w
             | Short c optarg \<Rightarrow> parse_shortopt gitver av0 c optarg a w);
       case r of Exit c out err \<Rightarrow> Some (Exit c out err) | Continue (a1, w1) \<Rightarrow> parse_options gitver av0 opts a1 w1
     }"

definition parse_cmdline_arguments ::
  "string \<Rightarrow> string \<Rightarrow> opt list \<Rightarrow> string list \<Rightarrow> 'a cfg_state_scheme \<Rightarrow> (args \<times> 'a cfg_state_scheme) outcome option" where
  "parse_cmdline_arguments gitver av0 opts operands w =
     do {
       (a, w1) \<leftarrow> initialize_default_args w;
       r \<leftarrow> parse_options gitver av0 opts a w1;
       Some (case r of
               Exit c out err \<Rightarrow> Exit c out err
             | Continue (a1, w2) \<Rightarrow>
                 (if \<not> server a1 then
                    (case operands of
                       [] \<Rightarrow> Exit EXIT_FAILURE '''' (''Missing positionnal argument: address'' @ nl)
                     | x # xs \<Rightarrow> Continue (a1\<lparr>args_address := Some x\<rparr>, w2))
                  else (if operands \<noteq> []
                        then Exit EXIT_FAILURE '''' (''Invalid positionnal argument: '' @ hd operands @ nl)
                        else Continue (a1, w2))))
     }"

section \<open>Lemmas\<close>

lemma digit_char:
  assumes "d < 10"
  shows "c_isdigit (digit d)" and "of_char (digit d) = (48 + int d)" and "\<not> c_isspace (digit d)"
    and "digit d \<noteq> CHR ''-''" and "digit d \<noteq> CHR ''+''"
proof -
  have "d \<in> {0, 1, 2, 3, 4, 5, 6, 7, 8, 9}" using assms by auto
  then show "c_isdigit (digit d)" "of_char (digit d) = (48 + int d)" "\<not> c_isspace (digit d)"
    "digit d \<noteq> CHR ''-''" "digit d \<noteq> CHR ''+''"
    by (auto simp: digit_def c_isdigit_def c_isspace_def)
qed

lemma digits_value_append:
  "\<forall>c \<in> set xs. c_isdigit c \<Longrightarrow> digits_value acc (xs @ ys) = digits_value (digits_value acc xs) ys"
  by (induction xs arbitrary: acc) auto

lemma dec_nat_value:
  "(\<forall>c \<in> set (dec_nat n). c_isdigit c) \<and> digits_value 0 (dec_nat n) = int n \<and>
   (\<exists>d cs. d < 10 \<and> dec_nat n = digit d # cs)"
proof (induction n rule: dec_nat.induct)
  case (1 n)
  show ?case
  proof (cases "n < 10")
    case True
    then show ?thesis by (auto simp: dec_nat.simps [of n] digit_char)
  next
    case False
    have m: "n mod 10 < 10" by simp
    have "int n = 10 * int (n div 10) + int (n mod 10)" by presburger
    with 1 [OF False] False digit_char [OF m] show ?thesis
      by (auto simp: dec_nat.simps [of n] digits_value_append)
  qed
qed

lemma atoi_dec_nat: "n < 2 ^ 31 \<Longrightarrow> atoi (dec_nat n) = Some (int n)"
proof -
  assume n: "n < 2 ^ 31"
  from dec_nat_value [of n] obtain d cs where d: "d < 10" "dec_nat n = digit d # cs" by blast
  have v: "digits_value 0 (digit d # cs) = int n" using dec_nat_value [of n] unfolding d(2) by blast
  show ?thesis
    using n d(1) v by (simp add: atoi_def d(2) digit_char del: digits_value.simps)
qed

text \<open>What no option touches, and what every option keeps.\<close>

definition args_ok :: "args \<Rightarrow> bool" where
  "args_ok a \<longleftrightarrow> args_address a = None \<and> length (dev a) < IFNAMSIZ"

lemma interface_mode_ok: "args_ok a \<Longrightarrow> with_world (parse_interface_mode s a) w = Continue (a', w') \<Longrightarrow> args_ok a'"
  by (auto simp: parse_interface_mode_def args_ok_def split: if_splits)

lemma parse_port_ok: "args_ok a \<Longrightarrow> parse_port s a = Some r \<Longrightarrow> with_world r w = Continue (a', w') \<Longrightarrow> args_ok a'"
  by (auto simp: parse_port_def args_ok_def Option.bind_eq_Some_conv split: if_splits)

lemma parse_option_ok:
  assumes "args_ok a"
  shows "parse_longopt gitver av0 i s a w = Some (Continue (a', w')) \<Longrightarrow> args_ok a'"
    and "parse_shortopt gitver av0 c s a w = Some (Continue (a', w')) \<Longrightarrow> args_ok a'"
proof -
  have dev: "args_ok (a\<lparr>dev := take (IFNAMSIZ - 1) s\<rparr>)"
    using assms by (simp add: args_ok_def IFNAMSIZ_def)
  have flags: "args_ok (a\<lparr>server := b\<rparr>)" "args_ok (a\<lparr>detach := b\<rparr>)" "args_ok (a\<lparr>no_ipv4 := b\<rparr>)" "args_ok (a\<lparr>no_ipv6 := b\<rparr>)" for b
    using assms by (simp_all add: args_ok_def)
  show "parse_longopt gitver av0 i s a w = Some (Continue (a', w')) \<Longrightarrow> args_ok a'"
    using assms dev flags interface_mode_ok parse_port_ok
    by (auto simp: parse_longopt_def Option.bind_eq_Some_conv split: if_splits outcome.splits)
  show "parse_shortopt gitver av0 c s a w = Some (Continue (a', w')) \<Longrightarrow> args_ok a'"
    using assms dev flags interface_mode_ok parse_port_ok
    by (auto simp: parse_shortopt_def Option.bind_eq_Some_conv split: if_splits outcome.splits)
qed

lemma parse_options_ok:
  "args_ok a \<Longrightarrow> parse_options gitver av0 opts a w = Some (Continue (a', w')) \<Longrightarrow> args_ok a'"
proof (induction opts arbitrary: a w)
  case Nil
  then show ?case by simp
next
  case (Cons x opts)
  define first where "first =
    (case x of Long i optarg \<Rightarrow> parse_longopt gitver av0 i optarg a w | Short c optarg \<Rightarrow> parse_shortopt gitver av0 c optarg a w)"
  from Cons.prems(2) obtain r where r: "first = Some r"
    "(case r of Exit c out err \<Rightarrow> Some (Exit c out err) | Continue (a1, w1) \<Rightarrow> parse_options gitver av0 opts a1 w1) = Some (Continue (a', w'))"
    by (simp only: parse_options.simps first_def [symmetric] Option.bind_eq_Some_conv) blast
  from r(2) obtain a1 w1 where r1: "r = Continue (a1, w1)" "parse_options gitver av0 opts a1 w1 = Some (Continue (a', w'))"
    by (cases r) auto
  have "args_ok a1"
    using parse_option_ok [OF Cons.prems(1)] r(1) r1(1) by (auto simp: first_def split: opt.splits)
  then show ?case using r1(2) by (rule Cons.IH)
qed

text \<open>How an option may end the process.\<close>

definition informs :: "string \<Rightarrow> string \<Rightarrow> int \<Rightarrow> string \<Rightarrow> string \<Rightarrow> bool" where
  "informs gitver av0 c out err \<longleftrightarrow> c = EXIT_SUCCESS \<and> err = '''' \<and> out \<in> {print_help av0, print_version gitver}"

definition refuses :: "int \<Rightarrow> string \<Rightarrow> string \<Rightarrow> bool" where
  "refuses c out err \<longleftrightarrow> c = EXIT_FAILURE \<and> out \<in> {'''', print_logging_levels_str @ nl}"

lemma exit_messages [simp]:
  "informs gitver av0 EXIT_SUCCESS (print_help av0) ''''" "informs gitver av0 EXIT_SUCCESS (print_version gitver) ''''"
  "refuses EXIT_FAILURE '''' err" "refuses EXIT_FAILURE (print_logging_levels_str @ nl) err"
  by (simp_all add: informs_def refuses_def)

lemma parse_value_exit:
  "with_world (parse_interface_mode s a) w = Exit c out err \<Longrightarrow> refuses c out err"
  "parse_port s a = Some r \<Longrightarrow> with_world r w = Exit c out err \<Longrightarrow> refuses c out err"
  "parse_log_level s v = Exit c out err \<Longrightarrow> refuses c out err"
  by (auto simp: parse_interface_mode_def parse_port_def parse_log_level_def Option.bind_eq_Some_conv
      split: prod.splits if_splits)

lemma parse_option_exit:
  "parse_longopt gitver av0 i s a w = Some (Exit c out err) \<Longrightarrow> informs gitver av0 c out err \<or> refuses c out err"
  "parse_shortopt gitver av0 ch s a w = Some (Exit c out err) \<Longrightarrow> informs gitver av0 c out err \<or> refuses c out err"
  by (auto simp: parse_longopt_def parse_shortopt_def Option.bind_eq_Some_conv
      split: if_splits outcome.splits dest: parse_value_exit)

lemma parse_options_exit:
  "parse_options gitver av0 opts a w = Some (Exit c out err) \<Longrightarrow> informs gitver av0 c out err \<or> refuses c out err"
proof (induction opts arbitrary: a w)
  case Nil
  then show ?case by simp
next
  case (Cons x opts)
  define first where "first =
    (case x of Long i optarg \<Rightarrow> parse_longopt gitver av0 i optarg a w | Short c optarg \<Rightarrow> parse_shortopt gitver av0 c optarg a w)"
  from Cons.prems obtain r where r: "first = Some r"
    "(case r of Exit c out err \<Rightarrow> Some (Exit c out err)
      | Continue (a1, w1) \<Rightarrow> parse_options gitver av0 opts a1 w1) = Some (Exit c out err)"
    by (simp only: parse_options.simps first_def [symmetric] Option.bind_eq_Some_conv) blast
  show ?case
  proof (cases r)
    case Exit
    then show ?thesis using r by (auto simp: first_def split: opt.splits dest: parse_option_exit)
  next
    case (Continue aw)
    then show ?thesis using r(2) Cons.IH by (cases aw) auto
  qed
qed

section \<open>Properties\<close>

text \<open>Ports: the decimal form of a number is accepted exactly when it is between 1 and 65535, and then
  the port that is used, printed or put on the wire in network order is that number.\<close>

theorem parse_port_exact:
  assumes "n < 2 ^ 31"
  shows "parse_port (dec_nat n) a =
           Some (if 1 \<le> n \<and> n \<le> 65535 then Continue (a\<lparr>args_port := of_nat n\<rparr>) else Exit EXIT_FAILURE '''' (''Invalid port: '' @ dec_nat n @ nl)) \<and>
         (n \<le> 65535 \<longrightarrow> dec_nat (unat (of_nat n :: u16)) = dec_nat n)"
  using atoi_dec_nat [OF assms]
  by (auto simp: parse_port_def UINT16_MAX_def unat_of_nat)

theorem parse_port_exact_witness:
  "\<forall>a. parse_port (dec_nat 443) a = Some (Continue (a\<lparr>args_port := 443\<rparr>))"
  using parse_port_exact [of 443] by simp

text \<open>C39. The mode and the operand go together: when the command line is accepted, a server has no address
  and a client has the first operand as its address; and the device name fits its 16-byte buffer with the
  terminator, however long the one given was.\<close>

theorem cmdline_consistent:
  assumes "parse_cmdline_arguments gitver av0 opts operands w = Some (Continue (a, w'))"
  shows "(server a \<longrightarrow> args_address a = None \<and> operands = []) \<and>
         (\<not> server a \<longrightarrow> (\<exists>x xs. operands = x # xs \<and> args_address a = Some x)) \<and>
         length (dev a) < IFNAMSIZ"
proof -
  obtain a0 w0 y where o0: "initialize_default_args w = Some (a0, w0)" "parse_options gitver av0 opts a0 w0 = Some y"
    using assms by (auto simp: parse_cmdline_arguments_def Option.bind_eq_Some_conv)
  obtain a1 w1 where o1: "parse_options gitver av0 opts a0 w0 = Some (Continue (a1, w1))"
    and r: "(if \<not> server a1 then
               (case operands of [] \<Rightarrow> Exit EXIT_FAILURE '''' (''Missing positionnal argument: address'' @ nl) | x # xs \<Rightarrow> Continue (a1\<lparr>args_address := Some x\<rparr>, w1))
             else (if operands \<noteq> []
              then Exit EXIT_FAILURE '''' (''Invalid positionnal argument: '' @ hd operands @ nl) else Continue (a1, w1))) = Continue (a, w')"
    using assms o0 by (cases y) (auto simp: parse_cmdline_arguments_def)
  have "args_ok a0"
    using o0(1) by (auto simp: initialize_default_args_def Option.bind_eq_Some_conv args_ok_def IFNAMSIZ_def)
  from parse_options_ok [OF this o1] r show ?thesis
    by (auto simp: args_ok_def split: if_splits list.splits)
qed

theorem cmdline_consistent_witness:
  "\<exists>a w'. parse_cmdline_arguments ''dev'' ''vpnd'' [Short CHR ''s'' [], Long 5 ''443''] [] cfg_init = Some (Continue (a, w')) \<and>
     args_address a = None \<and> args_port a = 443"
proof -
  have p: "parse_port ''443'' a = Some (Continue (a\<lparr>args_port := 443\<rparr>))" for a
    by (simp add: parse_port_def atoi_def c_isspace_def c_isdigit_def UINT16_MAX_def Let_def)
  obtain a w' where a: "parse_cmdline_arguments ''dev'' ''vpnd'' [Short CHR ''s'' [], Long 5 ''443''] [] cfg_init = Some (Continue (a, w'))"
      "args_port a = 443"
    by (auto simp: parse_cmdline_arguments_def initialize_default_args_def set_config_dir_def free_config_dir_def
        cfg_init_def cfg_state.defs log_init_def os_init_def os.defs log_state.defs parse_shortopt_def parse_longopt_def p)
  with cmdline_consistent [OF a(1)] show ?thesis by blast
qed

text \<open>When the command line ends the process, it does so in one of two ways: with status 0 after
  printing exactly the help text or the version, and nothing on the standard error; or with status 1,
  with nothing on the standard output but possibly the list of log levels.\<close>

theorem cmdline_exit:
  assumes "parse_cmdline_arguments gitver av0 opts operands w = Some (Exit c out err)"
  shows "(c = 0 \<and> err = '''' \<and> (out = print_help av0 \<or> out = print_version gitver)) \<or>
         (c = 1 \<and> (out = '''' \<or> out = print_logging_levels_str @ nl))"
proof -
  obtain a0 w0 where d: "initialize_default_args w = Some (a0, w0)"
    using assms by (auto simp: parse_cmdline_arguments_def Option.bind_eq_Some_conv)
  obtain r where r: "parse_options gitver av0 opts a0 w0 = Some r"
    using assms d by (cases "parse_options gitver av0 opts a0 w0") (auto simp: parse_cmdline_arguments_def)
  have e: "(case r of Exit c out err \<Rightarrow> Exit c out err
       | Continue (a1, w2) \<Rightarrow>
           (if \<not> server a1 then
              (case operands of
                 [] \<Rightarrow> Exit EXIT_FAILURE '''' (''Missing positionnal argument: address'' @ nl)
               | x # xs \<Rightarrow> Continue (a1\<lparr>args_address := Some x\<rparr>, w2))
            else (if operands \<noteq> []
                  then Exit EXIT_FAILURE '''' (''Invalid positionnal argument: '' @ hd operands @ nl)
                  else Continue (a1, w2)))) = Exit c out err"
    using assms by (simp add: parse_cmdline_arguments_def d r)
  have "informs gitver av0 c out err \<or> refuses c out err"
  proof (cases r)
    case Exit
    then show ?thesis using e r parse_options_exit by simp
  next
    case (Continue aw)
    then show ?thesis using e by (cases aw) (auto split: if_splits list.splits)
  qed
  then show ?thesis by (auto simp: informs_def refuses_def EXIT_SUCCESS_def EXIT_FAILURE_def)
qed

theorem cmdline_exit_witness:
  "\<exists>out err. parse_cmdline_arguments ''dev'' ''vpnd'' [Long 2 ''loud'', Short CHR ''h'' []] [] cfg_init = Some (Exit 1 out err)
     \<and> out = ''debug, info, warn, error, crit'' @ nl"
proof -
  have l: "parse_log_level ''loud'' w =
      Exit EXIT_FAILURE (print_logging_levels_str @ nl) ''Invalid logging level, possible levels are: ''"
    for w :: "'a log_state_scheme"
    by (simp add: parse_log_level_def set_logging_level_str_def log_levels_str_def)
  have s: "print_logging_levels_str = ''debug, info, warn, error, crit''"
    by (simp add: print_logging_levels_str_def log_levels_str_def)
  obtain a w' where d: "initialize_default_args cfg_init = Some (a, w')"
    by (auto simp: initialize_default_args_def set_config_dir_def free_config_dir_def cfg_init_def cfg_state.defs
        log_init_def os_init_def os.defs log_state.defs)
  have e: "parse_cmdline_arguments ''dev'' ''vpnd'' [Long 2 ''loud'', Short CHR ''h'' []] [] cfg_init =
      Some (Exit EXIT_FAILURE (print_logging_levels_str @ nl) ''Invalid logging level, possible levels are: '')"
    by (simp add: parse_cmdline_arguments_def d parse_longopt_def l)
  show ?thesis using cmdline_exit [OF e] e by (simp add: s EXIT_FAILURE_def)
qed

end
