(* ===== verification/Daemon.thy ===== *)
theory Daemon
  imports Handshake Tun_Broadcast Args
begin

text \<open>
  \<open>src/vpnd.c\<close>, \<open>src/scripts.c\<close>, \<open>src/signals.c\<close>: start and end of the process and the signal
  handlers. The static \<open>already_closing\<close> and the actions the process has set for signals complete its
  state. What the world outside answers during the start is the record \<open>env\<close>.
\<close>

datatype sig_action = Default_action | Interrupt_program_handler | Usr1_handler

record ('k, 'c) daemon = "('k, 'c) tcp_state" +
  already_closing :: bool
  sigactions :: "int \<Rightarrow> sig_action"

definition daemon_init :: "('k, 'c) daemon" where
  "daemon_init = tcp_state.extend tcp_state_init \<lparr>already_closing = False, sigactions = (\<lambda>_. Default_action)\<rparr>"

lemmas daemon_init_defs =
  daemon_init_def tcp_state_init_def peer_state_init_def key_init_def iface_init_def cfg_init_def
  log_init_def os_init_def os.defs log_state.defs cfg_state.defs iface_state.defs key_state.defs
  peer_state.defs tcp_state.defs

record env =
  files :: "string \<Rightarrow> byte list option"
  dirs :: "string \<Rightarrow> (bool \<times> string) list option"
  open_ret :: int
  ioctl_ret :: int
  kernel_name :: "string \<Rightarrow> string"
  system_ret :: "string \<Rightarrow> string \<Rightarrow> int"
  listener4 :: listener
  listener6 :: listener
  polls :: "poll_event list"
  resolver :: "string \<Rightarrow> (bool \<times> byte list) option"
  client_socket :: int
  connect_ret :: "sock_addr \<Rightarrow> int"

section \<open>Scripts and signals\<close>

text \<open>\<open>system\<close> runs the path with the variable \<open>INTERFACE\<close> set to the device name.\<close>

definition execute_script ::
  "(string \<Rightarrow> string \<Rightarrow> int) \<Rightarrow> string \<Rightarrow> 'a iface_state_scheme \<Rightarrow> (int \<times> 'a iface_state_scheme) option" where
  "execute_script system script_name w =
     do {
       dir \<leftarrow> cderef (daemon_config_dir w);
       (p, w1) \<leftarrow> join_paths dir script_name w;
       case p of None \<Rightarrow> Some (-1, w1) | Some path \<Rightarrow> Some (system path (tuntap_devname w1), w1)
     }"

definition interrupt_program_handler ::
  "('k, 'c) openssl \<Rightarrow> ('k, 'c, 'a) tcp_state_scheme \<Rightarrow> ('k, 'c, 'a) tcp_state_scheme option" where
  "interrupt_program_handler ssl w =
     do {
       let w1 = tcp_server_close w;
       w2 \<leftarrow> broadcast_data_to_peers ssl FRAME_HDR_CLOSE [] 0 False None w1;
       Some (tuntap_close w2)
     }"

definition usr1_handler :: "('k, 'c, 'a) peer_state_scheme \<Rightarrow> ('k, 'c, 'a) peer_state_scheme option" where
  "usr1_handler w = dump_peers w"

definition SIGINT :: int where
  "SIGINT = 2"

definition SIGUSR1 :: int where
  "SIGUSR1 = 10"

definition override_signals :: "('k, 'c, 'a) daemon_scheme \<Rightarrow> ('k, 'c, 'a) daemon_scheme" where
  "override_signals w =
     w\<lparr>sigactions := (sigactions w)(SIGINT := Interrupt_program_handler, SIGUSR1 := Usr1_handler)\<rparr>"

text \<open>One of the two signals arrives; \<open>Inl\<close>: it ends the process, its default action.\<close>

definition signal_arrives ::
  "('k, 'c) openssl \<Rightarrow> int \<Rightarrow> ('k, 'c, 'a) daemon_scheme \<Rightarrow> (int + ('k, 'c, 'a) daemon_scheme) option" where
  "signal_arrives ssl sig w =
     (case sigactions w sig of
        Default_action \<Rightarrow> Some (Inl sig)
      | Interrupt_program_handler \<Rightarrow> map_option Inr (interrupt_program_handler ssl w)
      | Usr1_handler \<Rightarrow> map_option Inr (usr1_handler w))"

section \<open>The process\<close>

definition close_vpnd :: "('k, 'c, 'a) daemon_scheme \<Rightarrow> ('k, 'c, 'a) daemon_scheme option" where
  "close_vpnd w =
     (if already_closing w then Some w
      else
        do {
          let w1 = tuntap_close (w\<lparr>already_closing := True\<rparr>);
          w2 \<leftarrow> destroy_peers w1;
          w3 \<leftarrow> free_daemon_keys w2;
          free_config_dir (clear_trusted_keys w3)
        })"

text \<open>The first half of \<open>vpnd\<close>: keys, trusted keys, device, script. \<open>False\<close>: it returns \<open>EXIT_FAILURE\<close>.\<close>

definition vpnd_start ::
  "('k, 'c) openssl \<Rightarrow> env \<Rightarrow> args \<Rightarrow> ('k, 'c, 'a) daemon_scheme \<Rightarrow> (bool \<times> ('k, 'c, 'a) daemon_scheme) option" where
  "vpnd_start ssl e a w =
     do {
       (priv, w1) \<leftarrow> load_daemon_privkey ssl (files e) w;
       no_priv \<leftarrow> cnull priv;
       (no_keys, w2) \<leftarrow>
         (if no_priv then Some (True, w1)
          else do { (pub, w2) \<leftarrow> load_daemon_pubkey ssl (files e) w1; no_pub \<leftarrow> cnull pub; Some (no_pub, w2) });
       if no_keys then do { w3 \<leftarrow> free_daemon_keys w2; Some (False, w3) }
       else
         do {
           w3 \<leftarrow> load_trusted_keys ssl (files e) (dirs e) w2;
           (fd, name, w4) \<leftarrow>
             tuntap_open (open_ret e) (ioctl_ret e) (kernel_name e) (Some (dev a)) (tap_mode a) w3;
           if fd = -1 then Some (False, w4)
           else do { (_, w5) \<leftarrow> execute_script (system_ret e) ''dev-up'' w4; Some (True, w5) }
         }
     }"

text \<open>
  The second half, up to \<open>close_vpnd\<close>: the accept loop or one outgoing connection; \<open>False\<close> while the
  accept loop still polls. The results of both are ignored. The threads of the connections and of the
  device run beside it; their steps are the relation of the theory \<open>Daemon_System\<close>.
\<close>

definition vpnd_serve ::
  "env \<Rightarrow> args \<Rightarrow> ('k, 'c, 'a) daemon_scheme \<Rightarrow> (bool \<times> ('k, 'c, 'a) daemon_scheme) option" where
  "vpnd_serve e a w =
     (if server a then
        do {
          (ret, w1) \<leftarrow> tcp_server (listener4 e) (listener6 e) (\<not> no_ipv4 a) (\<not> no_ipv6 a) 10 (polls e) w;
          Some (ret \<noteq> None, w1)
        }
      else
        (case args_address a of
           None \<Rightarrow> None
         | Some host \<Rightarrow>
             do {
               (ret, i, w1) \<leftarrow> tcp_client (resolver e) (client_socket e) (connect_ret e) host (args_port a) w;
               Some (True, w1)
             }))"

text \<open>The exit status of \<open>vpnd\<close> (\<open>None\<close>: it is still serving) and the state it leaves.\<close>

definition vpnd ::
  "('k, 'c) openssl \<Rightarrow> env \<Rightarrow> args \<Rightarrow> ('k, 'c, 'a) daemon_scheme
     \<Rightarrow> (int option \<times> ('k, 'c, 'a) daemon_scheme) option" where
  "vpnd ssl e a w =
     do {
       (up, w1) \<leftarrow> vpnd_start ssl e a w;
       if \<not> up then Some (Some EXIT_FAILURE, w1)
       else
         do {
           (returned, w2) \<leftarrow> vpnd_serve e a w1;
           if \<not> returned then Some (None, w2)
           else do { w3 \<leftarrow> close_vpnd w2; Some (Some EXIT_SUCCESS, w3) }
         }
     }"

text \<open>
  The whole process: the exit status and the final state after the handler that \<open>atexit\<close> registered.
  \<open>fork\<close> answers -1, 0 in the child, or the child's number in the parent.
\<close>

definition vpnd_main ::
  "('k, 'c) openssl \<Rightarrow> env \<Rightarrow> string \<Rightarrow> string \<Rightarrow> int \<Rightarrow> opt list \<Rightarrow> string list \<Rightarrow> ('k, 'c, 'a) daemon_scheme
     \<Rightarrow> (int option \<times> ('k, 'c, 'a) daemon_scheme) option" where
  "vpnd_main ssl e gitver av0 fork_ret opts operands w =
     do {
       r \<leftarrow> parse_cmdline_arguments gitver av0 opts operands w;
       case r of
         Exit c out err \<Rightarrow> Some (Some c, w)
       | Continue (a, w1) \<Rightarrow>
           (if detach a \<and> fork_ret = -1 then Some (Some EXIT_FAILURE, w1)
            else if detach a \<and> fork_ret > 0 then Some (Some EXIT_SUCCESS, w1)
            else
              do {
                (status, w2) \<leftarrow> vpnd ssl e a (override_signals w1);
                case status of
                  None \<Rightarrow> Some (None, w2)
                | Some c \<Rightarrow> do { w3 \<leftarrow> close_vpnd w2; Some (Some c, w3) }
              })
     }"

section \<open>Lemmas\<close>

lemma execute_script_only: "execute_script sys name w = Some (r, w') \<Longrightarrow> keys_only w w'"
  for w :: "('k, 'a) key_state_scheme"
  by (auto simp: execute_script_def Option.bind_eq_Some_conv split: option.splits dest!: join_paths_keys_only)

lemma tuntap_open_tables:
  assumes "tuntap_open ret io nm d t w = Some (fd, n, w')"
  shows "peers w' = peers w" and "local_routes w' = local_routes w" and "trusted_keys w' = trusted_keys w"
  using assms by (auto simp: tuntap_open_def Let_def sys_close_def split: if_splits option.splits)

lemma vpnd_start_tables:
  assumes "vpnd_start ssl e a w = Some (True, w')"
  shows "peers w' = peers w" and "local_routes w' = local_routes w"
proof -
  obtain p w1 q w2 w3 fd nm w4 r where
    k: "load_daemon_privkey ssl (files e) w = Some (p, w1)" "load_daemon_pubkey ssl (files e) w1 = Some (q, w2)"
      "load_trusted_keys ssl (files e) (dirs e) w2 = Some w3"
    and t: "tuntap_open (open_ret e) (ioctl_ret e) (kernel_name e) (Some (dev a)) (tap_mode a) w3 = Some (fd, nm, w4)"
    and x: "execute_script (system_ret e) ''dev-up'' w4 = Some (r, w')"
    using assms by (fastforce simp: vpnd_start_def Option.bind_eq_Some_conv split: if_splits)
  have k3: "keys_only w w3" using k load_keys_only load_trusted_keys_only keys_only_trans by metis
  have k4: "keys_only w4 w'" using x by (rule execute_script_only)
  show "peers w' = peers w"
    using keys_only_field [OF k3, of peers] keys_only_field [OF k4, of peers] tuntap_open_tables(1) [OF t]
    by (simp add: sans_keys_def)
  show "local_routes w' = local_routes w"
    using keys_only_field [OF k3, of local_routes] keys_only_field [OF k4, of local_routes] tuntap_open_tables(2) [OF t]
    by (simp add: sans_keys_def)
qed

lemma close_vpnd_steps:
  assumes "\<not> already_closing w"
  shows "close_vpnd w =
      (if list_all no_dangling (peers w) then
         do {
           w3 \<leftarrow> free_daemon_keys (w\<lparr>already_closing := True, if_fd := (if if_fd w > 0 then -1 else if_fd w),
                   peers := [], local_routes := [],
                   closed := closed w @ (if if_fd w > 0 then [if_fd w] else []) @ map sockfd (filter alive (peers w))\<rparr>);
           free_config_dir (clear_trusted_keys w3)
         }
       else None)"
  using assms
  by (simp add: close_vpnd_def destroy_peers_def Let_def destroy_peers_from_result tuntap_close_def sys_close_def)


text \<open>The two halves of the interrupt handler: nothing is left to close the second time; the close frames.\<close>

lemma interrupt_idle:
  assumes "interrupt_program_handler ssl w = Some w'" and "listening w = []" and "\<not> if_fd w > 0"
  shows "closed w' = closed w"
proof -
  have same: "tcp_server_close w = w"
    using assms(2) by (auto simp: tcp_server_close_def listening_def Let_def split: if_splits)
  obtain w2 where b: "broadcast_data_to_peers ssl FRAME_HDR_CLOSE [] 0 False None w = Some w2"
    and w': "w' = tuntap_close w2"
    using assms(1) by (auto simp: interrupt_program_handler_def same Option.bind_eq_Some_conv)
  have "sends_only w w2" using b unfolding broadcast_data_to_peers_def by (rule broadcast_from_only)
  from sends_only_fields(6,13) [OF this] assms(3) show ?thesis
    by (simp add: w' tuntap_close_def)
qed

lemma broadcast_close:
  assumes "send_good w"
  obtains rs wi where "broadcast_data_to_peers ssl FRAME_HDR_CLOSE [] 0 False None w = Some (w\<lparr>send_rets := rs, wire := wi\<rparr>)"
    and "\<forall>fd. wi fd = wire w fd @ concat (map (\<lambda>p. if alive p \<and> sockfd p = fd
              then wire_frame (host_le w) FRAME_HDR_CLOSE [] else []) (peers w))"
proof -
  have sub: "set [0..<length (peers w)] \<subseteq> {..<length (peers w)}" by auto
  have len: "unat (0 :: u32) \<le> length ([] :: byte list)" by simp
  show thesis
    using broadcast_plain [OF len sub assms, of ssl FRAME_HDR_CLOSE] that
    unfolding map_nth take_Nil broadcast_data_to_peers_def get_peer_list_def by blast
qed

section \<open>A concrete server, for the witnesses\<close>

definition demo_env :: env where
  "demo_env = \<lparr>
     files = (\<lambda>p. if p = ''./key.priv'' then Some [84] else if p = ''./key.pub'' then Some [45, 84]
                  else if p = ''./trusted_keys/a'' then Some [45, 70] else None),
     dirs = (\<lambda>p. if p = ''./trusted_keys'' then Some [(True, ''a'')] else None),
     open_ret = 7, ioctl_ret = 0, kernel_name = id, system_ret = (\<lambda>_ _. 0),
     listener4 = \<lparr>inet_pton = (\<lambda>_. None), socket_ret = 3, bind_ret = (\<lambda>_. 0), listen_ret = (\<lambda>_. 0)\<rparr>,
     listener6 = \<lparr>inet_pton = (\<lambda>_. None), socket_ret = 4, bind_ret = (\<lambda>_. 0), listen_ret = (\<lambda>_. 0)\<rparr>,
     polls = [], resolver = (\<lambda>_. None), client_socket = 5, connect_ret = (\<lambda>_. 0)\<rparr>"

definition demo_args :: args where
  "demo_args = \<lparr>detach = False, tap_mode = False, server = True, dev = ''vpnd'', args_address = None,
     args_port = DEFAULT_PORT, no_ipv4 = False, no_ipv6 = False\<rparr>"

definition demo_init :: "(bool, byte list) daemon" where
  "demo_init = daemon_init\<lparr>config_dir := Ptr ''./''\<rparr>"




lemma interrupt_handled:
  fixes w :: "('k, 'c, 'a) daemon_scheme"
  assumes "send_good w"
  shows "\<exists>w'. interrupt_program_handler ssl w = Some w' \<and>
           closed w' = closed w @ listening w @ (if if_fd w > 0 then [if_fd w] else []) \<and>
           listening w' = [] \<and> \<not> if_fd w' > 0 \<and> peers w' = peers w \<and> local_routes w' = local_routes w \<and>
           sigactions w' = sigactions w \<and>
           (\<forall>fd. wire w' fd = wire w fd @ concat (map (\<lambda>p. if alive p \<and> sockfd p = fd
              then wire_frame (host_le w) FRAME_HDR_CLOSE [] else []) (peers w))) \<and>
           (\<forall>w''. interrupt_program_handler ssl w' = Some w'' \<longrightarrow> closed w'' = closed w')"
proof -
  let ?w1 = "tcp_server_close w"
  have g: "send_good ?w1" "host_le ?w1 = host_le w" "if_fd ?w1 = if_fd w" "wire ?w1 = wire w"
    "local_routes ?w1 = local_routes w"
    using assms by (simp_all add: tcp_server_close_def sys_close_def Let_def send_good_def)
  note c = tcp_server_close_result [of w]
  obtain rs wi where b: "broadcast_data_to_peers ssl FRAME_HDR_CLOSE [] 0 False None ?w1 =
      Some (?w1\<lparr>send_rets := rs, wire := wi\<rparr>)"
    and wi: "\<forall>fd. wi fd = wire w fd @ concat (map (\<lambda>p. if alive p \<and> sockfd p = fd
              then wire_frame (host_le w) FRAME_HDR_CLOSE [] else []) (peers w))"
    using broadcast_close [OF g(1), of ssl] unfolding g(2,4) c(3) by blast
  let ?w' = "tuntap_close (?w1\<lparr>send_rets := rs, wire := wi\<rparr>)"
  have run: "interrupt_program_handler ssl w = Some ?w'"
    by (simp add: interrupt_program_handler_def Let_def b)
  have l: "listening (u\<lparr>send_rets := rs, wire := wi\<rparr>) = listening u" "listening (tuntap_close u) = listening u"
    for u :: "('k, 'c, 'a) daemon_scheme"
    by (simp_all add: listening_def tuntap_close_def sys_close_def)
  have off: "\<not> if_fd ?w' > 0" by (simp add: tuntap_close_def)
  have ln: "listening ?w' = []" by (simp add: l c(2))
  have again: "\<forall>w''. interrupt_program_handler ssl ?w' = Some w'' \<longrightarrow> closed w'' = closed ?w'"
    using interrupt_idle [OF _ ln off] by blast
  have p: "peers ?w' = peers w" "local_routes ?w' = local_routes w" "wire ?w' = wi"
    "sigactions ?w' = sigactions w"
    "closed ?w' = closed w @ listening w @ (if if_fd w > 0 then [if_fd w] else [])"
    using g(3,5) c(1,3) by (simp_all add: tuntap_close_def tcp_server_close_def sys_close_def Let_def)
  show ?thesis
    by (rule exI [of _ ?w'], intro conjI) (fact run, fact p(5), fact ln, fact off, fact p(1), fact p(2), fact p(4),
        simp only: p(3) wi simp_thms, fact again)
qed

section \<open>Properties\<close>

text \<open>C27. SIGINT announces the end: once the process has set its handlers, the signal closes the listening
  sockets and the device, each once, and with working sends puts exactly one empty close frame on the
  socket of every connected peer; nothing else of the process changes, and a second SIGINT closes
  nothing. SIGUSR1 then dumps the peers. Before that either signal ends the process.\<close>

theorem interrupt_effect:
  assumes "send_good w"
  shows "(\<exists>w'. signal_arrives ssl SIGINT (override_signals w) = Some (Inr w') \<and>
            closed w' = closed w @ listening w @ (if if_fd w > 0 then [if_fd w] else []) \<and>
            listening w' = [] \<and> \<not> if_fd w' > 0 \<and> peers w' = peers w \<and> local_routes w' = local_routes w \<and>
            (\<forall>fd. wire w' fd = wire w fd @ concat (map (\<lambda>p. if alive p \<and> sockfd p = fd
               then wire_frame (host_le w) FRAME_HDR_CLOSE [] else []) (peers w))) \<and>
            (\<forall>w''. signal_arrives ssl SIGINT w' = Some (Inr w'') \<longrightarrow> closed w'' = closed w')) \<and>
         signal_arrives ssl SIGUSR1 (override_signals w) = map_option Inr (dump_peers (override_signals w)) \<and>
         signal_arrives ssl SIGINT (w\<lparr>sigactions := (\<lambda>_. Default_action)\<rparr>) = Some (Inl SIGINT)"
proof -
  let ?w = "override_signals w"
  have f: "send_good ?w" "closed ?w = closed w" "listening ?w = listening w" "if_fd ?w = if_fd w" "peers ?w = peers w"
    "local_routes ?w = local_routes w" "wire ?w = wire w" "host_le ?w = host_le w"
    "sigactions ?w SIGINT = Interrupt_program_handler" "sigactions ?w SIGUSR1 = Usr1_handler"
    using assms by (simp_all add: override_signals_def send_good_def listening_def SIGINT_def SIGUSR1_def)
  show ?thesis
    using interrupt_handled [OF f(1), of ssl] unfolding f(2-8)
    by (auto simp: signal_arrives_def usr1_handler_def f)
qed

theorem interrupt_effect_witness:
  "\<exists>w'. signal_arrives toy_ssl SIGINT
          (override_signals (daemon_init\<lparr>tcp4_socket := 5, if_fd := 7, peers := [demo_peer]\<rparr>)) = Some (Inr w') \<and>
     closed w' = [5, 7] \<and> wire w' 4 = [2, 0, 0, 0, 0]"
proof -
  let ?w = "daemon_init\<lparr>tcp4_socket := 5, if_fd := 7, peers := [demo_peer]\<rparr>"
  have f: "send_rets ?w = []" "closed ?w = []" "wire ?w = (\<lambda>_. [])" "host_le ?w" "tcp6_socket ?w = -1"
    by (simp_all add: daemon_init_defs)
  have g: "send_good ?w" by (simp add: send_good_def f)
  have h: "wire_frame True FRAME_HDR_CLOSE [] = [2, 0, 0, 0, 0]"
    by (simp add: frame_bytes_def frame_header_def u32_bytes_def FRAME_HDR_CLOSE_def byte_at_def)
  show ?thesis
    using interrupt_effect [OF g, of toy_ssl] f h
    by (auto simp: listening_def demo_peer_fields)
qed

text \<open>C26. Shutdown: \<open>close_vpnd\<close> is defined exactly when no pointer it frees dangles; then it closes the
  device and the socket of every connected peer once, in this order, empties the tables of peers,
  local routes and trusted keys, and leaves neither key nor configuration directory. Every later call
  does nothing, so the call of \<open>vpnd\<close> and the one at exit free everything once.\<close>

theorem clean_shutdown:
  assumes "\<not> already_closing w"
  shows "(close_vpnd w \<noteq> None \<longleftrightarrow>
            list_all no_dangling (peers w) \<and> daemon_pubkey w \<noteq> Dangling \<and> daemon_privkey w \<noteq> Dangling \<and>
            config_dir w \<noteq> Dangling) \<and>
         (\<forall>w'. close_vpnd w = Some w' \<longrightarrow>
            closed w' = closed w @ (if if_fd w > 0 then [if_fd w] else []) @ map sockfd (filter alive (peers w)) \<and>
            peers w' = [] \<and> local_routes w' = [] \<and> trusted_keys w' = [] \<and> \<not> if_fd w' > 0 \<and>
            (\<forall>k. daemon_pubkey w' \<noteq> Ptr k \<and> daemon_privkey w' \<noteq> Ptr k) \<and> (\<forall>d. config_dir w' \<noteq> Ptr d) \<and>
            close_vpnd w' = Some w')"
  unfolding close_vpnd_steps [OF assms]
  by (cases "daemon_pubkey w"; cases "daemon_privkey w"; cases "config_dir w")
    (simp_all add: free_daemon_keys_def free_config_dir_def clear_trusted_keys_def close_vpnd_def)

theorem clean_shutdown_witness:
  "\<exists>w'. close_vpnd (daemon_init\<lparr>if_fd := 7, peers := [demo_peer], daemon_pubkey := Ptr True\<rparr>) = Some w' \<and>
     closed w' = [7, 4] \<and> close_vpnd w' = Some w'"
proof -
  let ?w = "daemon_init\<lparr>if_fd := 7, peers := [demo_peer], daemon_pubkey := Ptr True\<rparr>"
  have f: "closed ?w = []" "daemon_privkey ?w = Null" "config_dir ?w = Null"
    by (simp_all add: daemon_init_defs)
  have n: "\<not> already_closing ?w" by (simp add: daemon_init_defs)
  have d: "no_dangling demo_peer" by (simp add: no_dangling_def demo_peer_def initialize_peer_def)
  have "close_vpnd ?w \<noteq> None" using clean_shutdown [OF n] d f by simp
  then obtain w' where "close_vpnd ?w = Some w'" by blast
  with clean_shutdown [OF n] f show ?thesis by (auto simp: demo_peer_fields)
qed

text \<open>A missing public key ends in a double free: when the private key loads and the public key does
  not, \<open>vpnd\<close> frees the private key and returns, and the handler that \<open>atexit\<close> registered frees it
  again, because \<open>free_daemon_keys\<close> leaves the pointer as it is.\<close>

theorem startup_key_failure_double_free:
  assumes "config_dir w = Ptr dir" and "dir \<noteq> []" and "mallocs w = []"
    and "daemon_privkey w = Null" and "daemon_pubkey w = Null" and "\<not> already_closing w"
    and "load_rsa_key ssl (files e) (drop_last_slash dir @ ''/'' @ ''key.priv'') False = Some k"
    and "load_rsa_key ssl (files e) (drop_last_slash dir @ ''/'' @ ''key.pub'') True = None"
  shows "\<exists>w1. vpnd ssl e a w = Some (Some EXIT_FAILURE, w1) \<and> daemon_privkey w1 = Dangling \<and> close_vpnd w1 = None"
proof -
  let ?w1 = "w\<lparr>daemon_privkey := Dangling, daemon_pubkey := Null\<rparr>"
  have "vpnd ssl e a w = Some (Some EXIT_FAILURE, ?w1)"
    using assms
    by (simp add: vpnd_def vpnd_start_def load_daemon_privkey_def load_daemon_pubkey_def daemon_config_dir_def
        join_paths_reference drop_first_slash_def free_daemon_keys_def)
  moreover have "close_vpnd ?w1 = None"
    using assms(6) by (simp add: close_vpnd_steps free_daemon_keys_def)
  ultimately show ?thesis by auto
qed


theorem startup_key_failure_double_free_witness:
  "\<forall>a l. \<exists>w1. vpnd toy_ssl \<lparr>files = (\<lambda>p. if p = ''./key.priv'' then Some [84] else None), dirs = (\<lambda>_. None),
       open_ret = 7, ioctl_ret = 0, kernel_name = id, system_ret = (\<lambda>_ _. 0), listener4 = l, listener6 = l,
       polls = [], resolver = (\<lambda>_. None), client_socket = 5, connect_ret = (\<lambda>_. 0)\<rparr> a
       (daemon_init\<lparr>config_dir := Ptr ''./''\<rparr>) = Some (Some EXIT_FAILURE, w1) \<and> close_vpnd w1 = None"
proof (intro allI)
  fix a l
  let ?e = "\<lparr>files = (\<lambda>p. if p = ''./key.priv'' then Some [84] else None), dirs = (\<lambda>_. None),
       open_ret = 7, ioctl_ret = 0, kernel_name = id, system_ret = (\<lambda>_ _. 0), listener4 = l, listener6 = l,
       polls = [], resolver = (\<lambda>_. None), client_socket = 5, connect_ret = (\<lambda>_. 0)\<rparr>"
  let ?w = "daemon_init\<lparr>config_dir := Ptr ''./''\<rparr> :: (bool, byte list) daemon"
  have c: "config_dir ?w = Ptr ''./''" by simp
  have f: "mallocs ?w = []" "daemon_privkey ?w = Null" "daemon_pubkey ?w = Null" "\<not> already_closing ?w"
    by (simp_all add: daemon_init_defs)
  have k: "load_rsa_key toy_ssl (files ?e) (drop_last_slash ''./'' @ ''/'' @ ''key.priv'') False = Some True"
    "load_rsa_key toy_ssl (files ?e) (drop_last_slash ''./'' @ ''/'' @ ''key.pub'') True = None"
    by (simp_all add: load_rsa_key_def drop_last_slash_def toy_ssl_def)
  show "\<exists>w1. vpnd toy_ssl ?e a ?w = Some (Some EXIT_FAILURE, w1) \<and> close_vpnd w1 = None"
    using startup_key_failure_double_free [OF c _ f k, of a] by auto
qed



text \<open>A client that cannot connect ends like one that was served: \<open>vpnd\<close> ignores the result of
  \<open>tcp_client\<close>, so when the name is not resolved, or no socket is created, or the connection is refused,
  the exit status is that of success.\<close>

theorem failed_client_exits_success:
  assumes "vpnd ssl e a w = Some (status, w')" and "vpnd_start ssl e a w = Some (True, w1)"
    and "\<not> server a" and "args_address a = Some host"
    and "resolver e host = None \<or> client_socket e = -1 \<or> (\<forall>sin. connect_ret e sin = -1)"
  shows "status = Some EXIT_SUCCESS \<and>
         (\<exists>w2. tcp_client (resolver e) (client_socket e) (connect_ret e) host (args_port a) w1 = Some (-1, None, w2) \<and>
            (w2 = w1 \<or> w2 = sys_close (client_socket e) w1))"
proof -
  obtain ret i w2 where t: "tcp_client (resolver e) (client_socket e) (connect_ret e) host (args_port a) w1 = Some (ret, i, w2)"
    and "status = Some EXIT_SUCCESS"
    using assms(1-4) by (auto simp: vpnd_def vpnd_serve_def Option.bind_eq_Some_conv split: if_splits)
  moreover have "ret = -1 \<and> i = None \<and> (w2 = w1 \<or> w2 = sys_close (client_socket e) w1)"
    using t assms(5) by (auto simp: tcp_client_def Let_def split: option.splits if_splits)
  ultimately show ?thesis by simp
qed

theorem failed_client_exits_success_witness:
  "\<exists>status w'. vpnd toy_ssl demo_env (demo_args\<lparr>server := False, args_address := Some ''nowhere''\<rparr>) demo_init
       = Some (status, w') \<and> status = Some EXIT_SUCCESS"
proof -
  let ?a = "demo_args\<lparr>server := False, args_address := Some ''nowhere''\<rparr>"
  note facts = demo_env_def demo_args_def demo_init_def load_daemon_privkey_def load_daemon_pubkey_def load_trusted_keys_def
    daemon_config_dir_def join_paths_def malloc_def daemon_init_defs load_rsa_key_def toy_ssl_def add_trusted_key_def
    tuntap_open_def execute_script_def Let_def toy_tag_def
  have a: "\<not> server ?a" "args_address ?a = Some ''nowhere''" "resolver demo_env ''nowhere'' = None"
    by (simp_all add: demo_args_def demo_env_def)
  obtain w1 where s: "vpnd_start toy_ssl demo_env ?a demo_init = Some (True, w1)"
    by (simp add: vpnd_start_def facts)
  moreover obtain status w' where "vpnd toy_ssl demo_env ?a demo_init = Some (status, w')"
    by (simp add: vpnd_def vpnd_serve_def vpnd_start_def tcp_client_def close_vpnd_steps free_daemon_keys_def
        free_config_dir_def clear_trusted_keys_def facts)
  ultimately show ?thesis using failed_client_exits_success [OF _ s a(1,2)] a(3) by blast
qed

end
