(* ===== verification/Daemon_System.thy ===== *)
theory Daemon_System
  imports Daemon
begin

text \<open>
  The daemon while it runs: the threads of the connections, the device thread and the signal handlers,
  interleaved over the shared tables, and the invariant that every interleaving keeps.
\<close>

section \<open>The transition system\<close>

text \<open>
  A thread of a connection is in one of these phases; it owns its buffer and reads its own stream. The
  steps are the pieces of \<open>authenticate_peer\<close> and \<open>peer_loop\<close> between two receptions, a turn of the
  device loop, a new connection, the end of a connection, and the two signals; steps of different
  threads interleave freely. A step whose handler has undefined behaviour is not a transition.
\<close>

datatype phase = Starting | Key_sent | Key_checked | Serving | Ended

record ('k, 'c) system =
  world :: "('k, 'c) daemon"
  threads :: "nat \<Rightarrow> (phase \<times> rx) option"
  tun_thread :: tun_vars

definition wf_rx :: "rx \<Rightarrow> bool" where
  "wf_rx r \<longleftrightarrow> length (rx_buf r) = FRAME_MAXSIZE"

inductive dstep :: "('k, 'c) openssl \<Rightarrow> ('k, 'c) system \<Rightarrow> ('k, 'c) system \<Rightarrow> bool" for ssl where
  Connect:
    "peer_connection adr prt s client (world \<sigma>) = Some (Some i, w') \<Longrightarrow> wf_rx r \<Longrightarrow>
     dstep ssl \<sigma> (\<sigma>\<lparr>world := w', threads := (threads \<sigma>)(i \<mapsto> (Starting, r))\<rparr>)"
| Send_key:
    "threads \<sigma> i = Some (Starting, r) \<Longrightarrow> send_public_key ssl i (world \<sigma>) = Some (ok, w') \<Longrightarrow>
     dstep ssl \<sigma> (\<sigma>\<lparr>world := w', threads := (threads \<sigma>)(i \<mapsto> (if ok then Key_sent else Ended, r))\<rparr>)"
| Check_key:
    "threads \<sigma> i = Some (Key_sent, r) \<Longrightarrow> receive_public_key ssl i r (world \<sigma>) = Some (ok, r', w') \<Longrightarrow>
     dstep ssl \<sigma> (\<sigma>\<lparr>world := w', threads := (threads \<sigma>)(i \<mapsto> (if ok then Key_checked else Ended, r'))\<rparr>)"
| Agree:
    "threads \<sigma> i = Some (Key_checked, r) \<Longrightarrow> agree_on_secrets ssl i r (world \<sigma>) = Some (ok, r', w') \<Longrightarrow>
     dstep ssl \<sigma> (\<sigma>\<lparr>world := w', threads := (threads \<sigma>)(i \<mapsto> (if ok then Serving else Ended, r'))\<rparr>)"
| Frame:
    "threads \<sigma> i = Some (Serving, r) \<Longrightarrow> receive_frame (host_le (world \<sigma>)) r = Some (ret, r') \<Longrightarrow> 0 \<le> ret \<Longrightarrow>
     wf_stack st \<Longrightarrow>
     process_frame ssl st i (rx_buf r') (rx_type r') (rx_len r') (world \<sigma>) = Some (res, w') \<Longrightarrow>
     dstep ssl \<sigma> (\<sigma>\<lparr>world := w', threads := (threads \<sigma>)(i \<mapsto> (if res < 0 then Ended else Serving, r'))\<rparr>)"
| End_of_stream:
    "threads \<sigma> i = Some (Serving, r) \<Longrightarrow> receive_frame (host_le (world \<sigma>)) r = Some (ret, r') \<Longrightarrow> ret < 0 \<Longrightarrow>
     dstep ssl \<sigma> (\<sigma>\<lparr>threads := (threads \<sigma>)(i \<mapsto> (Ended, r'))\<rparr>)"
| Disconnect:
    "threads \<sigma> i = Some (Ended, r) \<Longrightarrow>
     dstep ssl \<sigma> (\<sigma>\<lparr>world := peer_disconnect i (world \<sigma>), threads := (threads \<sigma>)(i := None)\<rparr>)"
| Tun_packet:
    "broadcast_packet ssl p (tun_thread \<sigma>) (world \<sigma>) = Some (v', w') \<Longrightarrow> length p \<le> FRAME_PAYLOAD_MAXSIZE \<Longrightarrow>
     dstep ssl \<sigma> (\<sigma>\<lparr>world := w', tun_thread := v'\<rparr>)"
| Interrupt:
    "interrupt_program_handler ssl (world \<sigma>) = Some w' \<Longrightarrow> dstep ssl \<sigma> (\<sigma>\<lparr>world := w'\<rparr>)"
| Dump:
    "usr1_handler (world \<sigma>) = Some w' \<Longrightarrow> dstep ssl \<sigma> (\<sigma>\<lparr>world := w'\<rparr>)"

section \<open>The invariant\<close>

text \<open>Every address belongs to at most one connected peer, and once to it.\<close>

definition routes_exclusive :: "('k, 'c) peer list \<Rightarrow> bool" where
  "routes_exclusive ps \<longleftrightarrow>
     (\<forall>i < length ps. alive (ps ! i) \<longrightarrow> distinct (map route_key (peer_routes (ps ! i)))) \<and>
     (\<forall>i < length ps. \<forall>j < length ps. i \<noteq> j \<longrightarrow> alive (ps ! i) \<longrightarrow> alive (ps ! j) \<longrightarrow>
        route_keys (peer_routes (ps ! i)) \<inter> route_keys (peer_routes (ps ! j)) = {})"

definition peer_trusted :: "'k list \<Rightarrow> ('k, 'c) peer \<Rightarrow> bool" where
  "peer_trusted keys p \<longleftrightarrow> (authenticated p \<longrightarrow> (\<exists>k \<in> set keys. pubkey p = Ptr k))"

definition thread_ok :: "('k, 'c, 'a) peer_state_scheme \<Rightarrow> nat \<Rightarrow> phase \<times> rx \<Rightarrow> bool" where
  "thread_ok w i t \<longleftrightarrow>
     i < length (peers w) \<and> alive (peers w ! i) \<and> wf_rx (snd t) \<and>
     (fst t = Serving \<longrightarrow> authenticated (peers w ! i)) \<and>
     (fst t \<in> {Starting, Key_sent, Key_checked} \<longrightarrow>
        \<not> authenticated (peers w ! i) \<and> peer_routes (peers w ! i) = []) \<and>
     (fst t = Key_checked \<longrightarrow> (\<exists>k \<in> set (trusted_keys w). pubkey (peers w ! i) = Ptr k))"

definition peer_sound :: "'k list \<Rightarrow> ('k, 'c) peer \<Rightarrow> bool" where
  "peer_sound keys p \<longleftrightarrow> ctxs_ok p \<and> peer_trusted keys p \<and> address p \<noteq> Dangling"

definition tables_ok :: "('k, 'c, 'a) peer_state_scheme \<Rightarrow> bool" where
  "tables_ok w \<longleftrightarrow>
     list_all (peer_sound (trusted_keys w)) (peers w) \<and> routes_exclusive (peers w) \<and>
     distinct (map route_key (local_routes w))"

definition sys_inv :: "'k list \<Rightarrow> ('k, 'c) system \<Rightarrow> bool" where
  "sys_inv keys \<sigma> \<longleftrightarrow>
     tables_ok (world \<sigma>) \<and> trusted_keys (world \<sigma>) = keys \<and> wf_tun (tun_thread \<sigma>) \<and>
     (\<forall>i t. threads \<sigma> i = Some t \<longrightarrow> thread_ok (world \<sigma>) i t) \<and>
     (\<forall>i < length (peers (world \<sigma>)). alive (peers (world \<sigma>) ! i) \<longrightarrow> threads \<sigma> i \<noteq> None)"

lemma routes_exclusive_cong:
  assumes "length ps' = length ps"
    and "\<And>j. j < length ps \<Longrightarrow> alive (ps' ! j) = alive (ps ! j)"
    and "\<And>j. j < length ps \<Longrightarrow> peer_routes (ps' ! j) = peer_routes (ps ! j)"
  shows "routes_exclusive ps' \<longleftrightarrow> routes_exclusive ps"
  using assms by (simp add: routes_exclusive_def)

lemma peer_core_sound:
  assumes "peer_core p = peer_core q"
  shows "peer_sound keys p \<longleftrightarrow> peer_sound keys q"
  using peer_core_eqD [OF assms] unfolding peer_sound_def ctxs_ok_def peer_trusted_def by metis

lemma core_nth:
  assumes "map peer_core ps' = map peer_core ps" and "j < length ps"
  shows "peer_core (ps' ! j) = peer_core (ps ! j)" and "length ps' = length ps"
proof -
  show len: "length ps' = length ps" using arg_cong [OF assms(1), of length] by simp
  show "peer_core (ps' ! j) = peer_core (ps ! j)"
    using arg_cong [OF assms(1), of "\<lambda>xs. xs ! j"] assms(2) len by simp
qed

text \<open>A step that changes no peer but for the contents of contexts.\<close>

lemma core_step:
  assumes core: "map peer_core (peers w') = map peer_core (peers w)" and keys: "trusted_keys w' = trusted_keys w"
    and loc: "distinct (map route_key (local_routes w'))" and ok: "tables_ok w"
  shows "tables_ok w'" and "thread_ok w j t \<Longrightarrow> thread_ok w' j t"
    and "j < length (peers w') \<Longrightarrow> alive (peers w' ! j) \<Longrightarrow> j < length (peers w) \<and> alive (peers w ! j)"
proof -
  have len: "length (peers w') = length (peers w)" using arg_cong [OF core, of length] by simp
  note nth = core_nth(1) [OF core]
  have "list_all (peer_sound (trusted_keys w')) (peers w')"
    using ok len peer_core_sound [OF nth] by (simp add: tables_ok_def list_all_length keys)
  moreover have "routes_exclusive (peers w')"
    using ok routes_exclusive_cong [OF len peer_core_eqD(5) [OF nth] peer_core_eqD(8) [OF nth]]
    by (simp add: tables_ok_def)
  ultimately show "tables_ok w'" using loc by (simp add: tables_ok_def)
  show "thread_ok w' j t" if "thread_ok w j t"
    using that peer_core_eqD(5-8) [OF nth, of j] len keys by (simp add: thread_ok_def)
  show "j < length (peers w) \<and> alive (peers w ! j)" if "j < length (peers w')" "alive (peers w' ! j)"
    using that peer_core_eqD(5) [OF nth, of j] len by simp
qed

text \<open>A step of the handshake of peer \<open>i\<close>.\<close>

lemma auth_step:
  assumes a: "auth_only i w w'" and ok: "tables_ok w" and i: "i < length (peers w)"
    and sound: "peer_sound (trusted_keys w) (peers w' ! i)"
  shows "tables_ok w'" and "j \<noteq> i \<Longrightarrow> thread_ok w j t \<Longrightarrow> thread_ok w' j t"
    and "j < length (peers w') \<Longrightarrow> alive (peers w' ! j) \<Longrightarrow> j < length (peers w) \<and> alive (peers w ! j)"
    and "alive (peers w' ! i) = alive (peers w ! i)" and "peer_routes (peers w' ! i) = peer_routes (peers w ! i)"
    and "length (peers w') = length (peers w)" and "trusted_keys w' = trusted_keys w"
proof -
  have len: "length (peers w') = length (peers w)" and keys: "trusted_keys w' = trusted_keys w"
    and core: "\<And>j. j < length (peers w) \<Longrightarrow> j \<noteq> i \<Longrightarrow> peer_core (peers w' ! j) = peer_core (peers w ! j)"
    and unk: "\<And>j. j < length (peers w) \<Longrightarrow> unkeyed (peers w' ! j) = unkeyed (peers w ! j)"
    and loc: "local_routes w' = local_routes w"
    using a by (simp_all add: auth_only_def)
  have alive: "alive (peers w' ! j) = alive (peers w ! j)" if "j < length (peers w)" for j
    using arg_cong [OF unk [OF that], of alive] by (simp add: unkeyed_def)
  have routes: "peer_routes (peers w' ! j) = peer_routes (peers w ! j)" if "j < length (peers w)" for j
    using arg_cong [OF unk [OF that], of peer_routes] by (simp add: unkeyed_def)
  have "peer_sound (trusted_keys w) (peers w' ! j)" if j: "j < length (peers w)" for j
  proof (cases "j = i")
    case True
    then show ?thesis using sound by simp
  next
    case False
    then show ?thesis
      using ok j peer_core_sound [OF core [OF j False]] by (simp add: tables_ok_def list_all_length)
  qed
  then have "list_all (peer_sound (trusted_keys w')) (peers w')"
    using len keys by (simp add: list_all_length)
  moreover have "routes_exclusive (peers w')"
    using ok routes_exclusive_cong [OF len alive routes] by (simp add: tables_ok_def)
  ultimately show "tables_ok w'" using ok loc by (simp add: tables_ok_def)
  show "thread_ok w' j t" if "j \<noteq> i" "thread_ok w j t"
    using that peer_core_eqD(5-8) [OF core, of j] len keys by (simp add: thread_ok_def)
  show "j < length (peers w) \<and> alive (peers w ! j)" if "j < length (peers w')" "alive (peers w' ! j)"
    using that alive len by simp
  show "alive (peers w' ! i) = alive (peers w ! i)" "peer_routes (peers w' ! i) = peer_routes (peers w ! i)"
    using alive routes i by simp_all
  show "length (peers w') = length (peers w)" "trusted_keys w' = trusted_keys w" by (fact len, fact keys)
qed

text \<open>Learning an address that no connected peer has keeps the tables exclusive.\<close>

lemma routes_exclusive_learn:
  assumes ex: "routes_exclusive ps" and len: "length ps' = length ps"
    and alive: "\<And>j. j < length ps \<Longrightarrow> alive (ps' ! j) = alive (ps ! j)"
    and other: "\<And>j. j < length ps \<Longrightarrow> j \<noteq> i \<Longrightarrow> peer_routes (ps' ! j) = peer_routes (ps ! j)"
    and me: "peer_routes (ps' ! i) = peer_routes (ps ! i) @ [r]"
    and fresh: "\<And>j. j < length ps \<Longrightarrow> alive (ps ! j) \<Longrightarrow> route_key r \<notin> route_keys (peer_routes (ps ! j))"
  shows "routes_exclusive ps'"
  unfolding routes_exclusive_def len
proof (intro conjI allI impI)
  fix j assume j: "j < length ps" "alive (ps' ! j)"
  then show "distinct (map route_key (peer_routes (ps' ! j)))"
    using ex fresh [of j] other [of j] alive [of j] me
    by (cases "j = i") (auto simp: routes_exclusive_def route_keys_def)
next
  fix j k assume jk: "j < length ps" "k < length ps" "j \<noteq> k" "alive (ps' ! j)" "alive (ps' ! k)"
  then have a: "alive (ps ! j)" "alive (ps ! k)" using alive by simp_all
  have d: "route_keys (peer_routes (ps ! j)) \<inter> route_keys (peer_routes (ps ! k)) = {}"
    using ex jk(1-3) a unfolding routes_exclusive_def by blast
  have ki: "route_keys (peer_routes (ps' ! i)) = insert (route_key r) (route_keys (peer_routes (ps ! i)))"
    by (simp add: me route_keys_def)
  show "route_keys (peer_routes (ps' ! j)) \<inter> route_keys (peer_routes (ps' ! k)) = {}"
    using d ki other [of j] other [of k] jk fresh [of j] fresh [of k] a
    by (cases "j = i"; cases "k = i") auto
qed

text \<open>So does a slot without routes.\<close>

lemma routes_exclusive_fresh:
  assumes ex: "routes_exclusive ps" and none: "peer_routes (ps' ! i) = []"
    and other: "\<And>j. j \<noteq> i \<Longrightarrow> j < length ps' \<Longrightarrow> j < length ps \<and> ps' ! j = ps ! j"
  shows "routes_exclusive ps'"
  unfolding routes_exclusive_def
proof (intro conjI allI impI)
  fix j assume j: "j < length ps'" "alive (ps' ! j)"
  then show "distinct (map route_key (peer_routes (ps' ! j)))"
    using none other [of j] ex unfolding routes_exclusive_def by (cases "j = i") auto
next
  fix j k assume jk: "j < length ps'" "k < length ps'" "j \<noteq> k" "alive (ps' ! j)" "alive (ps' ! k)"
  show "route_keys (peer_routes (ps' ! j)) \<inter> route_keys (peer_routes (ps' ! k)) = {}"
  proof (cases "j = i \<or> k = i")
    case True
    then show ?thesis using none by (auto simp: route_keys_def)
  next
    case False
    then show ?thesis using jk other ex unfolding routes_exclusive_def by metis
  qed
qed

text \<open>A packet of peer \<open>i\<close>.\<close>

lemma packet_step:
  assumes p: "packet_only i w w'" and l: "learns i w w'" and ok: "tables_ok w" and i: "i < length (peers w)"
    and auth: "authenticated (peers w ! i) \<or> w' = w"
  shows "tables_ok w'" and "thread_ok w j t \<Longrightarrow> thread_ok w' j t"
    and "j < length (peers w') \<Longrightarrow> alive (peers w' ! j) \<Longrightarrow> j < length (peers w) \<and> alive (peers w ! j)"
proof -
  have same: "local_routes w' = local_routes w" "trusted_keys w' = trusted_keys w"
    using p by (simp_all add: packet_only_def)
  have len: "length (peers w') = length (peers w)" using p by (rule packet_only_length)
  note alive = packet_only_nth(2) [OF p] and auth' = packet_only_nth(3) [OF p] and key = packet_only_nth(4) [OF p]
    and adr = packet_only_nth(5) [OF p] and other = packet_only_nth(7) [OF p]
  have "list_all ctxs_ok (peers w')"
    using packet_only_ctxs [OF p] ok by (auto simp: tables_ok_def list_all_iff peer_sound_def)
  then have "list_all (peer_sound (trusted_keys w')) (peers w')"
    using ok len auth' key adr same by (simp add: tables_ok_def list_all_length peer_trusted_def peer_sound_def)
  moreover have "routes_exclusive (peers w')"
  proof (cases "peer_routes (peers w' ! i) = peer_routes (peers w ! i)")
    case True
    then have "peer_routes (peers w' ! j) = peer_routes (peers w ! j)" if "j < length (peers w)" for j
      using other that by (cases "j = i") auto
    from routes_exclusive_cong [OF len alive this] ok show ?thesis by (simp add: tables_ok_def)
  next
    case False
    with l obtain r where r: "peer_routes (peers w' ! i) = peer_routes (peers w ! i) @ [r]"
      "get_peer_route r w = None" by (auto simp: learns_def)
    have "routes_exclusive (peers w)" using ok by (simp add: tables_ok_def)
    then show ?thesis
      using len alive other r(1)
      by (rule routes_exclusive_learn) (use r(2) in \<open>auto simp: get_peer_route_None route_known_key\<close>)
  qed
  ultimately show "tables_ok w'" using ok same by (simp add: tables_ok_def)
  show "thread_ok w' j t" if t: "thread_ok w j t"
  proof (cases "w' = w")
    case True
    then show ?thesis using t by simp
  next
    case False
    then have "authenticated (peers w ! i)" using auth by simp
    then have "\<not> authenticated (peers w ! j) \<Longrightarrow> j \<noteq> i" by auto
    then show ?thesis
      using t alive [of j] auth' [of j] key [of j] other [of j] len same
      by (auto simp: thread_ok_def)
  qed
  show "j < length (peers w) \<and> alive (peers w ! j)" if "j < length (peers w')" "alive (peers w' ! j)"
    using that alive len by simp
qed

section \<open>Every step keeps the invariant\<close>

text \<open>How a step of one thread, and a step of no connection thread, carries the invariant over.\<close>

lemma sys_inv_thread:
  assumes inv: "sys_inv keys \<sigma>" and ok: "tables_ok w'" and keys: "trusted_keys w' = trusted_keys (world \<sigma>)"
    and others: "\<And>j u. j \<noteq> i \<Longrightarrow> thread_ok (world \<sigma>) j u \<Longrightarrow> thread_ok w' j u" and me: "thread_ok w' i t'"
    and prev: "\<And>j. j < length (peers w') \<Longrightarrow> j \<noteq> i \<Longrightarrow> alive (peers w' ! j) \<Longrightarrow>
       j < length (peers (world \<sigma>)) \<and> alive (peers (world \<sigma>) ! j)"
  shows "sys_inv keys (\<sigma>\<lparr>world := w', threads := (threads \<sigma>)(i \<mapsto> t')\<rparr>)"
  using inv ok keys me by (auto simp: sys_inv_def intro: others dest: prev)

lemma sys_inv_core:
  assumes inv: "sys_inv keys \<sigma>" and core: "map peer_core (peers w') = map peer_core (peers (world \<sigma>))"
    and keys: "trusted_keys w' = trusted_keys (world \<sigma>)"
    and loc: "distinct (map route_key (local_routes w'))" and v: "wf_tun v'"
  shows "sys_inv keys (\<sigma>\<lparr>world := w', tun_thread := v'\<rparr>)"
proof -
  have ok: "tables_ok (world \<sigma>)" using inv by (simp add: sys_inv_def)
  note c = core_step [OF core keys loc ok]
  show ?thesis using inv v keys c(1) by (auto simp: sys_inv_def intro: c(2) dest: c(3))
qed

lemma inv_thread_ok: "sys_inv keys \<sigma> \<Longrightarrow> threads \<sigma> i = Some t \<Longrightarrow> thread_ok (world \<sigma>) i t"
  by (cases t) (simp add: sys_inv_def)

lemma auth_sound:
  assumes a: "auth_only i w w'" and i: "i < length (peers w)"
    and s: "peer_sound K (peers w ! i)" and c: "ctxs_ok (peers w' ! i)" and t: "peer_trusted K (peers w' ! i)"
  shows "peer_sound K (peers w' ! i)"
proof -
  have "unkeyed (peers w' ! i) = unkeyed (peers w ! i)" using a i by (simp add: auth_only_def)
  then have "address (peers w' ! i) = address (peers w ! i)" by (metis (no_types) unkeyed_def peer.ext_inject peer.surjective peer.update_convs)
  then show ?thesis using s c t by (simp add: peer_sound_def)
qed

lemma tables_sound: "tables_ok w \<Longrightarrow> i < length (peers w) \<Longrightarrow> peer_sound (trusted_keys w) (peers w ! i)"
  by (simp add: tables_ok_def list_all_length)

text \<open>A new connection.\<close>

lemma add_peer_result:
  assumes "add_peer adr prt s client w = Some (Some i, w')"
  obtains a d ms where "w' = w\<lparr>mallocs := ms, peers := (if i < length (peers w)
      then (peers w)[i := fresh_peer a prt s client d] else peers w @ [fresh_peer a prt s client d])\<rparr>"
    and "i \<le> length (peers w)" and "i < length (peers w) \<longrightarrow> \<not> alive (peers w ! i)" and "a \<noteq> Dangling"
proof -
  obtain b w1 where m: "malloc w = (b, w1)" by (cases "malloc w")
  then obtain ms1 where ms1: "w1 = w\<lparr>mallocs := ms1\<rparr>" by (elim mallocE) simp
  let ?a = "\<lambda>b. if b then Ptr adr else Null"
  show thesis
  proof (cases "find_index (\<lambda>p. \<not> alive p) (peers w)")
    case (Some k)
    let ?d = "if dec_ctx (peers w ! k) = Null then Null else Dangling"
    have k: "k < length (peers w)" "\<not> alive (peers w ! k)" using find_index_SomeD [OF Some] by simp_all
    have nd: "no_dangling (peers w ! k)"
      using assms by (simp add: add_peer_def Some set_peer_info_result split: if_splits)
    have "i = k \<and> w' = w1\<lparr>peers := (peers w1)[k := fresh_peer (?a b) prt s client ?d]\<rparr>"
      using assms by (auto simp: add_peer_def Some set_peer_info_result nd m)
    with k show thesis by (intro that [where ms = ms1 and a = "?a b" and d = ?d]) (simp_all add: ms1)
  next
    case None
    obtain b2 w2 where m2: "malloc w1 = (b2, w2)" by (cases "malloc w1")
    then obtain ms2 where ms2: "w2 = w\<lparr>mallocs := ms2\<rparr>" using ms1 by (elim mallocE) simp
    have b: "b" using assms None m by (cases b) (simp_all add: add_peer_def create_peer_def)
    have d: "dec_ctx initialize_peer = Null" by (simp add: initialize_peer_def)
    have "i = length (peers w) \<and> w' = w2\<lparr>peers := peers w @ [fresh_peer (?a b2) prt s client Null]\<rparr>"
      using assms None m m2 b by (auto simp: add_peer_def create_peer_def set_peer_info_result ms2 d)
    then show thesis by (intro that [where ms = ms2 and a = "?a b2" and d = Null]) (simp_all add: ms2)
  qed
qed

lemma connect_inv:
  assumes inv: "sys_inv keys \<sigma>" and c: "peer_connection adr prt s client (world \<sigma>) = Some (Some i, w')"
    and r: "wf_rx r"
  shows "sys_inv keys (\<sigma>\<lparr>world := w', threads := (threads \<sigma>)(i \<mapsto> (Starting, r))\<rparr>)"
proof -
  let ?w = "world \<sigma>"
  obtain a d ms where w': "w' = ?w\<lparr>mallocs := ms, peers := (if i < length (peers ?w)
      then (peers ?w)[i := fresh_peer a prt s client d] else peers ?w @ [fresh_peer a prt s client d])\<rparr>"
    and i: "i \<le> length (peers ?w)" "i < length (peers ?w) \<longrightarrow> \<not> alive (peers ?w ! i)" and a: "a \<noteq> Dangling"
    using c unfolding peer_connection_def by (rule add_peer_result)
  have ok: "tables_ok ?w" using inv by (simp add: sys_inv_def)
  have len: "length (peers w') = max (length (peers ?w)) (Suc i)" using i(1) by (auto simp: w')
  have me: "peers w' ! i = fresh_peer a prt s client d" using i(1) by (auto simp: w' nth_append)
  have other: "peers w' ! j = peers ?w ! j" if "j \<noteq> i" "j < length (peers w')" for j
    using that i(1) by (auto simp: w' nth_append)
  have lt: "j < length (peers ?w)" if "j \<noteq> i" "j < length (peers w')" for j using that i(1) len by auto
  have fresh: "peer_sound keys' (fresh_peer a prt s client d)" for keys'
    using a by (simp add: peer_sound_def ctxs_ok_def peer_trusted_def fresh_peer_def)
  have "peer_sound (trusted_keys w') (peers w' ! j)" if "j < length (peers w')" for j
    using fresh me other lt that tables_sound [OF ok] by (cases "j = i") (simp_all add: w')
  moreover have "routes_exclusive (peers ?w)" using ok by (simp add: tables_ok_def)
  then have "routes_exclusive (peers w')"
    by (rule routes_exclusive_fresh [of _ _ i]) (use other lt in \<open>auto simp: me fresh_peer_def\<close>)
  ultimately have ok': "tables_ok w'" using ok by (simp add: tables_ok_def list_all_length w')
  have keep: "thread_ok w' j u" if "j \<noteq> i" "thread_ok ?w j u" for j u
    using that other [of j] len by (auto simp: thread_ok_def w' less_max_iff_disj)
  have own: "thread_ok w' i (Starting, r)"
    using r me len by (simp add: thread_ok_def fresh_peer_def)
  show ?thesis
    by (rule sys_inv_thread [OF inv ok' _ keep own]) (use other lt in \<open>auto simp: w'\<close>)
qed

lemma disconnect_inv:
  assumes inv: "sys_inv keys \<sigma>" and t: "threads \<sigma> i = Some t"
  shows "sys_inv keys (\<sigma>\<lparr>world := peer_disconnect i (world \<sigma>), threads := (threads \<sigma>)(i := None)\<rparr>)"
proof -
  let ?w = "world \<sigma>" and ?w' = "peer_disconnect i (world \<sigma>)"
  have ok: "tables_ok ?w" using inv by (simp add: sys_inv_def)
  have i: "i < length (peers ?w)" using inv_thread_ok [OF inv t] by (simp add: thread_ok_def)
  have ps: "peers ?w' = (peers ?w)[i := (peers ?w ! i)\<lparr>alive := False\<rparr>]" "trusted_keys ?w' = trusted_keys ?w"
    "local_routes ?w' = local_routes ?w"
    by (simp_all add: peer_disconnect_def sys_close_def Let_def)
  have len: "length (peers ?w') = length (peers ?w)" by (simp add: ps(1))
  have nth: "peers ?w' ! j = (if j = i then (peers ?w ! i)\<lparr>alive := False\<rparr> else peers ?w ! j)" for j
    using i by (simp add: ps(1))
  have "peer_sound keys' (p\<lparr>alive := False\<rparr>) = peer_sound keys' p" for keys' and p :: "('a, 'b) peer"
    by (simp add: peer_sound_def ctxs_ok_def peer_trusted_def)
  then have "list_all (peer_sound (trusted_keys ?w')) (peers ?w')"
    using ok i by (auto simp: tables_ok_def list_all_length nth len ps(2))
  moreover have "routes_exclusive (peers ?w')"
    using ok by (auto simp: tables_ok_def routes_exclusive_def nth len)
  ultimately have "tables_ok ?w'" using ok by (simp add: tables_ok_def ps)
  moreover have "thread_ok ?w' j u" if "j \<noteq> i" "thread_ok ?w j u" for j u
    using that by (simp add: thread_ok_def nth len ps(2))
  ultimately show ?thesis
    using inv by (auto simp: sys_inv_def nth len ps(2) split: if_splits)
qed


text \<open>The steps of the handshake.\<close>

lemma handshake_inv:
  assumes inv: "sys_inv keys \<sigma>" and t: "threads \<sigma> i = Some (ph, r)" and a: "auth_only i (world \<sigma>) w'"
    and ctx: "ctxs_ok (peers w' ! i)" and tr: "peer_trusted keys (peers w' ! i)"
    and own: "alive (peers w' ! i) \<Longrightarrow> i < length (peers w') \<Longrightarrow>
       peer_routes (peers w' ! i) = peer_routes (peers (world \<sigma>) ! i) \<Longrightarrow>
       trusted_keys w' = trusted_keys (world \<sigma>) \<Longrightarrow> thread_ok w' i t'"
  shows "sys_inv keys (\<sigma>\<lparr>world := w', threads := (threads \<sigma>)(i \<mapsto> t')\<rparr>)"
proof -
  have ok: "tables_ok (world \<sigma>)" and keys: "trusted_keys (world \<sigma>) = keys" using inv by (simp_all add: sys_inv_def)
  have i: "i < length (peers (world \<sigma>))" "alive (peers (world \<sigma>) ! i)"
    using inv_thread_ok [OF inv t] by (simp_all add: thread_ok_def)
  have s: "peer_sound (trusted_keys (world \<sigma>)) (peers w' ! i)"
    using auth_sound [OF a i(1) tables_sound [OF ok i(1)] ctx] tr keys by simp
  note st = auth_step [OF a ok i(1) s]
  have "thread_ok w' i t'" using own i st(4-7) by simp
  then show ?thesis using sys_inv_thread [OF inv st(1,7) st(2)] st(3) by blast
qed

lemma send_key_inv:
  assumes inv: "sys_inv keys \<sigma>" and t: "threads \<sigma> i = Some (Starting, r)"
    and s: "send_public_key ssl i (world \<sigma>) = Some (ok, w')"
  shows "sys_inv keys (\<sigma>\<lparr>world := w', threads := (threads \<sigma>)(i \<mapsto> (if ok then Key_sent else Ended, r))\<rparr>)"
proof -
  have th: "thread_ok (world \<sigma>) i (Starting, r)" using inv t by (rule inv_thread_ok)
  then have i: "i < length (peers (world \<sigma>))" by (simp add: thread_ok_def)
  have q: "auth_only i (world \<sigma>) w'" "peer_core (peers w' ! i) = peer_core (peers (world \<sigma>) ! i)"
    using send_public_key_quiet [OF s] i by (simp_all add: auth_quiet_def)
  have "\<not> authenticated (peers w' ! i)" using peer_core_eqD(7) [OF q(2)] th by (simp add: thread_ok_def)
  then show ?thesis
    using th by (intro handshake_inv [OF inv t q(1)]) (simp_all add: ctxs_ok_def peer_trusted_def thread_ok_def)
qed

lemma check_key_inv:
  assumes ssl: "pem_text ssl" and inv: "sys_inv keys \<sigma>" and t: "threads \<sigma> i = Some (Key_sent, r)"
    and s: "receive_public_key ssl i r (world \<sigma>) = Some (ok, r', w')"
  shows "sys_inv keys (\<sigma>\<lparr>world := w', threads := (threads \<sigma>)(i \<mapsto> (if ok then Key_checked else Ended, r'))\<rparr>)"
proof -
  have th: "thread_ok (world \<sigma>) i (Key_sent, r)" using inv t by (rule inv_thread_ok)
  then have i: "i < length (peers (world \<sigma>))" and buf: "length (rx_buf r) = FRAME_MAXSIZE"
    by (simp_all add: thread_ok_def wf_rx_def)
  note q = receive_public_key_result [OF s i]
  have "wf_rx r'" using receive_public_key_buf [OF s buf] by (simp add: wf_rx_def)
  moreover have "\<not> authenticated (peers w' ! i)" using q th by (simp add: thread_ok_def)
  ultimately show ?thesis
    using th q ssl
    by (intro handshake_inv [OF inv t]) (simp_all add: ctxs_ok_def peer_trusted_def thread_ok_def)
qed

lemma agree_inv:
  assumes inv: "sys_inv keys \<sigma>" and t: "threads \<sigma> i = Some (Key_checked, r)"
    and s: "agree_on_secrets ssl i r (world \<sigma>) = Some (ok, r', w')"
  shows "sys_inv keys (\<sigma>\<lparr>world := w', threads := (threads \<sigma>)(i \<mapsto> (if ok then Serving else Ended, r'))\<rparr>)"
proof -
  have th: "thread_ok (world \<sigma>) i (Key_checked, r)" using inv t by (rule inv_thread_ok)
  then have i: "i < length (peers (world \<sigma>))" and buf: "length (rx_buf r) = FRAME_MAXSIZE"
    by (simp_all add: thread_ok_def wf_rx_def)
  note q = agree_on_secrets_result [OF s i]
  have keys: "trusted_keys (world \<sigma>) = keys" using inv by (simp add: sys_inv_def)
  have "wf_rx r'" using agree_on_secrets_buf [OF s buf] by (simp add: wf_rx_def)
  moreover have "ctxs_ok (peers w' ! i)" using q th by (cases ok) (simp_all add: ctxs_ok_def thread_ok_def)
  moreover have "peer_trusted keys (peers w' ! i)" using q th keys by (simp add: peer_trusted_def thread_ok_def)
  ultimately show ?thesis
    using q by (intro handshake_inv [OF inv t]) (simp_all add: thread_ok_def)
qed

text \<open>Frames, packets of the device, signals.\<close>

lemma frame_inv:
  assumes inv: "sys_inv keys \<sigma>" and t: "threads \<sigma> i = Some (Serving, r)"
    and f: "receive_frame (host_le (world \<sigma>)) r = Some (ret, r')" and st: "wf_stack st"
    and p: "process_frame ssl st i (rx_buf r') (rx_type r') (rx_len r') (world \<sigma>) = Some (res, w')"
  shows "sys_inv keys (\<sigma>\<lparr>world := w', threads := (threads \<sigma>)(i \<mapsto> (if res < 0 then Ended else Serving, r'))\<rparr>)"
proof -
  have th: "thread_ok (world \<sigma>) i (Serving, r)" using inv t by (rule inv_thread_ok)
  then have buf: "length (rx_buf r) = FRAME_MAXSIZE" by (simp add: thread_ok_def wf_rx_def)
  have ok: "tables_ok (world \<sigma>)" using inv by (simp add: sys_inv_def)
  have o: "packet_only i (world \<sigma>) w'" "learns i (world \<sigma>) w'" "i < length (peers (world \<sigma>))"
    "authenticated (peers (world \<sigma>) ! i) \<or> w' = world \<sigma>"
    using process_frame_only [OF p st] by simp_all
  note s = packet_step [OF o(1,2) ok o(3,4)]
  have "trusted_keys w' = trusted_keys (world \<sigma>)" using o(1) by (simp add: packet_only_def)
  moreover have "wf_rx r'" using receive_frame_keeps [OF f buf] by (simp add: wf_rx_def)
  then have "thread_ok w' i (if res < 0 then Ended else Serving, r')"
    using s(2) [OF th] by (simp add: thread_ok_def)
  ultimately show ?thesis using sys_inv_thread [OF inv s(1) _ s(2)] s(3) by blast
qed

lemma end_of_stream_inv:
  assumes inv: "sys_inv keys \<sigma>" and t: "threads \<sigma> i = Some (Serving, r)"
    and f: "receive_frame (host_le (world \<sigma>)) r = Some (ret, r')"
  shows "sys_inv keys (\<sigma>\<lparr>threads := (threads \<sigma>)(i \<mapsto> (Ended, r'))\<rparr>)"
proof -
  have th: "thread_ok (world \<sigma>) i (Serving, r)" using inv t by (rule inv_thread_ok)
  then have "wf_rx r'" using receive_frame_keeps [OF f] by (simp add: thread_ok_def wf_rx_def)
  then have "thread_ok (world \<sigma>) i (Ended, r')" using th by (simp add: thread_ok_def)
  moreover have "tables_ok (world \<sigma>)" using inv by (simp add: sys_inv_def)
  ultimately have "sys_inv keys (\<sigma>\<lparr>world := world \<sigma>, threads := (threads \<sigma>)(i \<mapsto> (Ended, r'))\<rparr>)"
    using inv by (intro sys_inv_thread) auto
  then show ?thesis by simp
qed

lemma local_routes_distinct:
  assumes "tun_only w w'" and "distinct (map route_key (local_routes w))"
  shows "distinct (map route_key (local_routes w'))"
  using assms by (auto simp: tun_only_def is_local_route_known route_known_key route_keys_def)

lemma tun_packet_inv:
  assumes inv: "sys_inv keys \<sigma>" and b: "broadcast_packet ssl p (tun_thread \<sigma>) (world \<sigma>) = Some (v', w')"
    and p: "length p \<le> FRAME_PAYLOAD_MAXSIZE"
  shows "sys_inv keys (\<sigma>\<lparr>world := w', tun_thread := v'\<rparr>)"
proof -
  have "wf_tun (tun_thread \<sigma>)" using inv by (simp add: sys_inv_def)
  note o = broadcast_packet_only [OF b this p]
  have "distinct (map route_key (local_routes w'))"
    using local_routes_distinct o inv by (auto simp: sys_inv_def tables_ok_def)
  then show ?thesis using o by (intro sys_inv_core [OF inv]) (simp_all add: tun_only_def)
qed

lemma interrupt_only:
  assumes "interrupt_program_handler ssl w = Some w'"
  shows "map peer_core (peers w') = map peer_core (peers w) \<and> trusted_keys w' = trusted_keys w \<and>
         local_routes w' = local_routes w"
proof -
  let ?w1 = "tcp_server_close w"
  obtain w2 where b: "broadcast_data_to_peers ssl FRAME_HDR_CLOSE [] 0 False None ?w1 = Some w2" "w' = tuntap_close w2"
    using assms by (auto simp: interrupt_program_handler_def Option.bind_eq_Some_conv Let_def)
  have "sends_only ?w1 w2" using b(1) unfolding broadcast_data_to_peers_def by (rule broadcast_from_only)
  then have "map peer_core (peers w2) = map peer_core (peers ?w1)" "trusted_keys w2 = trusted_keys ?w1"
    "local_routes w2 = local_routes ?w1"
    by (simp add: sends_only_def, simp_all add: sends_only_fields)
  then show ?thesis
    by (simp add: b(2) tuntap_close_def sys_close_def tcp_server_close_def Let_def)
qed

lemma no_thread_inv:
  assumes inv: "sys_inv keys \<sigma>" and "map peer_core (peers w') = map peer_core (peers (world \<sigma>))"
    and "trusted_keys w' = trusted_keys (world \<sigma>)" and "local_routes w' = local_routes (world \<sigma>)"
  shows "sys_inv keys (\<sigma>\<lparr>world := w'\<rparr>)"
proof -
  have "sys_inv keys (\<sigma>\<lparr>world := w', tun_thread := tun_thread \<sigma>\<rparr>)"
    using inv assms(4) by (intro sys_inv_core [OF inv assms(2,3)]) (simp_all add: sys_inv_def tables_ok_def)
  then show ?thesis by simp
qed

lemma usr1_only:
  assumes "usr1_handler w = Some w'"
  obtains ls where "w' = w\<lparr>out_lines := ls\<rparr>"
  using assms by (auto simp: usr1_handler_def dump_peers_def Option.bind_eq_Some_conv)

lemma sys_inv_step:
  assumes "pem_text ssl" and "sys_inv keys \<sigma>" and "dstep ssl \<sigma> \<sigma>'"
  shows "sys_inv keys \<sigma>'"
  using assms(3,2,1)
proof (cases rule: dstep.cases)
  case (Connect adr prt s client i w' r)
  then show ?thesis using assms(2) connect_inv by blast
next
  case (Send_key i r ok w')
  then show ?thesis using assms(2) send_key_inv by blast
next
  case (Check_key i r ok r' w')
  then show ?thesis using assms check_key_inv by blast
next
  case (Agree i r ok r' w')
  then show ?thesis using assms(2) agree_inv by blast
next
  case (Frame i r ret r' st res w')
  then show ?thesis using assms(2) frame_inv by blast
next
  case (End_of_stream i r ret r')
  then show ?thesis using assms(2) end_of_stream_inv by blast
next
  case (Disconnect i r)
  then show ?thesis using assms(2) disconnect_inv by blast
next
  case (Tun_packet p v' w')
  then show ?thesis using assms(2) tun_packet_inv by blast
next
  case (Interrupt w')
  then show ?thesis using assms(2) interrupt_only no_thread_inv by blast
next
  case (Dump w')
  from Dump(2) obtain ls where "w' = (world \<sigma>)\<lparr>out_lines := ls\<rparr>" by (rule usr1_only)
  then show ?thesis using Dump(1) assms(2) no_thread_inv [of keys \<sigma> w'] by simp
qed

interpretation daemon_inv: invariant_system "dstep ssl" "\<lambda>\<sigma>. pem_text ssl \<and> sys_inv keys \<sigma>" for ssl keys
  by unfold_locales (auto intro: sys_inv_step)

section \<open>The start\<close>

text \<open>The state in which the threads begin: no connection yet, whatever the stack of the device thread held.\<close>

definition running_start :: "(nat \<Rightarrow> byte) \<Rightarrow> (nat \<Rightarrow> byte) \<Rightarrow> ('k, 'c) daemon \<Rightarrow> ('k, 'c) system" where
  "running_start stale_buf stale_addr w =
     \<lparr>world = w, threads = (\<lambda>_. None), tun_thread = tun_vars_init stale_buf stale_addr\<rparr>"

lemma start_inv:
  assumes "vpnd_start ssl e a w0 = Some (True, w)" and "peers w0 = []" and "local_routes w0 = []"
  shows "sys_inv (trusted_keys w) (running_start sb sa w)"
  using vpnd_start_tables [OF assms(1)] assms(2,3)
  by (simp add: sys_inv_def running_start_def tables_ok_def routes_exclusive_def wf_tun_def tun_vars_init_def wf_route_def)

lemma reachable_inv:
  assumes "pem_text ssl" and "vpnd_start ssl e a w0 = Some (True, w)" and "peers w0 = []" and "local_routes w0 = []"
    and "(dstep ssl)\<^sup>*\<^sup>* (running_start sb sa w) \<sigma>"
  shows "sys_inv (trusted_keys w) \<sigma>"
  using daemon_inv.inv_reachable [OF assms(5), of "trusted_keys w"] start_inv [OF assms(2-4)] assms(1) by blast

lemma dump_defined: "list_all (\<lambda>p. address p \<noteq> Dangling) ps \<Longrightarrow> dump_peers_from le ps \<noteq> None"
proof (induction ps)
  case Nil
  then show ?case by simp
next
  case (Cons p ps)
  then show ?case by (cases "address p") (auto simp: c_str_def)
qed

section \<open>A concrete run, for the witnesses\<close>

text \<open>The start, and one connection.\<close>

lemma demo_start:
  "\<exists>w. vpnd_start toy_ssl demo_env demo_args demo_init = Some (True, w) \<and> trusted_keys w = [False] \<and> mallocs w = []"
  by (simp add: vpnd_start_def demo_env_def demo_args_def demo_init_def load_daemon_privkey_def load_daemon_pubkey_def
      load_trusted_keys_def daemon_config_dir_def join_paths_def malloc_def daemon_init_defs load_rsa_key_def toy_ssl_def
      add_trusted_key_def tuntap_open_def execute_script_def Let_def toy_tag_def)


lemma demo_init_empty: "peers demo_init = []" "local_routes demo_init = []"
  by (simp_all add: demo_init_def daemon_init_defs)

lemma demo_connect:
  assumes "vpnd_start toy_ssl demo_env demo_args demo_init = Some (True, w)" and "mallocs w = []"
  shows "\<exists>\<sigma>. (dstep toy_ssl)\<^sup>*\<^sup>* (running_start (\<lambda>_. 0) (\<lambda>_. 0) w) \<sigma> \<and> length (peers (world \<sigma>)) = 1"
proof -
  let ?p = "fresh_peer (Ptr ''10.0.0.2'') 7 9 False Null" and ?r = "demo_rx []"
  let ?s = "running_start (\<lambda>_. 0) (\<lambda>_. 0) w"
  have ps: "peers w = []" using vpnd_start_tables(1) [OF assms(1)] demo_init_empty by simp
  have "peer_connection ''10.0.0.2'' 7 9 False (world ?s) = Some (Some 0, w\<lparr>peers := [?p]\<rparr>)"
    using assms(2) ps by (simp add: running_start_def peer_connection_def add_peer_def create_peer_ok)
  then have "dstep toy_ssl ?s (?s\<lparr>world := w\<lparr>peers := [?p]\<rparr>, threads := (threads ?s)(0 \<mapsto> (Starting, ?r))\<rparr>)"
    by (rule Connect) (simp add: wf_rx_def demo_rx_ok)
  then show ?thesis by (intro exI conjI, rule r_into_rtranclp) simp_all
qed

section \<open>Properties\<close>



text \<open>C6. In every reachable state the running handlers are free of undefined behaviour: each serving thread
  can receive a frame from whatever its stream holds, and when the frame has a legal size handle it,
  whatever the stack held; a packet of the device shorter than 2048 bytes is routed; and both signal
  handlers are defined.\<close>

theorem reachable_frame_defined:
  assumes "pem_text ssl" and "cbc_sizes ssl" and "vpnd_start ssl e a w0 = Some (True, w)" and "peers w0 = []"
    and "local_routes w0 = []" and "(dstep ssl)\<^sup>*\<^sup>* (running_start sb sa w) \<sigma>"
  shows "(\<forall>i r. threads \<sigma> i = Some (Serving, r) \<longrightarrow>
            (\<exists>ret r'. receive_frame (host_le (world \<sigma>)) r = Some (ret, r') \<and>
               (0 \<le> ret \<and> unat (rx_len r') \<le> FRAME_PAYLOAD_MAXSIZE \<longrightarrow>
                  (\<forall>st. wf_stack st \<longrightarrow>
                     process_frame ssl st i (rx_buf r') (rx_type r') (rx_len r') (world \<sigma>) \<noteq> None)))) \<and>
         (\<forall>p. length p < FRAME_PAYLOAD_MAXSIZE \<longrightarrow> broadcast_packet ssl p (tun_thread \<sigma>) (world \<sigma>) \<noteq> None) \<and>
         interrupt_program_handler ssl (world \<sigma>) \<noteq> None \<and> usr1_handler (world \<sigma>) \<noteq> None"
proof -
  have inv: "sys_inv (trusted_keys w) \<sigma>" using assms(1,3-6) by (rule reachable_inv)
  let ?w = "world \<sigma>"
  have sound: "list_all (peer_sound (trusted_keys w)) (peers ?w)" and v: "wf_tun (tun_thread \<sigma>)"
    using inv by (auto simp: sys_inv_def tables_ok_def)
  then have ctxs: "list_all ctxs_ok (peers ?w)" and adr: "list_all (\<lambda>p. address p \<noteq> Dangling) (peers ?w)"
    by (auto simp: list_all_iff peer_sound_def)
  have "\<exists>ret r'. receive_frame (host_le ?w) r = Some (ret, r') \<and>
               (0 \<le> ret \<and> unat (rx_len r') \<le> FRAME_PAYLOAD_MAXSIZE \<longrightarrow>
                  (\<forall>st. wf_stack st \<longrightarrow> process_frame ssl st i (rx_buf r') (rx_type r') (rx_len r') ?w \<noteq> None))"
    if "threads \<sigma> i = Some (Serving, r)" for i r
  proof -
    have t: "i < length (peers ?w)" "length (rx_buf r) = FRAME_MAXSIZE"
      using inv_thread_ok [OF inv that] by (simp_all add: thread_ok_def wf_rx_def)
    obtain ret r' where f: "receive_frame (host_le ?w) r = Some (ret, r')"
      using receive_frame_result [OF t(2)] by blast
    note buf = receive_frame_keeps [OF f t(2)]
    have "process_frame ssl st i (rx_buf r') (rx_type r') (rx_len r') ?w \<noteq> None"
      if "wf_stack st" "unat (rx_len r') \<le> FRAME_PAYLOAD_MAXSIZE" for st
      using process_frame_safe [OF assms(2) t(1) ctxs that(1) buf that(2), of "rx_type r'"] by auto
    then show ?thesis using f by blast
  qed
  moreover have "broadcast_packet ssl p (tun_thread \<sigma>) ?w \<noteq> None" if "length p < FRAME_PAYLOAD_MAXSIZE" for p
    using broadcast_packet_safe [OF assms(2) ctxs v that] by auto
  moreover have "interrupt_program_handler ssl ?w \<noteq> None"
  proof -
    let ?w1 = "tcp_server_close ?w"
    have "\<exists>w2. broadcast_from ssl FRAME_HDR_CLOSE [] 0 False None [0..<length (peers ?w1)] ?w1 = Some w2 \<and> sends_only ?w1 w2"
      by (rule broadcast_from_defined) auto
    then show ?thesis
      by (auto simp: interrupt_program_handler_def broadcast_data_to_peers_def get_peer_list_def Let_def)
  qed
  moreover have "usr1_handler ?w \<noteq> None"
    using dump_defined [OF adr, of "host_le ?w"] by (auto simp: usr1_handler_def dump_peers_def)
  ultimately show ?thesis by blast
qed

theorem reachable_frame_defined_witness:
  "\<exists>w \<sigma>. (dstep toy_ssl)\<^sup>*\<^sup>* (running_start (\<lambda>_. 0) (\<lambda>_. 0) w) \<sigma> \<and> length (peers (world \<sigma>)) = 1 \<and>
     broadcast_packet toy_ssl demo_packet (tun_thread \<sigma>) (world \<sigma>) \<noteq> None"
proof -
  obtain w where w: "vpnd_start toy_ssl demo_env demo_args demo_init = Some (True, w)" "trusted_keys w = [False]" "mallocs w = []"
    using demo_start by blast
  obtain \<sigma> where s: "(dstep toy_ssl)\<^sup>*\<^sup>* (running_start (\<lambda>_. 0) (\<lambda>_. 0) w) \<sigma>" "length (peers (world \<sigma>)) = 1"
    using demo_connect [OF w(1,3)] by blast
  have "length demo_packet < FRAME_PAYLOAD_MAXSIZE" by (simp add: demo_packet_facts frame_sizes)
  then show ?thesis
    using reachable_frame_defined [OF toy_pem_text toy_cbc_sizes w(1) demo_init_empty s(1)] s by blast
qed

end
