(* ===== verification/Connection_Runs.thy ===== *)
theory Connection_Runs
  imports Connection Daemon_System
begin

text \<open>
  The two models of a connection agree: \<open>connection_thread\<close>, the code's functions called one after the
  other, and the phases of a thread in the transition system \<open>dstep\<close>. A connection that runs
  without interruption is a path of the transition system, so what holds of all reachable states holds
  of what the C functions compute.
\<close>

lemma update_thread [simp]:
  "\<sigma>\<lparr>world := w, threads := t\<rparr>\<lparr>world := w', threads := t'\<rparr> = \<sigma>\<lparr>world := w', threads := t'\<rparr>"
  by simp

text \<open>Receiving does not depend on what the two out-parameters held.\<close>

lemma receive_frame_fields:
  assumes "receive_frame le (r\<lparr>rx_type := t, rx_len := n\<rparr>) = Some (ret, r1)"
  shows "if ret < 0 then \<exists>r2. receive_frame le r = Some (ret, r2) else receive_frame le r = Some (ret, r1)"
proof -
  have f: "rx_buf (r\<lparr>rx_type := t, rx_len := n\<rparr>) = rx_buf r" "rx_in (r\<lparr>rx_type := t, rx_len := n\<rparr>) = rx_in r"
    by simp_all
  obtain ok buf cs where l: "recv_loop 0 FRAME_HEADER_SIZE 0 (rx_buf r) (rx_in r) = Some (ok, buf, cs)"
    using assms unfolding receive_frame_def f by (auto simp: Option.bind_eq_Some_conv)
  show ?thesis
  proof (cases ok)
    case False
    with assms l show ?thesis unfolding receive_frame_def f by auto
  next
    case True
    have "r\<lparr>rx_type := t, rx_len := n\<rparr>\<lparr>rx_buf := b, rx_in := c, rx_type := t', rx_len := n'\<rparr> =
        r\<lparr>rx_buf := b, rx_in := c, rx_type := t', rx_len := n'\<rparr>" for b c t' n'
      by simp
    with assms l True have "receive_frame le r = Some (ret, r1)"
      unfolding receive_frame_def f by simp
    then show ?thesis by simp
  qed
qed

definition thread_at :: "('k, 'c) system \<Rightarrow> nat \<Rightarrow> phase \<Rightarrow> rx \<Rightarrow> ('k, 'c) daemon \<Rightarrow> ('k, 'c) system" where
  "thread_at \<sigma> i ph r w = \<sigma>\<lparr>world := w, threads := (threads \<sigma>)(i \<mapsto> (ph, r))\<rparr>"

lemma thread_at_fields [simp]:
  "world (thread_at \<sigma> i ph r w) = w" "threads (thread_at \<sigma> i ph r w) = (threads \<sigma>)(i \<mapsto> (ph, r))"
  "thread_at (thread_at \<sigma> i ph r w) i ph' r' w' = thread_at \<sigma> i ph' r' w'"
  by (simp_all add: thread_at_def)

lemma serving_run:
  "peer_loop ssl sts i q w = Some (q', w') \<Longrightarrow> (\<forall>k. wf_stack (sts k)) \<Longrightarrow> (\<exists>t n. q = r\<lparr>rx_type := t, rx_len := n\<rparr>) \<Longrightarrow>
     \<exists>r'. (dstep ssl)\<^sup>*\<^sup>* (thread_at \<sigma> i Serving r w) (thread_at \<sigma> i Ended r' w')"
proof (induction ssl sts i q w arbitrary: r rule: peer_loop.induct)
  case (1 ssl sts i q w)
  note unfold = peer_loop.simps [of ssl sts i q w]
  obtain t n where q: "q = r\<lparr>rx_type := t, rx_len := n\<rparr>" using "1.prems"(3) by blast
  obtain ret q1 where f: "receive_frame (host_le w) q = Some (ret, q1)"
    using "1.prems"(1) by (auto simp: unfold split: option.splits)
  note f' = receive_frame_fields [OF f [unfolded q]]
  show ?case
  proof (cases "ret < 0")
    case True
    with f' obtain r2 where "receive_frame (host_le w) r = Some (ret, r2)" by auto
    with True have "dstep ssl (thread_at \<sigma> i Serving r w) (thread_at \<sigma> i Ended r2 w)"
      using End_of_stream [of "thread_at \<sigma> i Serving r w" i r ret r2 ssl] by (simp add: thread_at_def)
    moreover have "w' = w" using True f "1.prems"(1) by (simp add: unfold)
    ultimately show ?thesis by blast
  next
    case False
    with f' have fr: "receive_frame (host_le w) r = Some (ret, q1)" by simp
    obtain res w1 where p: "process_frame ssl (sts 0) i (rx_buf q1) (rx_type q1) (rx_len q1) w = Some (res, w1)"
      using "1.prems"(1) f False by (auto simp: unfold split: option.splits)
    have st: "dstep ssl (thread_at \<sigma> i Serving r w) (thread_at \<sigma> i (if res < 0 then Ended else Serving) q1 w1)"
      using Frame [of "thread_at \<sigma> i Serving r w" i r ret q1 "sts 0" ssl res w1] fr False p "1.prems"(2)
      by (simp add: thread_at_def)
    show ?thesis
    proof (cases "res < 0")
      case True
      then have "w' = w1" using f False p "1.prems"(1) by (simp add: unfold)
      with st True show ?thesis by auto
    next
      case res: False
      have "peer_loop ssl (\<lambda>k. sts (Suc k)) i q1 w1 = Some (q', w')"
        using f False p res "1.prems"(1) by (simp add: unfold)
      from "1.IH" [OF f refl False p refl res this _, of q1] "1.prems"(2) obtain r' where
        "(dstep ssl)\<^sup>*\<^sup>* (thread_at \<sigma> i Serving q1 w1) (thread_at \<sigma> i Ended r' w')"
        by (metis rx.surjective rx.update_convs(2,3))
      with st res show ?thesis by (auto intro: converse_rtranclp_into_rtranclp)
    qed
  qed
qed

lemma authenticate_run:
  assumes "authenticate_peer ssl i r w = Some (ok, r', w')"
  shows "\<exists>r1. (dstep ssl)\<^sup>*\<^sup>* (thread_at \<sigma> i Starting r w) (thread_at \<sigma> i (if ok then Serving else Ended) r1 w') \<and> (ok \<longrightarrow> r1 = r')"
proof -
  obtain ok1 w1 where s1: "send_public_key ssl i w = Some (ok1, w1)"
    using assms by (auto simp: authenticate_peer_def split: Option.bind_splits if_splits)
  have d1: "dstep ssl (thread_at \<sigma> i Starting r w) (thread_at \<sigma> i (if ok1 then Key_sent else Ended) r w1)"
    using Send_key [of "thread_at \<sigma> i Starting r w" i r ssl ok1 w1] s1 by (simp add: thread_at_def)
  show ?thesis
  proof (cases ok1)
    case False
    with assms s1 have "\<not> ok" "w' = w1" by (auto simp: authenticate_peer_def split: if_splits)
    with d1 False show ?thesis by auto
  next
    case ok1: True
    with assms s1 obtain ok2 r1 w2 where s2: "receive_public_key ssl i r w1 = Some (ok2, r1, w2)"
      by (auto simp: authenticate_peer_def split: Option.bind_splits if_splits)
    have d2: "dstep ssl (thread_at \<sigma> i Key_sent r w1) (thread_at \<sigma> i (if ok2 then Key_checked else Ended) r1 w2)"
      using Check_key [of "thread_at \<sigma> i Key_sent r w1" i r ssl ok2 r1 w2] s2 by (simp add: thread_at_def)
    have p2: "(dstep ssl)\<^sup>*\<^sup>* (thread_at \<sigma> i Starting r w) (thread_at \<sigma> i (if ok2 then Key_checked else Ended) r1 w2)"
      using d1 d2 ok1 by auto
    show ?thesis
    proof (cases ok2)
      case False
      with assms s1 ok1 s2 have "\<not> ok" "w' = w2" by (auto simp: authenticate_peer_def split: if_splits)
      with p2 False show ?thesis by auto
    next
      case ok2: True
      with assms s1 ok1 s2 have s3: "agree_on_secrets ssl i r1 w2 = Some (ok, r', w')"
        by (auto simp: authenticate_peer_def split: if_splits)
      have "dstep ssl (thread_at \<sigma> i Key_checked r1 w2) (thread_at \<sigma> i (if ok then Serving else Ended) r' w')"
        using Agree [of "thread_at \<sigma> i Key_checked r1 w2" i r1 ssl ok r' w'] s3 by (simp add: thread_at_def)
      with p2 ok2 have "(dstep ssl)\<^sup>*\<^sup>* (thread_at \<sigma> i Starting r w) (thread_at \<sigma> i (if ok then Serving else Ended) r' w')"
        by (simp only: if_True rtranclp.rtrancl_into_rtrancl)
      then show ?thesis by blast
    qed
  qed
qed

section \<open>Properties\<close>

text \<open>C9. The transition system does what the code does: when a connection's thread has just started and
  the code's functions, called one after the other, take the process to a state \<open>w'\<close>, then the
  transition system reaches \<open>w'\<close> by steps of that thread alone, and the thread is gone.\<close>

theorem connection_is_a_run:
  assumes "threads \<sigma> i = Some (Starting, \<lparr>rx_buf = map hb [0..<FRAME_MAXSIZE], rx_type = 0, rx_len = 0, rx_in = cs\<rparr>)"
    and "connection_thread ssl sts hb i cs (world \<sigma>) = Some w'" and "mallocs (world \<sigma>) = []"
    and "\<forall>k. wf_stack (sts k)"
  shows "(dstep ssl)\<^sup>*\<^sup>* \<sigma> (\<sigma>\<lparr>world := w', threads := (threads \<sigma>)(i := None)\<rparr>)"
proof -
  let ?r = "\<lparr>rx_buf = map hb [0..<FRAME_MAXSIZE], rx_type = 0, rx_len = 0, rx_in = cs\<rparr>" and ?w = "world \<sigma>"
  have start: "thread_at \<sigma> i Starting ?r ?w = \<sigma>"
    using assms(1) by (cases \<sigma>) (simp add: thread_at_def fun_upd_idem)
  obtain ok r1 w2 w1 where a: "authenticate_peer ssl i ?r ?w = Some (ok, r1, w2)"
    and l: "if ok then \<exists>r2. peer_loop ssl sts i (r1\<lparr>rx_type := 0, rx_len := 0\<rparr>) w2 = Some (r2, w1) else w1 = w2"
    and w': "w' = peer_disconnect i w1"
    using assms(2,3)
    by (auto simp: connection_thread_def peer_receive_def Option.bind_eq_Some_conv Let_def malloc_def split: if_splits)
  obtain r2 where "(dstep ssl)\<^sup>*\<^sup>* (thread_at \<sigma> i Starting ?r ?w) (thread_at \<sigma> i (if ok then Serving else Ended) r2 w2)"
    and "ok \<longrightarrow> r2 = r1"
    using authenticate_run [OF a] by blast
  moreover from this(2) l have "\<exists>r3. (dstep ssl)\<^sup>*\<^sup>* (thread_at \<sigma> i (if ok then Serving else Ended) r2 w2) (thread_at \<sigma> i Ended r3 w1)"
  proof (cases ok)
    case True
    have "\<exists>t n. r1\<lparr>rx_type := 0, rx_len := 0\<rparr> = r1\<lparr>rx_type := t, rx_len := n\<rparr>" by blast
    with True l serving_run [OF _ assms(4), of ssl i "r1\<lparr>rx_type := 0, rx_len := 0\<rparr>" w2 _ w1 r1 \<sigma>]
      \<open>ok \<longrightarrow> r2 = r1\<close> show ?thesis by auto
  qed auto
  ultimately obtain r3 where "(dstep ssl)\<^sup>*\<^sup>* \<sigma> (thread_at \<sigma> i Ended r3 w1)" unfolding start by (meson rtranclp_trans)
  moreover have "dstep ssl (thread_at \<sigma> i Ended r3 w1) (\<sigma>\<lparr>world := w', threads := (threads \<sigma>)(i := None)\<rparr>)"
    using Disconnect [of "thread_at \<sigma> i Ended r3 w1" i r3 ssl] by (simp add: thread_at_def w')
  ultimately show ?thesis by (rule rtranclp.rtrancl_into_rtrancl)
qed

definition demo_daemon :: "(bool, byte list) daemon" where
  "demo_daemon = daemon_init\<lparr>peers := [initialize_peer\<lparr>alive := True, sockfd := 4\<rparr>],
     daemon_pubkey := Ptr False, daemon_privkey := Ptr False, trusted_keys := [True]\<rparr>"

definition demo_system :: "(bool, byte list) system" where
  "demo_system = \<lparr>world = demo_daemon,
     threads = [0 \<mapsto> (Starting, \<lparr>rx_buf = map (\<lambda>_. 0) [0..<FRAME_MAXSIZE], rx_type = 0, rx_len = 0, rx_in = demo_stranger\<rparr>)],
     tun_thread = tun_vars_init (\<lambda>_. 0) (\<lambda>_. 0)\<rparr>"

theorem connection_is_a_run_witness:
  "\<exists>w'. (dstep toy_ssl)\<^sup>*\<^sup>* demo_system (demo_system\<lparr>world := w', threads := Map.empty\<rparr>)"
proof -
  have d: "mallocs demo_daemon = []" "host_le demo_daemon" "length (peers demo_daemon) = 1"
    "daemon_pubkey demo_daemon = Ptr False" "daemon_privkey demo_daemon = Ptr False" "trusted_keys demo_daemon = [True]"
    by (simp_all add: demo_daemon_def daemon_init_defs)
  have "rsa_size toy_ssl k = 256" for k by (simp add: toy_ssl_def)
  then have "can_handshake toy_ssl demo_daemon" by (auto simp: can_handshake_def d frame_sizes)
  moreover have "legal_stream (host_le demo_daemon) (concat demo_stranger)"
    using demo_stranger_legal by (simp add: d demo_side_fields)
  moreover have "list_all ctxs_ok (peers demo_daemon)"
    by (simp add: demo_daemon_def ctxs_ok_def initialize_peer_def)
  ultimately obtain w' where r: "connection_thread toy_ssl (\<lambda>_. demo_stack) (\<lambda>_. 0) 0 demo_stranger demo_daemon = Some w'"
    using peer_receive_defined [of demo_daemon demo_stranger toy_ssl 0 "\<lambda>_. demo_stack" "\<lambda>_. 0"] demo_stack_wf
      demo_side_connection(5) d(3)
    by (auto simp: connection_thread_def)
  have "(dstep toy_ssl)\<^sup>*\<^sup>* demo_system (demo_system\<lparr>world := w', threads := (threads demo_system)(0 := None)\<rparr>)"
    by (rule connection_is_a_run [where hb = "\<lambda>_. 0" and cs = demo_stranger and sts = "\<lambda>_. demo_stack"])
      (simp_all add: demo_system_def r d demo_stack_wf)
  moreover have "(threads demo_system)(0 := None) = Map.empty" by (simp add: demo_system_def)
  ultimately show ?thesis by auto
qed

end
