(* ===== verification/Races.thy ===== *)
theory Races
  imports Daemon_System
begin

text \<open>
  What two threads can do to the peer table between two statements of a third: the program has no lock
  for it. The steps of \<open>Daemon_System\<close> are whole handlers; here three functions are cut where another
  thread can run, the cut halves are shown to compose to the function, and the interleavings that
  break what the whole functions keep are worked out.
\<close>

section \<open>The end of a connection, cut in two\<close>

definition mark_dead :: "nat \<Rightarrow> ('k, 'c, 'a) peer_state_scheme \<Rightarrow> ('k, 'c, 'a) peer_state_scheme" where
  "mark_dead i w = w\<lparr>peers := (peers w)[i := (peers w ! i)\<lparr>alive := False\<rparr>]\<rparr>"

definition close_slot :: "nat \<Rightarrow> ('k, 'c, 'a) peer_state_scheme \<Rightarrow> ('k, 'c, 'a) peer_state_scheme" where
  "close_slot i w = sys_close (sockfd (peers w ! i)) w"

lemma peer_disconnect_halves: "peer_disconnect i w = close_slot i (mark_dead i w)"
  by (simp add: peer_disconnect_def mark_dead_def close_slot_def Let_def)

text \<open>The slot of a connection that ends is the one the next connection gets.\<close>

lemma reused_slot:
  assumes "list_all alive ps" and "i < length ps" and "\<not> alive p"
  shows "find_index (\<lambda>p. alive p = False) (ps[i := p]) = Some i"
proof -
  have "takeWhile alive (ps[i := p]) = take i ps"
    using assms by (simp add: upd_conv_take_nth_drop takeWhile_tail takeWhile_append2 list_all_length in_set_conv_nth)
      (metis (no_types, lifting) append.right_neutral in_set_takeD list_all_iff assms(1) takeWhile_append2 takeWhile.simps(1))
  moreover have "\<not> list_all alive (ps[i := p])" using assms(2,3) by (auto simp: list_all_length)
  ultimately show ?thesis using find_dead_slot [of "ps[i := p]"] assms(2) by simp
qed

section \<open>Learning an address, cut in two\<close>

text \<open>The source address of the packet and whether no connected peer has it; then adding it.\<close>

definition check_route ::
  "byte list \<Rightarrow> netroute \<Rightarrow> ('k, 'c, 'a) peer_state_scheme \<Rightarrow> (netroute \<times> bool) option" where
  "check_route packet_data route w =
     do {
       route \<leftarrow> parse_packet_addr (host_le w) (tuntap_tap_mode w) packet_data route True;
       Some (route, get_peer_route route w = None)
     }"

definition learn_route ::
  "nat \<Rightarrow> netroute \<Rightarrow> ('k, 'c, 'a) peer_state_scheme \<Rightarrow> ('k, 'c, 'a) peer_state_scheme" where
  "learn_route i route w =
     (case add_netroute route (peer_routes (peers w ! i)) w of
        (rs, w') \<Rightarrow> set_peer i ((peers w ! i)\<lparr>peer_routes := rs\<rparr>) w')"

lemma deliver_local_halves:
  "deliver_local i packet_data len route w =
     do {
       (route, missing) \<leftarrow> check_route packet_data route w;
       packet \<leftarrow> mem_read packet_data 0 (unat len);
       Some (snd (tuntap_write packet (if missing then learn_route i route w else w)))
     }"
  unfolding deliver_local_def check_route_def learn_route_def [abs_def] Let_def
  by (cases "parse_packet_addr (host_le w) (tuntap_tap_mode w) packet_data route True") simp_all

lemma learn_route_result:
  assumes "mallocs w = []"
  shows "learn_route i r w = set_peer i ((peers w ! i)\<lparr>peer_routes := append_route r (peer_routes (peers w ! i))\<rparr>) w"
  using assms by (simp add: learn_route_def add_netroute_def)

lemma get_peer_route_learned:
  assumes "mallocs w = []" and "i < length (peers w)" and "alive (peers w ! i)" and "route_key r = route_key s"
  shows "get_peer_route s (learn_route i r w) \<noteq> None"
proof -
  have k: "route_known s (append_route r (peer_routes (peers w ! i)))"
    using assms(4) by (simp add: route_known_key route_keys_def append_route_def)
  have "peers (learn_route i r w) ! i = (peers w ! i)\<lparr>peer_routes := append_route r (peer_routes (peers w ! i))\<rparr>"
    "i < length (peers (learn_route i r w))"
    using assms(1,2) by (simp_all add: learn_route_result set_peer_def)
  then have "alive (peers (learn_route i r w) ! i)" "route_known s (peer_routes (peers (learn_route i r w) ! i))"
    "peers (learn_route i r w) ! i \<in> set (peers (learn_route i r w))"
    using k assms(3) nth_mem by (simp, simp, metis)
  then show ?thesis unfolding get_peer_route_None by blast
qed

section \<open>Sending, cut before the lock\<close>

text \<open>
  \<open>send_data_to_peer\<close> looks at the peer and encrypts, and only then takes the mutex of the slot and
  writes to the socket it finds there.
\<close>

definition prepare_send ::
  "('k, 'c) openssl \<Rightarrow> byte list \<Rightarrow> u32 \<Rightarrow> bool \<Rightarrow> nat \<Rightarrow> ('k, 'c, 'a) peer_state_scheme
     \<Rightarrow> ((byte list \<times> u32) option \<times> ('k, 'c, 'a) peer_state_scheme) option" where
  "prepare_send ssl data data_len encrypt i w =
     (if \<not> i < length (peers w) then None
      else if \<not> alive (peers w ! i) then Some (None, w)
      else if \<not> encrypt then Some (Some (data, data_len), w)
      else if \<not> authenticated (peers w ! i) then Some (None, w)
      else
        do {
          ctx \<leftarrow> cderef (enc_ctx (peers w ! i));
          (enc_len, ctx', enc_data) \<leftarrow> aes_encrypt ssl ctx data data_len (replicate FRAME_PAYLOAD_MAXSIZE 0);
          let w1 = w\<lparr>peers := (peers w)[i := (peers w ! i)\<lparr>enc_ctx := Ptr ctx'\<rparr>]\<rparr>;
          Some (if enc_len < 0 then None else Some (enc_data, of_int enc_len), w1)
        })"

definition write_out ::
  "byte \<Rightarrow> byte list \<Rightarrow> u32 \<Rightarrow> nat \<Rightarrow> ('k, 'c, 'a) peer_state_scheme \<Rightarrow> ('k, 'c, 'a) peer_state_scheme option" where
  "write_out t data data_len i w = put_frame (sockfd (peers w ! i)) t data data_len w"

lemma send_data_halves:
  "send_data_to_peer ssl t data data_len encrypt i w =
     do {
       (todo, w1) \<leftarrow> prepare_send ssl data data_len encrypt i w;
       case todo of None \<Rightarrow> Some w1 | Some (d, n) \<Rightarrow> write_out t d n i w1
     }"
  unfolding send_data_to_peer_def prepare_send_def write_out_def Let_def
  by (auto split: Option.bind_split)

lemma prepare_send_result:
  assumes "i < length (peers w)" and "alive (peers w ! i)" and "authenticated (peers w ! i)"
    and "enc_ctx (peers w ! i) = Ptr c" and "evp_enc_run ssl c (take (unat n) data) = Some (c', ct)"
    and "unat n \<le> length data" and "unat n < 2 ^ 31" and "length ct \<le> FRAME_PAYLOAD_MAXSIZE"
  shows "prepare_send ssl data n True i w =
           Some (Some (ct @ drop (length ct) (replicate FRAME_PAYLOAD_MAXSIZE 0), of_nat (length ct)),
             set_peer i ((peers w ! i)\<lparr>enc_ctx := Ptr c'\<rparr>) w)"
  using assms aes_encrypt_run [OF assms(5,7,6), of "replicate FRAME_PAYLOAD_MAXSIZE 0"]
  by (simp add: prepare_send_def set_peer_def)

section \<open>Properties\<close>

text \<open>C23. Between the two statements that end a connection the accepting thread can give the slot to a new
  connection. Then the new connection's socket is closed while its slot is alive and uses it, and the
  old connection's socket is never closed; when the statements run together it is the other way round.\<close>

theorem disconnect_race:
  assumes "list_all alive (peers w)" and "i < length (peers w)" and "no_dangling (peers w ! i)" and "mallocs w = []"
  shows "(\<exists>w1. add_peer adr prt s client (mark_dead i w) = Some (Some i, w1) \<and>
            alive (peers (close_slot i w1) ! i) \<and> sockfd (peers (close_slot i w1) ! i) = s \<and>
            closed (close_slot i w1) = closed w @ [s]) \<and>
         (\<exists>w2. add_peer adr prt s client (peer_disconnect i w) = Some (Some i, w2) \<and>
            alive (peers w2 ! i) \<and> sockfd (peers w2 ! i) = s \<and> closed w2 = closed w @ [sockfd (peers w ! i)])"
proof -
  let ?p = "(peers w ! i)\<lparr>alive := False\<rparr>" and ?ps = "(peers w)[i := (peers w ! i)\<lparr>alive := False\<rparr>]"
  have slot: "find_index (\<lambda>p. alive p = False) ?ps = Some i" using reused_slot [OF assms(1,2)] by simp
  have nd: "no_dangling ?p" using assms(3) by (simp add: no_dangling_def)
  show ?thesis
    using assms(2,4) slot nd
    by (simp add: add_peer_def mark_dead_def close_slot_def peer_disconnect_def sys_close_def Let_def set_peer_info_result
        fresh_peer_def)
qed

theorem disconnect_race_witness:
  "\<exists>w1. add_peer ''10.0.0.9'' 7 11 False (mark_dead 0 demo_world) = Some (Some 0, w1) \<and>
     sockfd (peers (close_slot 0 w1) ! 0) = 11 \<and> closed (close_slot 0 w1) = [11]"
proof -
  have "no_dangling demo_peer" by (simp add: no_dangling_def demo_peer_def initialize_peer_def)
  moreover have "closed demo_world = []"
    by (simp add: demo_world_def peer_state_init_def key_init_def iface_init_def cfg_init_def log_init_def
      os_init_def os.defs log_state.defs cfg_state.defs iface_state.defs key_state.defs)
  ultimately show ?thesis
    using disconnect_race [of demo_world 0 "''10.0.0.9''" 7 11 False] by (auto simp: demo_world_fields demo_peer_fields)
qed

text \<open>Two threads that handle packets from the same new address can both find it unknown before either
  adds it. Then the address belongs to two connected peers, and what one of them sends to it goes to
  the other; when the second looks after the first has added it, it finds it.\<close>

theorem learning_race:
  assumes "check_route pk stale w = Some (r, True)" and "check_route pk' stale' w = Some (r', True)"
    and "route_key r = route_key r'" and "i \<noteq> j" and "i < length (peers w)" and "j < length (peers w)"
    and "alive (peers w ! i)" and "alive (peers w ! j)" and "mallocs w = []"
  shows "\<not> routes_exclusive (peers (learn_route j r' (learn_route i r w))) \<and>
         check_route pk' stale' (learn_route i r w) = Some (r', False)"
proof -
  let ?w = "learn_route i r w" and ?w2 = "learn_route j r' (learn_route i r w)"
  have e: "host_le ?w = host_le w" "tuntap_tap_mode ?w = tuntap_tap_mode w" "mallocs ?w = []"
    using assms(9) by (simp_all add: learn_route_result set_peer_def tuntap_tap_mode_def)
  have "get_peer_route r' ?w \<noteq> None"
    using assms(9,5,7,3) by (rule get_peer_route_learned)
  then have second: "check_route pk' stale' ?w = Some (r', False)"
    using assms(2) by (auto simp: check_route_def e Option.bind_eq_Some_conv)
  let ?ps = "peers ?w2"
  have ps: "length ?ps = length (peers w)" "alive (?ps ! i)" "alive (?ps ! j)"
    "route_key r \<in> route_keys (peer_routes (?ps ! i))" "route_key r \<in> route_keys (peer_routes (?ps ! j))"
    using assms(3-9) e(3)
    by (simp_all add: learn_route_result set_peer_def route_keys_def append_route_def)
  then have "\<not> routes_exclusive ?ps"
    using assms(4-6) unfolding routes_exclusive_def by auto
  with second show ?thesis by simp
qed

definition race_world :: "(bool, byte list) peer_state" where
  "race_world = demo_world\<lparr>peers := [demo_peer, demo_peer\<lparr>sockfd := 5\<rparr>]\<rparr>"

theorem learning_race_witness:
  "\<exists>r. check_route demo_packet (stale_route demo_stack) race_world = Some (r, True) \<and>
     \<not> routes_exclusive (peers (learn_route 1 r (learn_route 0 r race_world)))"
proof -
  have f: "length (peers race_world) = 2" "alive (peers race_world ! 0)" "alive (peers race_world ! 1)" "mallocs race_world = []"
    by (simp_all add: race_world_def demo_peer_fields demo_world_fields)
  obtain r where r: "check_route demo_packet (stale_route demo_stack) race_world = Some (r, True)"
  proof -
    obtain r where "parse_packet_addr True False demo_packet (stale_route demo_stack) True = Some r"
      using parse_packet_addr_cases [of demo_packet "stale_route demo_stack" True False True] demo_stack_wf
      by (auto simp: demo_packet_facts HEADER_SPAN_def)
    moreover have "host_le race_world" "tuntap_tap_mode race_world = False"
      by (simp_all add: race_world_def demo_world_fields tuntap_tap_mode_def)
    moreover have "get_peer_route r race_world = None" for r
      by (simp add: get_peer_route_None race_world_def demo_peer_fields)
    ultimately show thesis using that by (simp add: check_route_def)
  qed
  show ?thesis using learning_race [OF r r refl, of 0 1] f r by auto
qed

text \<open>C24. A packet for one peer can go to another connection: when the connection ends and its slot is given
  to a new one after the sender has looked and encrypted, and before it writes, the frame under the old
  connection's key is the first thing on the new socket, although the new peer is not authenticated;
  and whoever is at the other end fails its handshake on it.\<close>

theorem stale_send_race:
  assumes "list_all alive (peers w)" and "i < length (peers w)" and "no_dangling (peers w ! i)" and "mallocs w = []"
    and "authenticated (peers w ! i)" and "enc_ctx (peers w ! i) = Ptr c" and "send_good w"
    and "evp_enc_run ssl c (take (unat n) data) = Some (c', ct)" and "unat n \<le> length data" and "unat n < 2 ^ 31"
    and "length ct \<le> FRAME_PAYLOAD_MAXSIZE" and "wire w s = []" and "s \<noteq> sockfd (peers w ! i)"
  shows "\<exists>d m w0 w1 w2. prepare_send ssl data n True i w = Some (Some (d, m), w0) \<and>
           add_peer adr prt s client (peer_disconnect i w0) = Some (Some i, w1) \<and> \<not> authenticated (peers w1 ! i) \<and>
           write_out FRAME_HDR_NETPACKET d m i w1 = Some w2 \<and>
           wire w2 (sockfd (peers w ! i)) = wire w (sockfd (peers w ! i)) \<and>
           wire w2 s = wire_frame (host_le w) FRAME_HDR_NETPACKET ct \<and>
           (\<forall>r v j rest. length (rx_buf r) = FRAME_MAXSIZE \<longrightarrow> chunks_ok (rx_in r) \<longrightarrow> host_le v = host_le w \<longrightarrow>
              concat (rx_in r) = wire w2 s @ rest \<longrightarrow> (\<exists>r'. receive_public_key ssl j r v = Some (False, r', v)))"
proof -
  let ?p = "(peers w ! i)\<lparr>enc_ctx := Ptr c', alive := False\<rparr>" and ?w0 = "set_peer i ((peers w ! i)\<lparr>enc_ctx := Ptr c'\<rparr>) w"
  let ?d = "ct @ drop (length ct) (replicate FRAME_PAYLOAD_MAXSIZE 0)" and ?m = "of_nat (length ct) :: u32"
  have alive: "alive (peers w ! i)" using assms(1,2) by (simp add: list_all_length)
  have um: "unat ?m = length ct" using assms(11) by (simp add: unat_of_nat frame_sizes)
  have prep: "prepare_send ssl data n True i w = Some (Some (?d, ?m), ?w0)"
    using prepare_send_result [OF assms(2) alive assms(5,6,8-11)] .
  let ?new = "fresh_peer (Ptr adr) prt s client (if dec_ctx ?p = Null then Null else Dangling)"
  define w1 where "w1 = (peer_disconnect i ?w0)\<lparr>peers := (peers w)[i := ?new]\<rparr>"
  have "no_dangling ?p" using assms(3) by (simp add: no_dangling_def)
  then have add: "add_peer adr prt s client (peer_disconnect i ?w0) = Some (Some i, w1)"
    using assms(2,4) reused_slot [OF assms(1,2), of ?p]
    by (simp add: add_peer_def w1_def peer_disconnect_def sys_close_def set_peer_def Let_def set_peer_info_result)
  have f: "peers w1 ! i = ?new" "send_good w1" "host_le w1 = host_le w" "wire w1 = wire w"
    using assms(2,7) by (simp_all add: w1_def peer_disconnect_def sys_close_def set_peer_def Let_def send_good_def)
  obtain w2 where w2: "write_out FRAME_HDR_NETPACKET ?d ?m i w1 = Some w2"
    "wire w2 = (wire w)(s := wire_frame (host_le w) FRAME_HDR_NETPACKET ct)"
    using put_frame_result [of ?m ?d s FRAME_HDR_NETPACKET w1] f um assms(12)
    by (auto simp: write_out_def fresh_peer_def frame_bytes_def)
  have "\<exists>r'. receive_public_key ssl j r v = Some (False, r', v)"
    if r: "length (rx_buf r) = FRAME_MAXSIZE" "chunks_ok (rx_in r)" "host_le v = host_le w"
      "concat (rx_in r) = wire w2 s @ rest" for r v j rest
    using receive_exact [of "r\<lparr>rx_type := 0, rx_len := 0\<rparr>" "host_le w" FRAME_HDR_NETPACKET ct rest] r assms(11) w2(2)
    by (auto simp: receive_public_key_def FRAME_HDR_AUTH_def FRAME_HDR_NETPACKET_def)
  then show ?thesis
    using prep add w2 f(1) assms(13)
    by - (rule exI [of _ ?d], rule exI [of _ ?m], rule exI [of _ ?w0], rule exI [of _ w1],
        rule exI [of _ w2], simp add: fresh_peer_def, blast)
qed

theorem stale_send_race_witness:
  "\<exists>d m w0 w1 w2. prepare_send toy_ssl demo_packet 44 True 0 demo_world = Some (Some (d, m), w0) \<and>
     add_peer ''10.0.0.9'' 7 11 False (peer_disconnect 0 w0) = Some (Some 0, w1) \<and>
     write_out FRAME_HDR_NETPACKET d m 0 w1 = Some w2 \<and>
     wire w2 11 = wire_frame True FRAME_HDR_NETPACKET (demo_packet @ toy_pad demo_packet) \<and>
     (\<exists>r'. receive_public_key toy_ssl 0 (demo_rx [wire w2 11]) (demo_side False True False) =
        Some (False, r', demo_side False True False))"
proof -
  have w: "list_all alive (peers demo_world)" "0 < length (peers demo_world)" "no_dangling (peers demo_world ! 0)"
    "mallocs demo_world = []" "authenticated (peers demo_world ! 0)" "enc_ctx (peers demo_world ! 0) = Ptr []" "send_good demo_world"
    by (simp_all add: demo_world_fields demo_peer_fields send_good_def no_dangling_def demo_peer_def initialize_peer_def)
  have u: "unat (44 :: u32) = 44" by simp
  have run: "evp_enc_run toy_ssl [] (take (unat (44 :: u32)) demo_packet) = Some ([], demo_packet @ toy_pad demo_packet)"
    unfolding u by (simp add: toy_enc_run demo_packet_facts)
  have n: "unat (44 :: u32) \<le> length demo_packet" "unat (44 :: u32) < 2 ^ 31"
    unfolding u by (simp_all add: demo_packet_facts)
  have ct: "length (demo_packet @ toy_pad demo_packet) \<le> FRAME_PAYLOAD_MAXSIZE"
    by (simp add: demo_packet_facts toy_pad_def frame_sizes)
  have s: "wire demo_world 11 = []" "11 \<noteq> sockfd (peers demo_world ! 0)" by (simp_all add: demo_world_fields demo_peer_fields)
  have c: "chunks_ok (rx_in (demo_rx [wire_frame True FRAME_HDR_NETPACKET (demo_packet @ toy_pad demo_packet)]))"
    by (simp add: demo_rx_ok frame_bytes_def frame_header_def)
  let ?r = "demo_rx [wire_frame True FRAME_HDR_NETPACKET (demo_packet @ toy_pad demo_packet)]"
  obtain d m w0 w1 w2 where race: "prepare_send toy_ssl demo_packet 44 True 0 demo_world = Some (Some (d, m), w0)"
    "add_peer ''10.0.0.9'' 7 11 False (peer_disconnect 0 w0) = Some (Some 0, w1)"
    "write_out FRAME_HDR_NETPACKET d m 0 w1 = Some w2"
    and new: "wire w2 11 = wire_frame True FRAME_HDR_NETPACKET (demo_packet @ toy_pad demo_packet)"
    and fails: "\<And>r v j rest. length (rx_buf r) = FRAME_MAXSIZE \<Longrightarrow> chunks_ok (rx_in r) \<Longrightarrow>
      host_le (v :: (bool, byte list) peer_state) = host_le demo_world \<Longrightarrow>
      concat (rx_in r) = wire w2 11 @ rest \<Longrightarrow> \<exists>r'. receive_public_key toy_ssl j r v = Some (False, r', v)"
    using stale_send_race [OF w run n ct s, of "''10.0.0.9''" 7 False] unfolding demo_world_fields(4) [THEN eqTrueI] by blast
  have "\<exists>r'. receive_public_key toy_ssl 0 ?r (demo_side False True False) = Some (False, r', demo_side False True False)"
    using c by (intro fails [of _ _ "[]"]) (simp_all add: demo_rx_ok demo_side_fields demo_world_fields new)
  with race new show ?thesis by auto
qed

end
