(* ===== verification/Locks.thy ===== *)
theory Locks
  imports Daemon
begin

text \<open>
  The mutexes of the program: \<open>logger_mutex\<close> around the lines of \<open>logger\<close> (\<open>src/logger.c\<close>),
  \<open>tuntap_mutex\<close> around the loop of \<open>tuntap_write\<close> (\<open>src/interface.c\<close>), and the mutex of each peer around
  the two loops of \<open>send_data_to_peer\<close> (\<open>src/peer_net.c\<close>). Each guards one output, and what is done under
  it is a list of segments, each written until it is out or a call fails.

  Elsewhere in the development such a section is one step. Here it is taken apart into the calls of the
  kernel, and the threads interleave between them. The properties are that the abstraction is right
  (a section is a run, and what the runs leave behind is a sequence of sections), and what a signal
  does that arrives inside one.
\<close>

section \<open>Threads and mutexes\<close>

datatype lock = Logger_mutex | Tuntap_mutex | Peer_mutex nat

text \<open>
  A thread is a stack: the sections it is in or waits for, the innermost first. A section is entered
  inside another when a failed \<open>send\<close> is logged, and by a signal handler.
\<close>

datatype task = Wait lock "byte list list" | Hold lock "byte list list"

record mutexes =
  owner :: "lock \<Rightarrow> nat option"
  out :: "lock \<Rightarrow> byte list"
  stack :: "nat \<Rightarrow> task list"

text \<open>
  The steps; \<open>jobs l\<close> are the sections the program has for a lock, \<open>rel\<close> says that no call fails. A call
  takes any positive number of bytes; one that fails ends its loop, and the next segment follows.
\<close>

inductive mstep :: "bool \<Rightarrow> (lock \<Rightarrow> byte list list \<Rightarrow> bool) \<Rightarrow> mutexes \<Rightarrow> mutexes \<Rightarrow> bool" for rel jobs where
  Call: "jobs l segs \<Longrightarrow> mstep rel jobs \<sigma> (\<sigma>\<lparr>stack := (stack \<sigma>)(t := Wait l segs # stack \<sigma> t)\<rparr>)"
| Acquire:
    "stack \<sigma> t = Wait l segs # rest \<Longrightarrow> owner \<sigma> l = None \<Longrightarrow>
     mstep rel jobs \<sigma> (\<sigma>\<lparr>owner := (owner \<sigma>)(l \<mapsto> t), stack := (stack \<sigma>)(t := Hold l segs # rest)\<rparr>)"
| Write:
    "stack \<sigma> t = Hold l (s # segs) # rest \<Longrightarrow> 0 < n \<Longrightarrow> n \<le> length s \<Longrightarrow>
     mstep rel jobs \<sigma> (\<sigma>\<lparr>out := (out \<sigma>)(l := out \<sigma> l @ take n s),
                       stack := (stack \<sigma>)(t := Hold l (drop n s # segs) # rest)\<rparr>)"
| Next:
    "stack \<sigma> t = Hold l (s # segs) # rest \<Longrightarrow> s = [] \<or> \<not> rel \<Longrightarrow>
     mstep rel jobs \<sigma> (\<sigma>\<lparr>stack := (stack \<sigma>)(t := Hold l segs # rest)\<rparr>)"
| Release:
    "stack \<sigma> t = Hold l [] # rest \<Longrightarrow>
     mstep rel jobs \<sigma> (\<sigma>\<lparr>owner := (owner \<sigma>)(l := None), stack := (stack \<sigma>)(t := rest)\<rparr>)"

definition idle :: mutexes where
  "idle = \<lparr>owner = (\<lambda>_. None), out = (\<lambda>_. []), stack = (\<lambda>_. [])\<rparr>"

text \<open>What a section may put out: a prefix of each segment; the whole of it when no call fails.\<close>

fun emits :: "bool \<Rightarrow> byte list list \<Rightarrow> byte list \<Rightarrow> bool" where
  "emits rel [] p \<longleftrightarrow> p = []"
| "emits rel (s # segs) p \<longleftrightarrow>
     (\<exists>n \<le> length s. (rel \<longrightarrow> n = length s) \<and> (\<exists>q. p = take n s @ q \<and> emits rel segs q))"

lemma emits_whole: "emits True segs p \<longleftrightarrow> p = concat segs"
  by (induction segs arbitrary: p) auto

lemma emits_mono: "emits rel segs p \<Longrightarrow> emits False segs p"
  by (induction segs arbitrary: p) fastforce+

lemma emits_concat: "emits rel segs (concat segs)"
proof (induction segs)
  case Nil
  then show ?case by simp
next
  case (Cons s segs)
  then show ?case by (auto intro!: exI [of _ "length s"] exI [of _ "concat segs"])
qed

lemma emits_pair:
  "emits rel [h, d] p \<longleftrightarrow>
     (\<exists>n m. n \<le> length h \<and> m \<le> length d \<and> (rel \<longrightarrow> n = length h \<and> m = length d) \<and> p = take n h @ take m d)"
  by auto

lemma emits_drop:
  "n \<le> length s \<Longrightarrow> emits rel (drop n s # segs) p \<Longrightarrow> emits rel (s # segs) (take n s @ p)"
proof -
  assume n: "n \<le> length s" and e: "emits rel (drop n s # segs) p"
  then obtain m q where m: "m \<le> length (drop n s)" "rel \<longrightarrow> m = length (drop n s)" "p = take m (drop n s) @ q" "emits rel segs q"
    by auto
  then show ?thesis
    using n by (auto simp: take_add intro!: exI [of _ "n + m"] exI [of _ q])
qed

section \<open>A section run alone\<close>

text \<open>Whatever a section may put out, the steps of one thread put it out.\<close>

definition in_section :: "mutexes \<Rightarrow> nat \<Rightarrow> lock \<Rightarrow> byte list list \<Rightarrow> byte list \<Rightarrow> mutexes" where
  "in_section \<sigma> t l segs p = \<sigma>\<lparr>owner := (owner \<sigma>)(l \<mapsto> t), out := (out \<sigma>)(l := out \<sigma> l @ p),
     stack := (stack \<sigma>)(t := Hold l segs # stack \<sigma> t)\<rparr>"

definition after_section :: "mutexes \<Rightarrow> lock \<Rightarrow> byte list \<Rightarrow> mutexes" where
  "after_section \<sigma> l p = \<sigma>\<lparr>out := (out \<sigma>)(l := out \<sigma> l @ p)\<rparr>"

lemma section_entered:
  assumes "jobs l segs" and "owner \<sigma> l = None"
  shows "(mstep rel jobs)\<^sup>*\<^sup>* \<sigma> (in_section \<sigma> t l segs [])"
proof -
  have "mstep rel jobs \<sigma> (\<sigma>\<lparr>stack := (stack \<sigma>)(t := Wait l segs # stack \<sigma> t)\<rparr>)" using assms(1) by (rule Call)
  moreover have "mstep rel jobs (\<sigma>\<lparr>stack := (stack \<sigma>)(t := Wait l segs # stack \<sigma> t)\<rparr>) (in_section \<sigma> t l segs [])"
    using Acquire [of "\<sigma>\<lparr>stack := (stack \<sigma>)(t := Wait l segs # stack \<sigma> t)\<rparr>" t l segs "stack \<sigma> t" rel jobs] assms(2)
    by (simp add: in_section_def)
  ultimately show ?thesis by auto
qed

lemma section_segment:
  assumes "n \<le> length s" and "rel \<longrightarrow> n = length s"
  shows "(mstep rel jobs)\<^sup>*\<^sup>* (in_section \<sigma> t l (s # segs) q) (in_section \<sigma> t l segs (q @ take n s))"
proof -
  have w: "(mstep rel jobs)\<^sup>*\<^sup>* (in_section \<sigma> t l (s # segs) q) (in_section \<sigma> t l (drop n s # segs) (q @ take n s))"
  proof (cases "n = 0")
    case False
    then have "mstep rel jobs (in_section \<sigma> t l (s # segs) q) (in_section \<sigma> t l (drop n s # segs) (q @ take n s))"
      using Write [of "in_section \<sigma> t l (s # segs) q" t l s segs "stack \<sigma> t" n rel jobs] assms(1)
      by (simp add: in_section_def)
    then show ?thesis by blast
  qed simp
  have "drop n s = [] \<or> \<not> rel" using assms(2) by auto
  then have "mstep rel jobs (in_section \<sigma> t l (drop n s # segs) (q @ take n s)) (in_section \<sigma> t l segs (q @ take n s))"
    using Next [of "in_section \<sigma> t l (drop n s # segs) (q @ take n s)" t l "drop n s" segs "stack \<sigma> t" rel jobs]
    by (simp add: in_section_def)
  with w show ?thesis by (rule rtranclp.rtrancl_into_rtrancl)
qed

lemma in_section_run:
  "emits rel segs p \<Longrightarrow> owner \<sigma> l = None \<Longrightarrow>
     (mstep rel jobs)\<^sup>*\<^sup>* (in_section \<sigma> t l segs q) (after_section \<sigma> l (q @ p))"
proof (induction segs arbitrary: p q)
  case Nil
  then have "mstep rel jobs (in_section \<sigma> t l [] q) (after_section \<sigma> l (q @ p))"
    using Release [of "in_section \<sigma> t l [] q" t l "stack \<sigma> t" rel jobs]
    by (simp add: in_section_def after_section_def fun_upd_idem)
  then show ?case by blast
next
  case (Cons s segs)
  then obtain n r where n: "n \<le> length s" "rel \<longrightarrow> n = length s" and p: "p = take n s @ r" and e: "emits rel segs r"
    by auto
  have "(mstep rel jobs)\<^sup>*\<^sup>* (in_section \<sigma> t l segs (q @ take n s)) (after_section \<sigma> l ((q @ take n s) @ r))"
    using Cons.IH [OF e Cons.prems(2)] .
  with section_segment [OF n] show ?case unfolding p by (simp only: append_assoc) (rule rtranclp_trans)
qed

lemma section_run:
  assumes "jobs l segs" and "emits rel segs p" and "owner \<sigma> l = None"
  shows "(mstep rel jobs)\<^sup>*\<^sup>* \<sigma> (after_section \<sigma> l p)"
proof -
  fix t
  have "(mstep rel jobs)\<^sup>*\<^sup>* \<sigma> (in_section \<sigma> t l segs [])" using assms(1,3) by (rule section_entered)
  also have "(mstep rel jobs)\<^sup>*\<^sup>* (in_section \<sigma> t l segs []) (after_section \<sigma> l ([] @ p))"
    using assms(2,3) by (rule in_section_run)
  finally show ?thesis by simp
qed

section \<open>Mutual exclusion\<close>

fun holds :: "lock \<Rightarrow> task \<Rightarrow> bool" where
  "holds l (Hold k segs) \<longleftrightarrow> k = l"
| "holds l (Wait k segs) \<longleftrightarrow> False"

fun held :: "lock \<Rightarrow> task list \<Rightarrow> nat" where
  "held l [] = 0"
| "held l (task # tasks) = of_bool (holds l task) + held l tasks"

lemma held_0: "held l tasks = 0 \<longleftrightarrow> (\<forall>segs. Hold l segs \<notin> set tasks)"
  by (induction l tasks rule: held.induct) (auto elim: holds.elims)

fun ready :: "(lock \<Rightarrow> byte list list \<Rightarrow> bool) \<Rightarrow> task \<Rightarrow> bool" where
  "ready jobs (Wait l segs) \<longleftrightarrow> jobs l segs"
| "ready jobs (Hold l segs) \<longleftrightarrow> True"

text \<open>A lock is in use once, by its owner; what has been written so far is whole sections and a piece.\<close>

definition exclusive :: "mutexes \<Rightarrow> bool" where
  "exclusive \<sigma> \<longleftrightarrow> (\<forall>t l. held l (stack \<sigma> t) = of_bool (owner \<sigma> l = Some t))"

definition written ::
  "bool \<Rightarrow> (lock \<Rightarrow> byte list list \<Rightarrow> bool) \<Rightarrow> mutexes \<Rightarrow> lock \<Rightarrow> byte list list \<Rightarrow> byte list \<Rightarrow> bool" where
  "written rel jobs \<sigma> l ps q \<longleftrightarrow>
     (\<forall>p \<in> set ps. \<exists>segs. jobs l segs \<and> emits rel segs p) \<and> out \<sigma> l = concat ps @ q \<and>
     (case owner \<sigma> l of None \<Rightarrow> q = []
      | Some t \<Rightarrow> \<forall>segs'. Hold l segs' \<in> set (stack \<sigma> t) \<longrightarrow>
          (\<exists>segs. jobs l segs \<and> (\<forall>p. emits rel segs' p \<longrightarrow> emits rel segs (q @ p))))"

definition minv :: "bool \<Rightarrow> (lock \<Rightarrow> byte list list \<Rightarrow> bool) \<Rightarrow> mutexes \<Rightarrow> bool" where
  "minv rel jobs \<sigma> \<longleftrightarrow>
     exclusive \<sigma> \<and> (\<forall>t. list_all (ready jobs) (stack \<sigma> t)) \<and> (\<forall>l. \<exists>ps q. written rel jobs \<sigma> l ps q)"


lemma exclusive_owner:
  assumes "exclusive \<sigma>" and "Hold l segs \<in> set (stack \<sigma> t)"
  shows "owner \<sigma> l = Some t"
  using assms held_0 [of l "stack \<sigma> t"] by (auto simp: exclusive_def)

lemma exclusive_top:
  assumes "exclusive \<sigma>" and "stack \<sigma> t = Hold l segs # rest"
  shows "owner \<sigma> l = Some t" and "Hold l segs' \<notin> set rest"
proof -
  show o: "owner \<sigma> l = Some t" using assms exclusive_owner by (metis list.set_intros(1))
  have "held l (stack \<sigma> t) = 1" using assms(1) o by (simp add: exclusive_def)
  then show "Hold l segs' \<notin> set rest" using assms(2) held_0 [of l rest] by simp
qed

lemma exclusive_step:
  assumes "exclusive \<sigma>" and "mstep rel jobs \<sigma> \<sigma>'"
  shows "exclusive \<sigma>'"
  using assms(2)
proof (cases rule: mstep.cases)
  case (Call l segs t)
  then show ?thesis using assms(1) by (simp add: exclusive_def)
next
  case (Acquire t l segs rest)
  have "held k rest = of_bool (owner \<sigma> k = Some t)" for k
    using assms(1) [unfolded exclusive_def, rule_format, of k t] by (simp add: Acquire(2))
  then show ?thesis using assms(1) Acquire(3) by (auto simp: exclusive_def Acquire(1))
next
  case (Write t l s segs rest n)
  have "held k (Hold l (drop n s # segs) # rest) = held k (stack \<sigma> t)" for k by (simp add: Write(2))
  then show ?thesis using assms(1) by (simp add: exclusive_def Write(1))
next
  case (Next t l s segs rest)
  have "held k (Hold l segs # rest) = held k (stack \<sigma> t)" for k by (simp add: Next(2))
  then show ?thesis using assms(1) by (simp add: exclusive_def Next(1))
next
  case (Release t l rest)
  have own: "owner \<sigma> l = Some t" using assms(1) Release(2) by (rule exclusive_top)
  have at_t: "of_bool (l = k) + held k rest = of_bool (owner \<sigma> k = Some t)" for k
    using assms(1) [unfolded exclusive_def, rule_format, of k t] by (simp add: Release(2))
  have "held k rest = of_bool (k \<noteq> l \<and> owner \<sigma> k = Some t)" for k
    using at_t [of k] own by (cases "k = l") auto
  then show ?thesis using assms(1) own by (auto simp: exclusive_def Release(1))
qed

lemma ready_step:
  assumes "\<And>t. list_all (ready jobs) (stack \<sigma> t)" and "mstep rel jobs \<sigma> \<sigma>'"
  shows "list_all (ready jobs) (stack \<sigma>' u)"
  using assms(2,1)
proof (cases rule: mstep.cases)
  case (Acquire t l segs rest)
  then show ?thesis using assms(1) [of t] assms(1) [of u] by simp
next
  case (Write t l s segs rest n)
  then show ?thesis using assms(1) [of t] assms(1) [of u] by simp
next
  case (Next t l s segs rest)
  then show ?thesis using assms(1) [of t] assms(1) [of u] by simp
next
  case (Release t l rest)
  then show ?thesis using assms(1) [of t] assms(1) [of u] by simp
qed simp

text \<open>A step changes what is written under at most one lock; the holder puts a piece behind the others.\<close>

lemma written_same:
  assumes "written rel jobs \<sigma> l ps q" and "out \<sigma>' l = out \<sigma> l" and "owner \<sigma>' l = owner \<sigma> l"
    and "\<And>t segs. owner \<sigma> l = Some t \<Longrightarrow> Hold l segs \<in> set (stack \<sigma>' t) \<Longrightarrow> Hold l segs \<in> set (stack \<sigma> t)"
  shows "\<exists>ps q. written rel jobs \<sigma>' l ps q"
proof -
  have "written rel jobs \<sigma>' l ps q" using assms by (auto simp: written_def split: option.splits)
  then show ?thesis by blast
qed

lemma written_top:
  assumes "exclusive \<sigma>" and "stack \<sigma> t = Hold l segs # rest" and "written rel jobs \<sigma> l ps q"
  obtains js where "jobs l js" and "\<forall>p. emits rel segs p \<longrightarrow> emits rel js (q @ p)"
  using assms(2,3) exclusive_top(1) [OF assms(1,2)] by (auto simp: written_def)

lemma written_piece:
  assumes "exclusive \<sigma>" and "stack \<sigma> t = Hold l segs # rest" and "written rel jobs \<sigma> l ps q"
    and "out \<sigma>' = (out \<sigma>)(l := out \<sigma> l @ p)" and "owner \<sigma>' = owner \<sigma>"
    and "stack \<sigma>' = (stack \<sigma>)(t := Hold l segs' # rest)"
    and "\<And>r. emits rel segs' r \<Longrightarrow> emits rel segs (p @ r)"
  shows "written rel jobs \<sigma>' l ps (q @ p)"
proof -
  obtain js where js: "jobs l js" "\<forall>r. emits rel segs r \<longrightarrow> emits rel js (q @ r)"
    using assms(1-3) by (rule written_top)
  have "emits rel segs' r \<longrightarrow> emits rel js ((q @ p) @ r)" for r using assms(7) js(2) by simp
  then show ?thesis
    using assms(3-6) exclusive_top [OF assms(1,2)] js(1) by (auto simp: written_def)
qed

lemma written_acquired:
  assumes "exclusive \<sigma>" and "stack \<sigma> t = Wait l segs # rest" and "jobs l segs" and "owner \<sigma> l = None"
    and "written rel jobs \<sigma> l ps q"
  shows "written rel jobs (\<sigma>\<lparr>owner := (owner \<sigma>)(l \<mapsto> t), stack := (stack \<sigma>)(t := Hold l segs # rest)\<rparr>) l ps []"
proof -
  have "held l (stack \<sigma> t) = 0" using assms(1,4) by (simp add: exclusive_def)
  then show ?thesis using assms held_0 [of l rest] by (auto simp: written_def)
qed

lemma written_released:
  assumes "exclusive \<sigma>" and "stack \<sigma> t = Hold l [] # rest" and "written rel jobs \<sigma> l ps q"
  shows "written rel jobs (\<sigma>\<lparr>owner := (owner \<sigma>)(l := None), stack := (stack \<sigma>)(t := rest)\<rparr>) l (ps @ [q]) []"
proof -
  obtain js where "jobs l js" "\<forall>p. emits rel [] p \<longrightarrow> emits rel js (q @ p)" using assms by (rule written_top)
  then show ?thesis using assms(3) by (auto simp: written_def)
qed

lemma written_step:
  assumes "exclusive \<sigma>" and "\<And>t. list_all (ready jobs) (stack \<sigma> t)" and "written rel jobs \<sigma> k ps q"
    and "mstep rel jobs \<sigma> \<sigma>'"
  shows "\<exists>ps q. written rel jobs \<sigma>' k ps q"
  using assms(4)
proof (cases rule: mstep.cases)
  case (Call l segs t)
  then show ?thesis by (intro written_same [OF assms(3)]) (auto split: if_splits)
next
  case (Acquire t l segs rest)
  have job: "jobs l segs" using assms(2) [of t] by (simp add: Acquire(2))
  show ?thesis
  proof (cases "k = l")
    case True
    then show ?thesis using written_acquired [where jobs = jobs, OF assms(1) Acquire(2) job Acquire(3)] assms(3) Acquire(1) by blast
  qed (use Acquire in \<open>intro written_same [OF assms(3)], auto split: if_splits\<close>)
next
  case (Write t l s segs rest n)
  show ?thesis
  proof (cases "k = l")
    case True
    then have "written rel jobs \<sigma>' l ps (q @ take n s)"
      using written_piece [OF assms(1) Write(2), of rel jobs ps q \<sigma>' "take n s" "drop n s # segs"] assms(3)
        emits_drop [OF Write(4), of rel segs] Write(1) by simp
    then show ?thesis using True by blast
  qed (use Write in \<open>intro written_same [OF assms(3)], auto split: if_splits\<close>)
next
  case (Next t l s segs rest)
  have "emits rel segs p \<Longrightarrow> emits rel (s # segs) p" for p using Next(3) by auto
  then have "k = l \<Longrightarrow> written rel jobs \<sigma>' l ps (q @ [])"
    using written_piece [OF assms(1) Next(2), of rel jobs ps q \<sigma>' "[]" segs] assms(3) Next(1) by simp
  moreover have "k \<noteq> l \<Longrightarrow> ?thesis" using Next by (intro written_same [OF assms(3)]) (auto split: if_splits)
  ultimately show ?thesis by blast
next
  case (Release t l rest)
  show ?thesis
  proof (cases "k = l")
    case True
    then show ?thesis using written_released [OF assms(1) Release(2)] assms(3) Release(1) by blast
  qed (use Release in \<open>intro written_same [OF assms(3)], auto split: if_splits\<close>)
qed

lemma minv_idle: "minv rel jobs idle"
  by (auto simp: minv_def idle_def exclusive_def written_def intro!: exI [of _ "[]"])

lemma minv_step: "minv rel jobs \<sigma> \<Longrightarrow> mstep rel jobs \<sigma> \<sigma>' \<Longrightarrow> minv rel jobs \<sigma>'"
  unfolding minv_def using exclusive_step ready_step written_step by meson

interpretation mutex_inv: invariant_system "mstep rel jobs" "minv rel jobs" for rel jobs
  by unfold_locales (rule minv_step)

text \<open>Between two sections of a lock, what is out is a sequence of outputs of whole sections.\<close>

lemma outputs:
  assumes "(mstep rel jobs)\<^sup>*\<^sup>* idle \<sigma>" and "owner \<sigma> l = None"
  obtains ps where "\<forall>p \<in> set ps. \<exists>segs. jobs l segs \<and> emits rel segs p" and "out \<sigma> l = concat ps"
proof -
  have "minv rel jobs \<sigma>" using assms(1) minv_idle by (rule mutex_inv.inv_reachable)
  then obtain ps q where w: "written rel jobs \<sigma> l ps q" unfolding minv_def by blast
  show thesis
  proof (rule that)
    show "\<forall>p \<in> set ps. \<exists>segs. jobs l segs \<and> emits rel segs p" using w by (simp add: written_def)
    show "out \<sigma> l = concat ps" using w assms(2) by (simp add: written_def)
  qed
qed

section \<open>The sections of the program\<close>

text \<open>A line of the log is four calls; a frame is two loops; a packet for the device is one.\<close>

definition ascii :: "string \<Rightarrow> byte list" where
  "ascii = map of_char"

definition log_line :: "loglevel \<Rightarrow> string \<Rightarrow> byte list list" where
  "log_line level msg = [ascii (print_logging_level_str (level_value level)), ascii '': '', ascii msg, [10]]"

definition frame_segs :: "bool \<Rightarrow> byte \<Rightarrow> byte list \<Rightarrow> byte list list" where
  "frame_segs le t d = [frame_header le t (of_nat (length d)), d]"

fun section_of :: "bool \<Rightarrow> lock \<Rightarrow> byte list list \<Rightarrow> bool" where
  "section_of le Logger_mutex segs \<longleftrightarrow>
     length segs = 4 \<and> list_ex (\<lambda>s. segs ! 0 = ascii s) log_levels_str \<and> segs ! 1 = ascii '': '' \<and> segs ! 3 = [10]"
| "section_of le Tuntap_mutex segs \<longleftrightarrow> length segs = 1"
| "section_of le (Peer_mutex i) segs \<longleftrightarrow>
     length segs = 2 \<and> length (segs ! 1) < 2 ^ 32 \<and> segs = frame_segs le (hd (segs ! 0)) (segs ! 1)"

lemma section_line: "section_of le Logger_mutex (log_line level msg)"
  by (cases level) (simp_all add: log_line_def log_levels_str_def)

lemma section_frame: "section_of le (Peer_mutex i) (frame_segs le t d) \<longleftrightarrow> length d < 2 ^ 32"
  by (simp add: frame_segs_def frame_header_def)

lemma section_frameE:
  assumes "section_of le (Peer_mutex i) segs"
  obtains f where "frame_ok f" and "segs = frame_segs le (frame_type f) (frame_data f)"
  using assms that [of "Frame (hd (segs ! 0)) (segs ! 1)"] by (simp add: frame_ok_def)

lemma frame_segs_whole: "concat (frame_segs le t d) = wire_frame le t d"
  by (simp add: frame_segs_def frame_bytes_def)


section \<open>Threads that wait for themselves\<close>

text \<open>A thread that waits for a lock it holds further down its stack: nothing any thread does helps.\<close>

definition stuck :: "nat \<Rightarrow> lock \<Rightarrow> byte list list \<Rightarrow> task list \<Rightarrow> byte list \<Rightarrow> mutexes \<Rightarrow> bool" where
  "stuck t l segs rest bytes \<sigma> \<longleftrightarrow>
     exclusive \<sigma> \<and> owner \<sigma> l = Some t \<and> out \<sigma> l = bytes \<and> (\<exists>above. stack \<sigma> t = above @ Wait l segs # rest)"

text \<open>The steps of the other threads, and of what the thread is interrupted by in turn, are on other locks.\<close>

lemma stuck_top:
  assumes "stuck t l segs rest bytes \<sigma>" and "Hold l h \<in> set rest" and "stack \<sigma> u = task # tasks"
  shows "task \<noteq> Hold l segs'" and "u = t \<Longrightarrow> task = Wait l segs \<or> (\<exists>above. tasks = above @ Wait l segs # rest)"
proof -
  obtain above where st: "stack \<sigma> t = above @ Wait l segs # rest" and ex: "exclusive \<sigma>" and own: "owner \<sigma> l = Some t"
    using assms(1) unfolding stuck_def by blast
  show "task \<noteq> Hold l segs'"
  proof
    assume "task = Hold l segs'"
    then have top: "stack \<sigma> u = Hold l segs' # tasks" using assms(3) by simp
    then have "u = t" using exclusive_top(1) [OF ex] own by fastforce
    with top st have "Hold l h \<in> set tasks" using assms(2) by (cases above) auto
    then show False using exclusive_top(2) [OF ex top] by simp
  qed
  show "task = Wait l segs \<or> (\<exists>above. tasks = above @ Wait l segs # rest)" if "u = t"
    using that st assms(3) by (cases above) auto
qed

lemma stuck_step:
  assumes "stuck t l segs rest bytes \<sigma>" and "Hold l h \<in> set rest" and "mstep rel jobs \<sigma> \<sigma>'"
  shows "stuck t l segs rest bytes \<sigma>'"
proof -
  have own: "owner \<sigma> l = Some t" and out: "out \<sigma> l = bytes" and ex: "exclusive \<sigma>'"
    using assms(1) exclusive_step [OF _ assms(3)] by (simp_all add: stuck_def)
  obtain above where st: "stack \<sigma> t = above @ Wait l segs # rest" using assms(1) unfolding stuck_def by blast
  have "owner \<sigma>' l = Some t \<and> out \<sigma>' l = bytes \<and> (\<exists>above. stack \<sigma>' t = above @ Wait l segs # rest)"
    using assms(3)
  proof (cases rule: mstep.cases)
    case (Call k js u)
    then show ?thesis using own out st by (auto intro: exI [of _ "Wait k js # above"])
  next
    case (Acquire u k js tasks)
    note top = stuck_top [OF assms(1,2) Acquire(2)]
    show ?thesis
    proof (cases "u = t")
      case True
      then have "k \<noteq> l" "\<exists>above. tasks = above @ Wait l segs # rest" using top(2) Acquire(3) own by auto
      then show ?thesis using True own out by (auto simp: Acquire(1) intro: exI [of _ "Hold k js # _"])
    qed (use own out st Acquire in auto)
  next
    case (Write u k s js tasks n)
    note top = stuck_top [OF assms(1,2) Write(2)]
    show ?thesis
    proof (cases "u = t")
      case True
      then obtain above' where "tasks = above' @ Wait l segs # rest" using top(2) by auto
      then show ?thesis using True own out top(1)
        by (auto simp: Write(1) intro: exI [of _ "Hold k (drop n s # js) # above'"])
    qed (use own out st top(1) Write in auto)
  next
    case (Next u k s js tasks)
    note top = stuck_top [OF assms(1,2) Next(2)]
    show ?thesis
    proof (cases "u = t")
      case True
      then obtain above' where "tasks = above' @ Wait l segs # rest" using top(2) by auto
      then show ?thesis using True own out by (auto simp: Next(1) intro: exI [of _ "Hold k js # above'"])
    qed (use own out st Next in auto)
  next
    case (Release u k tasks)
    note top = stuck_top [OF assms(1,2) Release(2)]
    then show ?thesis using own out st by (cases "u = t") (auto simp: Release(1))
  qed
  with ex show ?thesis by (simp add: stuck_def)
qed

lemma stuck_forever:
  assumes "(mstep rel jobs)\<^sup>*\<^sup>* \<sigma> \<sigma>'" and "stuck t l segs rest bytes \<sigma>" and "Hold l h \<in> set rest"
  shows "stuck t l segs rest bytes \<sigma>'"
  using assms(1,2) by (induction rule: rtranclp_induct) (auto intro: stuck_step [OF _ assms(3)])

section \<open>The functions as runs\<close>

lemma unat_lt_u32: "unat (x :: u32) < 2 ^ 32"
  using unsigned_less [of x] by simp

lemma put_frame_run:
  assumes "put_frame s t data len w = Some w'" and "owner \<sigma> (Peer_mutex i) = None"
  obtains p where "(mstep (send_good w) (section_of (host_le w)))\<^sup>*\<^sup>* \<sigma> (after_section \<sigma> (Peer_mutex i) p)"
    and "wire w' s = wire w s @ p"
proof -
  have len: "unat len \<le> length data"
    using assms(1) by (auto simp: put_frame_def mem_read_def split: Option.bind_splits if_splits)
  let ?d = "take (unat len) data" and ?h = "frame_header (host_le w) t len"
  obtain n m rs where n: "n \<le> 5" "m \<le> unat len" and good: "send_good w \<longrightarrow> n = 5 \<and> m = unat len"
    and res: "put_frame s t data len w = Some
      (w\<lparr>send_rets := rs, wire := (wire w)(s := wire w s @ take n ?h @ take m ?d)\<rparr>)"
    using put_frame_result [OF len, of s t w] by blast
  have w': "wire w' s = wire w s @ take n ?h @ take m ?d" using res assms(1) by simp
  have segs: "frame_segs (host_le w) t ?d = [?h, ?d]" using len by (simp add: frame_segs_def)
  have "length (take (unat len) data) = unat len" using len by simp
  then have "emits (send_good w) [?h, ?d] (take n ?h @ take m ?d)"
    unfolding emits_pair length_frame_header using n good by (intro exI [of _ n] exI [of _ m]) simp
  moreover have "section_of (host_le w) (Peer_mutex i) (frame_segs (host_le w) t ?d)"
    using len unat_lt_u32 [of len] by (simp only: section_frame) simp
  ultimately have "(mstep (send_good w) (section_of (host_le w)))\<^sup>*\<^sup>* \<sigma>
      (after_section \<sigma> (Peer_mutex i) (take n ?h @ take m ?d))"
    using assms(2) unfolding segs by (intro section_run)
  then show thesis using w' that by blast
qed

text \<open>A line of the log and a packet for the device, in the same way.\<close>

lemma logger_run:
  assumes "owner \<sigma> Logger_mutex = None"
  shows "(mstep True (section_of le))\<^sup>*\<^sup>* \<sigma> (after_section \<sigma> Logger_mutex
           (ascii (print_logging_level_str (level_value m) @ '': '' @ msg) @ [10]))"
proof -
  have "ascii (print_logging_level_str (level_value m) @ '': '' @ msg) @ [10] = concat (log_line m msg)"
    by (simp add: log_line_def ascii_def)
  then show ?thesis using assms(1) emits_concat section_line by (metis section_run)
qed

lemma tuntap_run:
  assumes "tuntap_write buf w = (r, w')" and "0 \<le> if_fd w" and "owner \<sigma> Tuntap_mutex = None"
  obtains p where "(mstep (write_good w) (section_of le))\<^sup>*\<^sup>* \<sigma> (after_section \<sigma> Tuntap_mutex p)"
    and "concat (tun_out w') = concat (tun_out w) @ p"
proof -
  note r = tuntap_write_prefix [OF assms(2,1)]
  have "emits (write_good w) [buf] (take (nat r) buf)" using r by (auto intro!: exI [of _ "nat r"])
  moreover have "section_of le Tuntap_mutex [buf]" by simp
  ultimately show thesis using that [OF section_run] assms(3) r by blast
qed

section \<open>The sections of the signal handler\<close>

text \<open>
  What \<open>interrupt_program_handler\<close> enters, in its order: the lines it logs at the current level, and the
  close frame for each peer that is alive (\<open>src/signals.c\<close>, with \<open>tcp_server_close\<close> of \<open>src/tcp.c\<close> and
  \<open>tuntap_close\<close> of \<open>src/interface.c\<close>).
\<close>

definition log_section :: "bool \<Rightarrow> loglevel \<Rightarrow> string \<Rightarrow> 'a log_state_scheme \<Rightarrow> (lock \<times> byte list list) list" where
  "log_section reached level msg w =
     (if reached \<and> level_value level \<le> log_level w then [(Logger_mutex, log_line level msg)] else [])"

definition close_sections :: "('k, 'c, 'a) peer_state_scheme \<Rightarrow> (lock \<times> byte list list) list" where
  "close_sections w =
     map (\<lambda>i. (Peer_mutex i, frame_segs (host_le w) FRAME_HDR_CLOSE []))
       (filter (\<lambda>i. alive (peers w ! i)) [0..<length (peers w)])"

definition interrupt_sections :: "('k, 'c, 'a) tcp_state_scheme \<Rightarrow> (lock \<times> byte list list) list" where
  "interrupt_sections w =
     log_section True LOG_DEBUG ''interrupt_program_handler (signal: 2)'' w @
     log_section (tcp4_socket w > 0) LOG_INFO ''Closing TCP4 server socket...'' w @
     log_section (tcp6_socket w > 0) LOG_INFO ''Closing TCP6 server socket...'' w @
     close_sections w @
     log_section (if_fd w > 0) LOG_INFO ''Closing TUN/TAP device...'' w"

lemma interrupt_sections_ok: "(l, segs) \<in> set (interrupt_sections w) \<Longrightarrow> section_of (host_le w) l segs"
  by (auto simp: interrupt_sections_def log_section_def close_sections_def section_line section_frame
      simp del: section_of.simps split: if_splits)

text \<open>The close frames are those the handler puts on the sockets (\<open>interrupt_effect\<close>).\<close>

lemma close_sections_wire:
  "concat (map (\<lambda>(l, segs). case l of Peer_mutex i \<Rightarrow> (if sockfd (peers w ! i) = fd then concat segs else []) | _ \<Rightarrow> [])
     (close_sections w)) =
   concat (map (\<lambda>p. if alive p \<and> sockfd p = fd then wire_frame (host_le w) FRAME_HDR_CLOSE [] else []) (peers w))"
proof -
  let ?g = "\<lambda>p. if alive p \<and> sockfd p = fd then wire_frame (host_le w) FRAME_HDR_CLOSE [] else []"
  have "concat (map (\<lambda>(l, segs). case l of Peer_mutex i \<Rightarrow> (if sockfd (peers w ! i) = fd then concat segs else []) | _ \<Rightarrow> [])
      (map (\<lambda>i. (Peer_mutex i, frame_segs (host_le w) FRAME_HDR_CLOSE [])) (filter (\<lambda>i. alive (peers w ! i)) js))) =
    concat (map (\<lambda>i. ?g (peers w ! i)) js)" for js
    by (induction js) (simp_all add: frame_segs_whole)
  moreover have "map (\<lambda>i. ?g (peers w ! i)) [0..<length (peers w)] = map ?g (peers w)"
    by (rule nth_equalityI) simp_all
  ultimately show ?thesis by (simp only: close_sections_def)
qed

section \<open>Properties\<close>

text \<open>A part of a frame as two loops that may fail leave it on the socket.\<close>

definition frame_part :: "bool \<Rightarrow> byte list \<Rightarrow> frame \<Rightarrow> bool" where
  "frame_part le p f \<longleftrightarrow>
     (\<exists>n \<le> 5. \<exists>m \<le> length (frame_data f).
        p = take n (frame_header le (frame_type f) (of_nat (length (frame_data f)))) @ take m (frame_data f))"

lemma emits_frame:
  assumes "section_of le (Peer_mutex i) segs" and "emits rel segs p"
  obtains f where "frame_ok f" and "frame_part le p f" and "rel \<longrightarrow> p = frame_bytes (frame_header le) f"
proof -
  obtain f where f: "frame_ok f" and segs: "segs = frame_segs le (frame_type f) (frame_data f)"
    using assms(1) by (rule section_frameE)
  obtain n m where "n \<le> 5" "m \<le> length (frame_data f)" "rel \<longrightarrow> n = 5 \<and> m = length (frame_data f)"
    and p: "p = take n (frame_header le (frame_type f) (of_nat (length (frame_data f)))) @ take m (frame_data f)"
    using assms(2) unfolding segs frame_segs_def emits_pair by auto
  then show thesis using that [OF f] by (auto simp: frame_part_def frame_bytes_def)
qed

lemma emits_frames:
  assumes "\<forall>p \<in> set ps. \<exists>segs. section_of le (Peer_mutex i) segs \<and> emits rel segs p"
  obtains fs where "list_all frame_ok fs" and "list_all2 (frame_part le) ps fs"
    and "rel \<longrightarrow> ps = map (frame_bytes (frame_header le)) fs"
proof -
  have "\<exists>fs. list_all frame_ok fs \<and> list_all2 (frame_part le) ps fs \<and> (rel \<longrightarrow> ps = map (frame_bytes (frame_header le)) fs)"
    using assms
  proof (induction ps)
    case Nil
    then show ?case by (intro exI [of _ "[]"]) simp
  next
    case (Cons p ps)
    then obtain fs where fs: "list_all frame_ok fs" "list_all2 (frame_part le) ps fs"
      "rel \<longrightarrow> ps = map (frame_bytes (frame_header le)) fs" by auto
    obtain f where "frame_ok f" "frame_part le p f" "rel \<longrightarrow> p = frame_bytes (frame_header le) f"
      using Cons.prems emits_frame by (metis list.set_intros(1))
    with fs show ?case by (intro exI [of _ "f # fs"]) simp
  qed
  then show thesis using that by blast
qed

text \<open>C17. However the threads of the daemon interleave their sends to a peer, what is on its socket between
  two of them is a sequence of parts of frames, one per call and never mixed: a prefix of the header, then
  a prefix of the payload. While no \<open>send\<close> fails each is the whole frame, and the receiver reads back
  exactly these frames. (After a failed \<open>send\<close> the payload still follows the torn header.)\<close>

theorem concurrent_sends_intact:
  assumes "(mstep rel (section_of le))\<^sup>*\<^sup>* idle \<sigma>" and "owner \<sigma> (Peer_mutex i) = None"
  shows "\<exists>ps fs. out \<sigma> (Peer_mutex i) = concat ps \<and> list_all frame_ok fs \<and> list_all2 (frame_part le) ps fs \<and>
           (rel \<longrightarrow> all_frames (decode_frame_header le) (length fs) (out \<sigma> (Peer_mutex i)) = fs \<and>
                  out \<sigma> (Peer_mutex i) = concat (map (frame_bytes (frame_header le)) fs))"
proof -
  obtain ps where ps: "\<forall>p \<in> set ps. \<exists>segs. section_of le (Peer_mutex i) segs \<and> emits rel segs p"
    and out: "out \<sigma> (Peer_mutex i) = concat ps"
    using assms by (rule outputs)
  obtain fs where fs: "list_all frame_ok fs" "list_all2 (frame_part le) ps fs"
    and whole: "rel \<longrightarrow> ps = map (frame_bytes (frame_header le)) fs"
    using ps by (rule emits_frames)
  have "rel \<longrightarrow> all_frames (decode_frame_header le) (length fs) (out \<sigma> (Peer_mutex i)) = fs"
    using codec.all_frames_concat [OF fs(1), of le "[]"] whole by (simp add: out)
  with fs whole out show ?thesis by blast
qed

theorem concurrent_sends_intact_witness:
  "\<exists>ps fs. out (after_section idle (Peer_mutex 0) [8, 1, 0, 0, 0, 42]) (Peer_mutex 0) = concat ps \<and>
     list_all frame_ok fs \<and> list_all2 (frame_part True) ps fs \<and>
     all_frames (decode_frame_header True) (length fs) [8, 1, 0, 0, 0, 42] = fs \<and>
     [8, 1, 0, 0, 0, 42] = concat (map (frame_bytes (frame_header True)) fs)"
proof -
  let ?segs = "frame_segs True 8 [42]"
  have bytes: "concat ?segs = [8, 1, 0, 0, 0, 42]"
    by (simp add: frame_segs_def frame_header_def u32_bytes_def byte_at_def)
  have job: "section_of True (Peer_mutex 0) ?segs" by (simp only: section_frame) simp
  have "owner idle (Peer_mutex 0) = None" by (simp add: idle_def)
  from section_run [where jobs = "section_of True" and l = "Peer_mutex 0", OF job emits_concat [of True ?segs] this,
      unfolded bytes]
  have run: "(mstep True (section_of True))\<^sup>*\<^sup>* idle (after_section idle (Peer_mutex 0) [8, 1, 0, 0, 0, 42])" .
  have o: "out (after_section idle (Peer_mutex 0) [8, 1, 0, 0, 0, 42]) (Peer_mutex 0) = [8, 1, 0, 0, 0, 42]"
    and free: "owner (after_section idle (Peer_mutex 0) [8, 1, 0, 0, 0, 42]) (Peer_mutex 0) = None"
    by (simp_all add: after_section_def idle_def)
  show ?thesis using concurrent_sends_intact [OF run free] unfolding o by simp
qed

text \<open>C18. The one step that \<open>send_data_to_peer\<close> is elsewhere in this development is a run of one thread, which
  locks the peer's mutex, makes the calls of the two loops and unlocks it: the run leaves on the socket what
  the function leaves there, and changes no other lock, output or thread.\<close>

theorem send_is_a_run:
  assumes "send_data_to_peer ssl t data len enc i w = Some w'"
    and "owner \<sigma> (Peer_mutex i) = None" and "out \<sigma> (Peer_mutex i) = wire w (sockfd (peers w ! i))"
  shows "(mstep (send_good w) (section_of (host_le w)))\<^sup>*\<^sup>* \<sigma>
           (\<sigma>\<lparr>out := (out \<sigma>)(Peer_mutex i := wire w' (sockfd (peers w ! i)))\<rparr>)"
proof -
  let ?s = "sockfd (peers w ! i)" and ?runs = "(mstep (send_good w) (section_of (host_le w)))\<^sup>*\<^sup>*"
  have one: "?runs \<sigma> (\<sigma>\<lparr>out := (out \<sigma>)(Peer_mutex i := wire w' ?s)\<rparr>)"
    if p: "put_frame ?s t d n w1 = Some w'" and w1: "send_good w1 = send_good w" "host_le w1 = host_le w" "wire w1 = wire w"
    for d n w1
  proof -
    obtain q where "?runs \<sigma> (after_section \<sigma> (Peer_mutex i) q)" and "wire w' ?s = wire w ?s @ q"
      using p assms(2) unfolding w1(1,2,3) [symmetric] by (rule put_frame_run)
    then show ?thesis by (simp add: after_section_def assms(3))
  qed
  have "wire w' = wire w \<or> put_frame ?s t data len w = Some w' \<or>
      (\<exists>c d n. put_frame ?s t d n (w\<lparr>peers := (peers w)[i := (peers w ! i)\<lparr>enc_ctx := Ptr c\<rparr>]\<rparr>) = Some w')"
    using assms(1) by (auto simp: send_data_to_peer_def Let_def split: if_splits Option.bind_splits)
  then consider "wire w' = wire w" | "put_frame ?s t data len w = Some w'"
    | c d n where "put_frame ?s t d n (w\<lparr>peers := (peers w)[i := (peers w ! i)\<lparr>enc_ctx := Ptr c\<rparr>]\<rparr>) = Some w'"
    by blast
  then show ?thesis
  proof cases
    case 1
    then show ?thesis using assms(3) by (simp add: fun_upd_idem)
  next
    case 2
    then show ?thesis by (rule one) simp_all
  next
    case 3
    then show ?thesis by (rule one) (simp_all add: send_good_def)
  qed
qed

theorem send_is_a_run_witness:
  "(mstep True (section_of True))\<^sup>*\<^sup>* idle (idle\<lparr>out := (\<lambda>_. [])(Peer_mutex 0 := [8, 1, 0, 0, 0, 42])\<rparr>)"
proof -
  let ?w = "peer_state_init\<lparr>peers := [initialize_peer\<lparr>alive := True, sockfd := 4\<rparr>]\<rparr> :: (bool, byte list) peer_state"
  have init: "wire ?w = (\<lambda>_. [])" "host_le ?w" "send_good ?w"
    by (simp_all add: send_good_def peer_state_init_def key_init_def iface_init_def cfg_init_def log_init_def
        os_init_def os.defs log_state.defs cfg_state.defs iface_state.defs key_state.defs)
  have bytes: "wire_frame True 8 [42] = [8, 1, 0, 0, 0, 42]"
    by (simp add: frame_bytes_def frame_header_def u32_bytes_def byte_at_def)
  have "unat (1 :: u32) = 1" by simp
  then obtain w' where s: "send_data_to_peer toy_ssl 8 [42] 1 False 0 ?w = Some w'"
    and w': "wire w' (sockfd (peers ?w ! 0)) = [8, 1, 0, 0, 0, 42]"
    using send_plain [of 0 ?w 1 "[42]" toy_ssl 8] init by (auto simp: bytes)
  have "owner idle (Peer_mutex 0) = None" "out idle (Peer_mutex 0) = wire ?w (sockfd (peers ?w ! 0))"
    by (simp_all add: idle_def init(1))
  from send_is_a_run [OF s this] show ?thesis
    unfolding w' using init(2,3) by (simp add: idle_def)
qed

text \<open>C21. A signal that interrupts a thread inside a section whose lock the handler needs stops the daemon:
  \<open>interrupt_program_handler\<close> waits for the interrupted thread, which waits for the handler to return. In
  every state reached from there the thread still holds the lock and still waits for it, nothing more is
  written under it, and the code that was interrupted never goes on.\<close>

theorem interrupt_deadlock:
  assumes "(mstep rel (section_of (host_le w)))\<^sup>*\<^sup>* idle \<sigma>" and "Hold l left \<in> set (stack \<sigma> t)"
    and "(l, segs) \<in> set (interrupt_sections w)"
    and "(mstep rel (section_of (host_le w)))\<^sup>*\<^sup>* (\<sigma>\<lparr>stack := (stack \<sigma>)(t := Wait l segs # stack \<sigma> t)\<rparr>) \<sigma>'"
  shows "owner \<sigma>' l = Some t \<and> out \<sigma>' l = out \<sigma> l \<and> (\<exists>above. stack \<sigma>' t = above @ Wait l segs # stack \<sigma> t)"
proof -
  let ?sys = "section_of (host_le w)"
  have ex: "exclusive \<sigma>" using mutex_inv.inv_reachable [OF assms(1) minv_idle] by (simp add: minv_def)
  have "mstep rel ?sys \<sigma> (\<sigma>\<lparr>stack := (stack \<sigma>)(t := Wait l segs # stack \<sigma> t)\<rparr>)"
    using assms(3) by (intro Call interrupt_sections_ok)
  then have "exclusive (\<sigma>\<lparr>stack := (stack \<sigma>)(t := Wait l segs # stack \<sigma> t)\<rparr>)" by (rule exclusive_step [OF ex])
  then have "stuck t l segs (stack \<sigma> t) (out \<sigma> l) (\<sigma>\<lparr>stack := (stack \<sigma>)(t := Wait l segs # stack \<sigma> t)\<rparr>)"
    using exclusive_owner [OF ex assms(2)] by (simp add: stuck_def)
  then have "stuck t l segs (stack \<sigma> t) (out \<sigma> l) \<sigma>'" using assms(2) by (rule stuck_forever [OF assms(4)])
  then show ?thesis by (simp add: stuck_def)
qed

theorem interrupt_deadlock_witness:
  "let \<sigma> = in_section idle 1 (Peer_mutex 0) [[42]] [8, 1, 0, 0, 0];
       \<sigma>' = \<sigma>\<lparr>stack := (stack \<sigma>)(1 := Wait (Peer_mutex 0) [[2, 0, 0, 0, 0], []] # stack \<sigma> 1)\<rparr>
   in owner \<sigma>' (Peer_mutex 0) = Some 1 \<and> out \<sigma>' (Peer_mutex 0) = out \<sigma> (Peer_mutex 0) \<and>
      (\<exists>above. stack \<sigma>' 1 = above @ Wait (Peer_mutex 0) [[2, 0, 0, 0, 0], []] # stack \<sigma> 1)"
proof -
  let ?w = "tcp_state_init\<lparr>peers := [initialize_peer\<lparr>alive := True, sockfd := 4\<rparr>]\<rparr> :: (bool, byte list) tcp_state"
  let ?\<sigma> = "in_section idle 1 (Peer_mutex 0) [[42]] [8, 1, 0, 0, 0]"
  let ?\<sigma>' = "?\<sigma>\<lparr>stack := (stack ?\<sigma>)(1 := Wait (Peer_mutex 0) [[2, 0, 0, 0, 0], []] # stack ?\<sigma> 1)\<rparr>"
  have le: "host_le ?w"
    by (simp add: tcp_state_init_def peer_state_init_def key_init_def iface_init_def cfg_init_def log_init_def
        os_init_def os.defs log_state.defs cfg_state.defs iface_state.defs key_state.defs peer_state.defs)
  have segs: "frame_segs True 8 [42] = [[8, 1, 0, 0, 0], [42]]"
    "frame_segs True FRAME_HDR_CLOSE [] = [[2, 0, 0, 0, 0], []]"
    by (simp_all add: frame_segs_def frame_header_def u32_bytes_def byte_at_def FRAME_HDR_CLOSE_def)
  have "section_of True (Peer_mutex 0) (frame_segs True 8 [42])" by (simp only: section_frame) simp
  then have reach: "(mstep True (section_of (host_le ?w)))\<^sup>*\<^sup>* idle ?\<sigma>"
    using rtranclp_trans [OF section_entered [of "section_of True" "Peer_mutex 0" "[[8, 1, 0, 0, 0], [42]]" idle True 1]
      section_segment [of 5 "[8, 1, 0, 0, 0]" True "section_of True" idle 1 "Peer_mutex 0" "[[42]]" "[]"]] le
    by (simp add: segs idle_def del: section_of.simps)
  have hold: "Hold (Peer_mutex 0) [[42]] \<in> set (stack ?\<sigma> 1)" by (simp add: in_section_def)
  have sec: "(Peer_mutex 0, [[2, 0, 0, 0, 0], []]) \<in> set (interrupt_sections ?w)"
    using le by (simp add: interrupt_sections_def close_sections_def segs)
  show ?thesis
    using interrupt_deadlock [OF reach hold sec rtranclp.rtrancl_refl] by (simp only: Let_def)
qed

end
