(* ===== verification/Shutdown.thy ===== *)
theory Shutdown
  imports Peer
begin

text \<open>
  \<open>destroy_peer\<close> of \<open>src/peer.c\<close> beside the thread of the connection it destroys. In the other theories
  \<open>destroy_peer\<close> is one step; here its loop, which waits up to ten seconds for the thread to clear
  \<open>alive\<close>, and the last statements of \<open>_peer_connection\<close> are taken apart, and a schedule says which of
  the two goes on. Each access to the peer is an access to the allocated object: \<open>None\<close> after it is freed.
\<close>

section \<open>The two threads\<close>

datatype destroyer_pc = Look | Await nat | Free_peer | Destroyed

datatype connection_pc = In_receive | Mark_dead | Close_socket | Report | Exited

record ('k, 'c) closing =
  slot :: "('k, 'c) peer cptr"
  kernel :: os
  destroyer :: destroyer_pc
  connection :: connection_pc

text \<open>What \<open>destroy_peer\<close> does after the wait: everything the peer owns, and the peer.\<close>

definition free_peer :: "('k, 'c) peer \<Rightarrow> unit option" where
  "free_peer p =
     do {
       _ \<leftarrow> cfree (pubkey p);
       _ \<leftarrow> cfree (enc_ctx p);
       _ \<leftarrow> cfree (dec_ctx p);
       _ \<leftarrow> cfree (address p);
       Some ()
     }"

definition destroyer_step :: "('k, 'c) closing \<Rightarrow> ('k, 'c) closing option" where
  "destroyer_step \<sigma> =
     (case destroyer \<sigma> of
        Look \<Rightarrow>
          do {
            p \<leftarrow> cderef (slot \<sigma>);
            Some (if alive p then \<sigma>\<lparr>kernel := sys_close (sockfd p) (kernel \<sigma>), destroyer := Await 0\<rparr>
                  else \<sigma>\<lparr>destroyer := Free_peer\<rparr>)
          }
      | Await i \<Rightarrow>
          do {
            p \<leftarrow> cderef (slot \<sigma>);
            Some (\<sigma>\<lparr>destroyer := (if i < 10 \<and> alive p then Await (Suc i) else Free_peer)\<rparr>)
          }
      | Free_peer \<Rightarrow>
          do {
            p \<leftarrow> cderef (slot \<sigma>);
            _ \<leftarrow> free_peer p;
            Some (\<sigma>\<lparr>slot := Dangling, destroyer := Destroyed\<rparr>)
          }
      | Destroyed \<Rightarrow> Some \<sigma>)"

text \<open>The thread: \<open>pthread_join\<close> returns when the reception ends; the last log call reads the address.\<close>

definition connection_step :: "('k, 'c) closing \<Rightarrow> ('k, 'c) closing option" where
  "connection_step \<sigma> =
     (case connection \<sigma> of
        In_receive \<Rightarrow> Some (\<sigma>\<lparr>connection := Mark_dead\<rparr>)
      | Mark_dead \<Rightarrow>
          do { p \<leftarrow> cderef (slot \<sigma>); Some (\<sigma>\<lparr>slot := Ptr (p\<lparr>alive := False\<rparr>), connection := Close_socket\<rparr>) }
      | Close_socket \<Rightarrow>
          do {
            p \<leftarrow> cderef (slot \<sigma>);
            Some (\<sigma>\<lparr>kernel := sys_close (sockfd p) (kernel \<sigma>), connection := Report\<rparr>)
          }
      | Report \<Rightarrow> do { p \<leftarrow> cderef (slot \<sigma>); Some (\<sigma>\<lparr>connection := Exited\<rparr>) }
      | Exited \<Rightarrow> Some \<sigma>)"

text \<open>A schedule: \<open>True\<close> lets the destroying thread go on, \<open>False\<close> the thread of the connection.\<close>

fun schedule :: "bool list \<Rightarrow> ('k, 'c) closing \<Rightarrow> ('k, 'c) closing option" where
  "schedule [] \<sigma> = Some \<sigma>"
| "schedule (b # bs) \<sigma> = do { \<sigma>' \<leftarrow> (if b then destroyer_step \<sigma> else connection_step \<sigma>); schedule bs \<sigma>' }"

lemma schedule_append: "schedule (bs @ cs) \<sigma> = Option.bind (schedule bs \<sigma>) (schedule cs)"
  by (induction bs arbitrary: \<sigma>) (auto split: Option.bind_splits)

text \<open>The wait alone ends after ten looks.\<close>

lemma schedule_wait:
  assumes "slot \<sigma> = Ptr p" and "alive p" and "destroyer \<sigma> = Await i" and "i + n = 10"
  shows "schedule (replicate (Suc n) True) \<sigma> = Some (\<sigma>\<lparr>destroyer := Free_peer\<rparr>)"
  using assms
proof (induction n arbitrary: i \<sigma>)
  case 0
  then show ?case by (simp add: destroyer_step_def)
next
  case (Suc n)
  have "schedule (replicate (Suc n) True) (\<sigma>\<lparr>destroyer := Await (Suc i)\<rparr>) = Some (\<sigma>\<lparr>destroyer := Free_peer\<rparr>)"
    using Suc.IH [of "\<sigma>\<lparr>destroyer := Await (Suc i)\<rparr>" "Suc i"] Suc.prems by simp
  then show ?case using Suc.prems by (simp add: destroyer_step_def)
qed

text \<open>While it runs alone, the destroying thread does what \<open>destroy_peer\<close> does in one step.\<close>

lemma destroyer_alone:
  assumes "slot \<sigma> = Ptr p" and "alive p" and "destroyer \<sigma> = Look"
  shows "schedule (replicate 13 True) \<sigma> =
           map_option (\<lambda>w. \<sigma>\<lparr>slot := Dangling, kernel := w, destroyer := Destroyed\<rparr>) (destroy_peer p (kernel \<sigma>))"
proof -
  let ?\<sigma> = "\<sigma>\<lparr>kernel := sys_close (sockfd p) (kernel \<sigma>), destroyer := Await 0\<rparr>"
  have r: "replicate 13 True = [True] @ replicate (Suc 10) True @ [True]" by (simp add: eval_nat_numeral)
  have "schedule [True] \<sigma> = Some ?\<sigma>" using assms by (simp add: destroyer_step_def)
  moreover have "schedule (replicate (Suc 10) True) ?\<sigma> = Some (?\<sigma>\<lparr>destroyer := Free_peer\<rparr>)"
    using schedule_wait [of ?\<sigma> p 0 10] assms by simp
  ultimately show ?thesis
    unfolding r schedule_append using assms
    by (simp add: destroyer_step_def free_peer_def destroy_peer_def del: replicate.simps split: Option.bind_split)
qed

section \<open>The socket\<close>

text \<open>Once the destroyer has closed the socket of a live peer, the thread closes it again.\<close>

definition closed_by :: "int list \<Rightarrow> int \<Rightarrow> ('k, 'c) closing \<Rightarrow> bool" where
  "closed_by cs s \<sigma> \<longleftrightarrow>
     destroyer \<sigma> \<noteq> Look \<and> (\<forall>p. slot \<sigma> = Ptr p \<longrightarrow> sockfd p = s) \<and>
     closed (kernel \<sigma>) = cs @ s # (if connection \<sigma> \<in> {Report, Exited} then [s] else [])"

lemma closed_by_step:
  assumes "closed_by cs s \<sigma>" and "(if b then destroyer_step \<sigma> else connection_step \<sigma>) = Some \<sigma>'"
  shows "closed_by cs s \<sigma>'"
  using assms
  by (cases "slot \<sigma>")
    (auto simp: closed_by_def destroyer_step_def connection_step_def sys_close_def
      split: if_splits Option.bind_splits destroyer_pc.splits connection_pc.splits)

lemma closed_by_schedule: "closed_by cs s \<sigma> \<Longrightarrow> schedule bs \<sigma> = Some \<sigma>' \<Longrightarrow> closed_by cs s \<sigma>'"
proof (induction bs arbitrary: \<sigma>)
  case (Cons b bs)
  then obtain \<tau> where "(if b then destroyer_step \<sigma> else connection_step \<sigma>) = Some \<tau>" "schedule bs \<tau> = Some \<sigma>'"
    by (auto simp: Option.bind_eq_Some_conv)
  with Cons closed_by_step show ?case by blast
qed simp

section \<open>Properties\<close>

text \<open>C22. Destroying a live connection races with its thread. When \<open>destroy_peer\<close> finds the peer alive, every
  schedule that brings both threads to their end closes the socket twice; and there are schedules in which
  the thread uses the peer after it is freed, both when it stays in \<open>recv\<close> for the ten seconds and when it
  reacts at once.\<close>

theorem shutdown_race:
  assumes "slot \<sigma> = Ptr p" and "alive p" and "free_peer p \<noteq> None"
    and "destroyer \<sigma> = Look" and "connection \<sigma> = In_receive"
  shows "(\<forall>bs \<sigma>'. schedule (True # bs) \<sigma> = Some \<sigma>' \<and> connection \<sigma>' = Exited \<longrightarrow>
            closed (kernel \<sigma>') = closed (kernel \<sigma>) @ [sockfd p, sockfd p]) \<and>
         (\<exists>\<sigma>'. schedule [True, False, False, False, False, True, True] \<sigma> = Some \<sigma>' \<and>
            connection \<sigma>' = Exited \<and> destroyer \<sigma>' = Destroyed) \<and>
         schedule (replicate 13 True @ [False, False]) \<sigma> = None \<and>
         schedule [True, False, False, True, True, False] \<sigma> = None"
proof (intro conjI allI impI)
  fix bs \<sigma>'
  assume run: "schedule (True # bs) \<sigma> = Some \<sigma>' \<and> connection \<sigma>' = Exited"
  have "closed_by (closed (kernel \<sigma>)) (sockfd p) (\<sigma>\<lparr>kernel := sys_close (sockfd p) (kernel \<sigma>), destroyer := Await 0\<rparr>)"
    using assms by (simp add: closed_by_def sys_close_def)
  moreover have "schedule bs (\<sigma>\<lparr>kernel := sys_close (sockfd p) (kernel \<sigma>), destroyer := Await 0\<rparr>) = Some \<sigma>'"
    using run assms by (simp add: destroyer_step_def)
  ultimately have "closed_by (closed (kernel \<sigma>)) (sockfd p) \<sigma>'" by (rule closed_by_schedule)
  then show "closed (kernel \<sigma>') = closed (kernel \<sigma>) @ [sockfd p, sockfd p]" using run by (simp add: closed_by_def)
next
  have "free_peer (p\<lparr>alive := False\<rparr>) \<noteq> None" using assms(3) by (simp add: free_peer_def)
  then show "\<exists>\<sigma>'. schedule [True, False, False, False, False, True, True] \<sigma> = Some \<sigma>' \<and>
            connection \<sigma>' = Exited \<and> destroyer \<sigma>' = Destroyed"
    using assms by (auto simp: destroyer_step_def connection_step_def)
  then show "schedule [True, False, False, True, True, False] \<sigma> = None"
    using assms \<open>free_peer (p\<lparr>alive := False\<rparr>) \<noteq> None\<close> by (auto simp: destroyer_step_def connection_step_def)
next
  have "destroy_peer p (kernel \<sigma>) \<noteq> None"
    using assms(3) by (auto simp: free_peer_def destroy_peer_def split: Option.bind_splits)
  then show "schedule (replicate 13 True @ [False, False]) \<sigma> = None"
    using destroyer_alone [OF assms(1,2,4)] assms(5)
    by (auto simp: schedule_append connection_step_def simp del: replicate.simps)
qed

text \<open>The witness is a connection on socket 4.\<close>

definition demo_closing :: "(bool, byte list) closing" where
  "demo_closing = \<lparr>slot = Ptr (initialize_peer\<lparr>alive := True, sockfd := 4\<rparr>), kernel = os_init,
     destroyer = Look, connection = In_receive\<rparr>"

theorem shutdown_race_witness:
  "\<exists>\<sigma>'. schedule [True, False, False, False, False, True, True] demo_closing = Some \<sigma>' \<and>
     closed (kernel \<sigma>') = [4, 4]"
proof -
  have f: "slot demo_closing = Ptr (initialize_peer\<lparr>alive := True, sockfd := 4\<rparr>)" "destroyer demo_closing = Look"
    "connection demo_closing = In_receive" "closed (kernel demo_closing) = []"
    by (simp_all add: demo_closing_def os_init_def)
  have "free_peer ((initialize_peer :: (bool, byte list) peer)\<lparr>alive := True, sockfd := 4\<rparr>) \<noteq> None"
    by (simp add: free_peer_def initialize_peer_def)
  from shutdown_race [OF f(1) _ this f(2,3)] show ?thesis by (auto simp: f(4))
qed

end
