(* ===== verification/Encryption_Race.thy ===== *)
theory Encryption_Race
  imports Encryption Protocol
begin

text \<open>
  \<open>aes_encrypt\<close> of \<open>src/encryption.c\<close>, cut at its three calls of OpenSSL. \<open>send_data_to_peer\<close> calls it
  before it takes the mutex of the peer, so two threads that send to one peer use its encryption
  context at the same time, each with a buffer of its own.
\<close>

section \<open>The three calls\<close>

text \<open>The second call: the bytes written (\<open>None\<close>: it failed), the context and the buffer.\<close>

definition encrypt_update ::
  "('k, 'c) openssl \<Rightarrow> 'c \<Rightarrow> byte list \<Rightarrow> u32 \<Rightarrow> byte list \<Rightarrow> (nat option \<times> 'c \<times> byte list) option" where
  "encrypt_update ssl c data data_len enc_data =
     do {
       bs \<leftarrow> read_inl data data_len;
       case evp_enc_update ssl c (sint data_len) bs of
         None \<Rightarrow> Some (None, c, enc_data)
       | Some (c', out) \<Rightarrow> do { e \<leftarrow> mem_write enc_data 0 out; Some (Some (length out), c', e) }
     }"

definition encrypt_final ::
  "('k, 'c) openssl \<Rightarrow> 'c \<Rightarrow> nat \<Rightarrow> byte list \<Rightarrow> (int \<times> 'c \<times> byte list) option" where
  "encrypt_final ssl c len enc_data =
     (case evp_enc_final ssl c of
        None \<Rightarrow> Some (-1, c, enc_data)
      | Some (c', out) \<Rightarrow> do { e \<leftarrow> mem_write enc_data len out; Some (int len + int (length out), c', e) })"

text \<open>What is left of \<open>aes_encrypt\<close> after the first call.\<close>

definition encrypt_rest ::
  "('k, 'c) openssl \<Rightarrow> 'c \<Rightarrow> byte list \<Rightarrow> u32 \<Rightarrow> byte list \<Rightarrow> (int \<times> 'c \<times> byte list) option" where
  "encrypt_rest ssl c data data_len enc_data =
     do {
       (len, c', e) \<leftarrow> encrypt_update ssl c data data_len enc_data;
       case len of None \<Rightarrow> Some (-1, c', e) | Some n \<Rightarrow> encrypt_final ssl c' n e
     }"

lemma aes_encrypt_calls:
  "aes_encrypt ssl ctx data data_len enc_data =
     (case evp_enc_reset ssl ctx of
        None \<Rightarrow> Some (-1, ctx, enc_data)
      | Some c \<Rightarrow> encrypt_rest ssl c data data_len enc_data)"
  unfolding aes_encrypt_def encrypt_rest_def encrypt_update_def encrypt_final_def Let_def
  by (auto split: option.split Option.bind_split)

text \<open>
  A context that is used for two updates after one reset, as OpenSSL documents it: the updates hand out
  the whole blocks of the bytes so far, the final call one block.
\<close>

definition cbc_stream :: "('k, 'c) openssl \<Rightarrow> bool" where
  "cbc_stream ssl \<longleftrightarrow>
     (\<forall>c c0 p c1 o1 q c2 o2. evp_enc_reset ssl c = Some c0 \<longrightarrow>
        evp_enc_update ssl c0 (int (length p)) p = Some (c1, o1) \<longrightarrow>
        evp_enc_update ssl c1 (int (length q)) q = Some (c2, o2) \<longrightarrow>
        length o1 = 16 * (length p div 16) \<and> length o1 + length o2 = 16 * ((length p + length q) div 16) \<and>
        (\<forall>c3 o3. evp_enc_final ssl c2 = Some (c3, o3) \<longrightarrow> length o3 = 16))"

lemma read_inl_all:
  assumes "unat len \<le> length data" and "unat len < 2 ^ 31"
  shows "read_inl data len = Some (take (unat len) data)" and "sint len = int (unat len)"
  using read_inl_small [OF assms(2,1)] sint_small [OF assms(2)] by simp_all

lemma blocks_of_rest: "16 * ((a + b) div 16) = 16 * (a div 16) + 16 * ((a mod 16 + b) div 16)" for a b :: nat
proof -
  have "a + b = 16 * (a div 16) + (a mod 16 + b)" by simp
  then have "(a + b) div 16 = a div 16 + (a mod 16 + b) div 16" by (metis div_mult_self4 zero_neq_numeral add.commute)
  then show ?thesis by simp
qed

section \<open>Properties\<close>

text \<open>C35. Two threads that encrypt for one peer: when the second one's calls fall after the update of the
  first, its update also hands out what was left of the first one's packet \<open>p\<close>, and with the final
  block it overruns its buffer of 2048 bytes exactly when the rest of \<open>p\<close> and its own packet have 2048
  bytes or more together; alone, a packet of less than 2048 bytes fits.\<close>

theorem encrypt_race:
  assumes "cbc_stream ssl" and "cbc_sizes ssl"
    and "evp_enc_reset ssl c = Some c0" and "evp_enc_reset ssl c0 = Some c0'"
    and "encrypt_update ssl c0' p np buf = Some (Some m, c1, buf')" and "unat np \<le> length p" and "unat np < 2 ^ 31"
    and "evp_enc_update ssl c1 (int (unat nq)) (take (unat nq) q) = Some (c2, o2)" and "evp_enc_final ssl c2 = Some (c3, o3)"
    and "unat nq \<le> length q" and "unat nq < 2 ^ 31" and "length out = FRAME_PAYLOAD_MAXSIZE"
  shows "(encrypt_rest ssl c1 q nq out = None \<longleftrightarrow> FRAME_PAYLOAD_MAXSIZE \<le> unat np mod 16 + unat nq) \<and>
         (unat nq < FRAME_PAYLOAD_MAXSIZE \<longrightarrow> aes_encrypt ssl c q nq out \<noteq> None)"
proof
  let ?p = "take (unat np) p" and ?q = "take (unat nq) q"
  have lp: "length ?p = unat np" and lq: "length ?q = unat nq" using assms(6,10) by simp_all
  obtain o1 where o1: "evp_enc_update ssl c0' (int (unat np)) ?p = Some (c1, o1)"
    using assms(5) by (auto simp: encrypt_update_def read_inl_all [OF assms(6,7)] Option.bind_eq_Some_conv split: option.splits)
  have len: "length o1 = 16 * (unat np div 16)" "length o1 + length o2 = 16 * ((unat np + unat nq) div 16)" "length o3 = 16"
    using assms(1) [unfolded cbc_stream_def, rule_format, of c0 c0' ?p c1 o1 ?q c2 o2] assms(4,8,9) o1 lp lq by auto
  then have o2: "length o2 = 16 * ((unat np mod 16 + unat nq) div 16)" using blocks_of_rest [of "unat np" "unat nq"] by simp
  have "16 * (n div 16) + 16 \<le> FRAME_PAYLOAD_MAXSIZE \<longleftrightarrow> \<not> FRAME_PAYLOAD_MAXSIZE \<le> n" for n
    by (simp add: frame_sizes) presburger
  then have "length o2 + length o3 \<le> FRAME_PAYLOAD_MAXSIZE \<longleftrightarrow> \<not> FRAME_PAYLOAD_MAXSIZE \<le> unat np mod 16 + unat nq"
    using o2 len(3) by simp
  moreover have "encrypt_rest ssl c1 q nq out = None \<longleftrightarrow> \<not> length o2 + length o3 \<le> FRAME_PAYLOAD_MAXSIZE"
    using assms(8,9,12) read_inl_all [OF assms(10,11)]
    by (simp add: encrypt_rest_def encrypt_update_def encrypt_final_def mem_write_def)
  ultimately show "encrypt_rest ssl c1 q nq out = None \<longleftrightarrow> FRAME_PAYLOAD_MAXSIZE \<le> unat np mod 16 + unat nq" by blast
  have "cbc_padded (unat nq) \<le> length out" if "unat nq < FRAME_PAYLOAD_MAXSIZE"
    using that assms(12) by (simp add: cbc_padded_def frame_sizes)
  then show "unat nq < FRAME_PAYLOAD_MAXSIZE \<longrightarrow> aes_encrypt ssl c q nq out \<noteq> None"
    using aes_encrypt_safe [OF assms(2,11,10), of out c] by auto
qed

text \<open>A context that keeps the bytes since its reset.\<close>

definition stream_ssl :: "(bool, byte list) openssl" where
  "stream_ssl = toy_ssl\<lparr>evp_enc_update := (\<lambda>c n bs.
     if n < 0 then None
     else Some (c @ bs, drop (16 * (length c div 16)) (take (16 * (length (c @ bs) div 16)) (c @ bs))))\<rparr>"

lemma stream_enc:
  "evp_enc_reset stream_ssl c = Some []"
  "evp_enc_update stream_ssl c (int (length bs)) bs =
     Some (c @ bs, drop (16 * (length c div 16)) (take (16 * (length (c @ bs) div 16)) (c @ bs)))"
  "evp_enc_final stream_ssl c = Some ([], drop (16 * (length c div 16)) c @ toy_pad c)"
  by (simp_all add: stream_ssl_def toy_ssl_def)

lemma stream_block: "length (drop (16 * (length c div 16)) c @ toy_pad c) = 16"
proof -
  have "length c - 16 * (length c div 16) = length c mod 16" by (simp add: minus_mult_div_eq_mod)
  moreover have "length c mod 16 < 16" by simp
  ultimately show ?thesis by (simp add: toy_pad_def)
qed

lemma stream_whole: "length (drop a (take (16 * (length xs div 16)) xs)) = 16 * (length xs div 16) - a"
  using div_times_less_eq_dividend [of "length xs" 16] by (simp add: mult.commute)

lemma stream_sizes: "cbc_sizes stream_ssl"
proof -
  have dec: "evp_dec_reset stream_ssl = evp_dec_reset toy_ssl" "evp_dec_update stream_ssl = evp_dec_update toy_ssl"
    "evp_dec_final stream_ssl = evp_dec_final toy_ssl"
    by (simp_all add: stream_ssl_def)
  have "length (take (16 * (length bs div 16)) bs) = 16 * (length bs div 16)" "length bs div 16 * 16 \<le> length bs"
    for bs :: "byte list"
    using stream_whole [of 0 bs] div_times_less_eq_dividend by simp_all
  then show ?thesis
    using toy_cbc_sizes stream_block
    by (simp add: cbc_sizes_def dec stream_enc cbc_padded_def mult.commute)
qed

lemma stream_stream: "cbc_stream stream_ssl"
proof -
  have "16 * (m div 16) \<le> 16 * ((m + n) div 16)" for m n :: nat by (simp add: div_le_mono)
  moreover have "min a b + (b - a) = b" for a b :: nat by simp
  ultimately show ?thesis
    using stream_block by (simp add: cbc_stream_def stream_enc)
qed

theorem encrypt_race_witness:
  "\<exists>m c1 buf'. encrypt_update stream_ssl [] (replicate 15 1) 15 (replicate 2048 0) = Some (Some m, c1, buf') \<and>
     encrypt_rest stream_ssl c1 (replicate 2047 2) 2047 (replicate 2048 0) = None"
proof -
  let ?p = "replicate 15 1 :: byte list" and ?q = "replicate 2047 2 :: byte list"
  have u: "unat (15 :: u32) = 15" "unat (2047 :: u32) = 2047" by simp_all
  have r: "evp_enc_reset stream_ssl [] = Some []" by (simp add: stream_ssl_def toy_ssl_def)
  have n: "unat (15 :: u32) \<le> length ?p" "unat (15 :: u32) < 2 ^ 31" "unat (2047 :: u32) \<le> length ?q" "unat (2047 :: u32) < 2 ^ 31"
    unfolding u by simp_all
  have e: "encrypt_update stream_ssl [] ?p 15 (replicate 2048 0) = Some (Some 0, ?p, replicate 2048 0)"
    using read_inl_all [OF n(1,2)] unfolding u
    by (simp add: encrypt_update_def stream_ssl_def mem_write_def)
  obtain c2 o2 where q: "evp_enc_update stream_ssl ?p (int (unat (2047 :: u32))) (take (unat (2047 :: u32)) ?q) = Some (c2, o2)"
    unfolding u by (simp add: stream_ssl_def)
  obtain c3 o3 where f: "evp_enc_final stream_ssl c2 = Some (c3, o3)"
    by (simp add: stream_ssl_def toy_ssl_def)
  have "length (replicate 2048 0 :: byte list) = FRAME_PAYLOAD_MAXSIZE" by (simp add: frame_sizes)
  from encrypt_race [OF stream_stream stream_sizes r r e n(1,2) q f n(3,4) this]
  have "encrypt_rest stream_ssl ?p ?q 2047 (replicate 2048 0) = None"
    unfolding u by (simp add: frame_sizes)
  with e show ?thesis by blast
qed

end
