(* ===== verification/Tunnel.thy ===== *)
theory Tunnel
  imports Tun_Broadcast Handshake
begin

text \<open>
  Two daemons and the connection between them: a packet crosses when one reads it from its device,
  encrypts, frames and sends it, and the other receives the frame, decrypts the packet and passes it
  on. \<open>linked\<close> is what the handshake leaves behind on both sides and every crossing keeps, and from
  the crossings follows what the users of the network see: packets arrive unchanged, in both
  directions, and after one exchange they are no longer flooded.
\<close>

section \<open>What sending does to the cipher contexts\<close>

text \<open>
  \<open>ctx_kept\<close>: the decryption contexts are untouched, and an encryption context keeps every property that
  encrypting a packet keeps.
\<close>

definition enc_closed :: "('k, 'c) openssl \<Rightarrow> ('c \<Rightarrow> bool) \<Rightarrow> bool" where
  "enc_closed ssl Q \<longleftrightarrow>
     (\<forall>c d c' ct. Q c \<longrightarrow> length d < 2 ^ 31 \<longrightarrow> evp_enc_run ssl c d = Some (c', ct) \<longrightarrow> Q c')"

definition ctx_kept ::
  "('k, 'c) openssl \<Rightarrow> ('k, 'c, 'a) peer_state_scheme \<Rightarrow> ('k, 'c, 'a) peer_state_scheme \<Rightarrow> bool" where
  "ctx_kept ssl w w' \<longleftrightarrow>
     (\<forall>k. dec_ctx (peers w' ! k) = dec_ctx (peers w ! k)) \<and>
     (\<forall>Q k c. enc_closed ssl Q \<longrightarrow> enc_ctx (peers w ! k) = Ptr c \<longrightarrow> Q c \<longrightarrow>
        (\<exists>c'. enc_ctx (peers w' ! k) = Ptr c' \<and> Q c'))"

lemma ctx_kept_same [simp]: "peers w' = peers w \<Longrightarrow> ctx_kept ssl w w'"
  by (simp add: ctx_kept_def)

lemma ctx_kept_trans: "ctx_kept ssl w w1 \<Longrightarrow> ctx_kept ssl w1 w2 \<Longrightarrow> ctx_kept ssl w w2"
  unfolding ctx_kept_def by metis

lemma ctx_keptD:
  assumes "ctx_kept ssl w w'" and "enc_closed ssl Q" and "enc_ctx (peers w ! k) = Ptr c" and "Q c"
  obtains c' where "enc_ctx (peers w' ! k) = Ptr c'" and "Q c'"
  using assms unfolding ctx_kept_def by blast

lemma send_ctx_kept:
  assumes "send_data_to_peer ssl t data len True i w = Some w'"
    and "unat len \<le> length data" and "unat len < 2 ^ 31"
    and "can_encrypt ssl (take (unat len) data) (peers w ! i)"
  shows "ctx_kept ssl w w'"
proof (cases "alive (peers w ! i) \<and> authenticated (peers w ! i)")
  case False
  then show ?thesis using assms(1) by (auto simp: send_data_to_peer_def Let_def split: if_splits)
next
  case True
  let ?p = "peers w ! i" and ?d = "take (unat len) data"
  have i: "i < length (peers w)" using assms(1) by (simp add: send_data_to_peer_def split: if_splits)
  obtain c c' ct where c: "enc_ctx ?p = Ptr c" and run: "evp_enc_run ssl c ?d = Some (c', ct)"
    and fits: "length ct \<le> FRAME_PAYLOAD_MAXSIZE" using True assms(4) by (auto simp: can_encrypt_def)
  have "put_frame (sockfd ?p) t (ct @ drop (length ct) (replicate FRAME_PAYLOAD_MAXSIZE 0)) (of_int (int (length ct)))
      (w\<lparr>peers := (peers w)[i := ?p\<lparr>enc_ctx := Ptr c'\<rparr>]\<rparr>) = Some w'"
    using assms(1) i True c aes_encrypt_run [OF run assms(3,2), of "replicate FRAME_PAYLOAD_MAXSIZE 0"] fits
    by (simp add: send_data_to_peer_def Let_def)
  then have p: "peers w' = (peers w)[i := ?p\<lparr>enc_ctx := Ptr c'\<rparr>]" using put_frame_only by fastforce
  have "length ?d < 2 ^ 31" using assms(2,3) by simp
  then have "Q c \<Longrightarrow> enc_closed ssl Q \<Longrightarrow> Q c'" for Q using run unfolding enc_closed_def by blast
  then show ?thesis using i c by (auto simp: ctx_kept_def p nth_list_update)
qed

text \<open>A broadcast, of which each peer has its part.\<close>

lemma broadcast_ctx_kept:
  assumes "unat len \<le> length data" and "unat len < 2 ^ 31"
  shows "distinct is \<Longrightarrow> set is \<subseteq> {..<length (peers w)} \<Longrightarrow> send_good w \<Longrightarrow>
           (\<And>i. i \<in> set is \<Longrightarrow> Some i \<noteq> ex \<Longrightarrow> can_encrypt ssl (take (unat len) data) (peers w ! i)) \<Longrightarrow>
           broadcast_from ssl t data len True ex is w = Some w' \<Longrightarrow> ctx_kept ssl w w'"
proof (induction "is" arbitrary: w)
  case Nil
  then show ?case by simp
next
  case (Cons i js)
  show ?case
  proof (cases "Some i \<noteq> ex \<and> alive (peers w ! i)")
    case False
    then have "broadcast_from ssl t data len True ex js w = Some w'" using Cons.prems(5) by auto
    then show ?thesis using Cons.IH [of w] Cons.prems by simp
  next
    case True
    have i: "i < length (peers w)" and can: "can_encrypt ssl (take (unat len) data) (peers w ! i)"
      using Cons.prems(2,4) True by auto
    obtain w1 where w1: "send_data_to_peer ssl t data len True i w = Some w1" "sends_only w w1" "send_good w1"
      "\<forall>j. j \<noteq> i \<longrightarrow> peers w1 ! j = peers w ! j"
      using send_encrypted [OF i assms can Cons.prems(3), of t] by blast
    have "broadcast_from ssl t data len True ex js w1 = Some w'" using Cons.prems(5) True w1(1) by simp
    then have "ctx_kept ssl w1 w'"
    proof (rule Cons.IH [rotated 4])
      show "distinct js" "set js \<subseteq> {..<length (peers w1)}" "send_good w1"
        using Cons.prems(1,2) w1(3) sends_only_fields(1) [OF w1(2)] by simp_all
      show "can_encrypt ssl (take (unat len) data) (peers w1 ! j)" if "j \<in> set js" "Some j \<noteq> ex" for j
      proof -
        have "j \<noteq> i" using that(1) Cons.prems(1) by auto
        with w1(4) have "peers w1 ! j = peers w ! j" by blast
        with Cons.prems(4) [of j] that show ?thesis by simp
      qed
    qed
    with send_ctx_kept [OF w1(1) assms can] show ?thesis by (rule ctx_kept_trans)
  qed
qed

lemma sends_kept:
  assumes "sends_ok ssl p w" and "p = take (unat n) buf" and "unat n \<le> length buf" and "unat n < 2 ^ 31"
  shows "t < length (peers w) \<Longrightarrow> send_data_to_peer ssl h buf n True t w = Some w' \<Longrightarrow>
           sends_only w w' \<and> ctx_kept ssl w w' \<and> send_good w'"
    and "broadcast_data_to_peers ssl h buf n True ex w = Some w' \<Longrightarrow>
           sends_only w w' \<and> ctx_kept ssl w w' \<and> send_good w'"
proof -
  have can: "j < length (peers w) \<Longrightarrow> can_encrypt ssl (take (unat n) buf) (peers w ! j)" for j
    using assms(1,2) by (simp add: sends_ok_def)
  have good: "send_good w" using assms(1) by (simp add: sends_ok_def)
  show "sends_only w w' \<and> ctx_kept ssl w w' \<and> send_good w'"
    if "t < length (peers w)" "send_data_to_peer ssl h buf n True t w = Some w'"
    using send_encrypted [OF that(1) assms(3,4) can [OF that(1)] good, of h] that
      send_ctx_kept [OF that(2) assms(3,4) can [OF that(1)]] by auto
  assume b: "broadcast_data_to_peers ssl h buf n True ex w = Some w'"
  have sub: "set [0..<length (peers w)] \<subseteq> {..<length (peers w)}" by auto
  show "sends_only w w' \<and> ctx_kept ssl w w' \<and> send_good w'"
    using broadcast_from_wire [OF assms(3,4) distinct_upt sub good, of ex ssl h] can b
      broadcast_ctx_kept [OF assms(3,4) distinct_upt sub good, of ex ssl h w']
    by (auto simp: broadcast_data_to_peers_def get_peer_list_def)
qed

lemma pass_on_kept:
  assumes "sends_ok ssl p w" and "p = take (unat n) buf" and "unat n \<le> length buf" and "unat n < 2 ^ 31"
    and "pass_on ssl buf n r w = Some w'"
  shows "sends_only w w' \<and> ctx_kept ssl w w' \<and> send_good w'"
proof (cases "get_peer_route r w")
  case None
  then show ?thesis using sends_kept(2) [OF assms(1-4)] assms(5) by (simp add: pass_on_def)
next
  case (Some t)
  then show ?thesis
    using sends_kept(1) [OF assms(1-4) get_peer_route_SomeD(1) [OF Some]] assms(5) by (simp add: pass_on_def)
qed

section \<open>Linked daemons\<close>

text \<open>
  \<open>node_ok\<close>: nothing fails, the sockets are different, and the encryption context of every authenticated
  peer is one of a pair. \<open>linked\<close>: peer \<open>i\<close> of one daemon and peer \<open>j\<close> of the other are the ends of one
  connection, with contexts of the same key and IV both ways, on hosts of the same byte order and
  devices of the same mode.
\<close>

definition paired :: "('c \<Rightarrow> 'c \<Rightarrow> bool) \<Rightarrow> ('k, 'c) peer \<Rightarrow> bool" where
  "paired R p \<longleftrightarrow> (alive p \<and> authenticated p \<longrightarrow> (\<exists>c cd. enc_ctx p = Ptr c \<and> R c cd))"

definition node_ok :: "('c \<Rightarrow> 'c \<Rightarrow> bool) \<Rightarrow> ('k, 'c, 'a) peer_state_scheme \<Rightarrow> bool" where
  "node_ok R w \<longleftrightarrow>
     send_good w \<and> mallocs w = [] \<and> write_rets w = [] \<and> 0 \<le> if_fd w \<and>
     (\<forall>k < length (peers w). paired R (peers w ! k)) \<and>
     (\<forall>i < length (peers w). \<forall>j < length (peers w). alive (peers w ! i) \<and> alive (peers w ! j) \<and>
        sockfd (peers w ! i) = sockfd (peers w ! j) \<longrightarrow> i = j)"

definition end_of :: "nat \<Rightarrow> ('k, 'c, 'a) peer_state_scheme \<Rightarrow> bool" where
  "end_of i w \<longleftrightarrow> i < length (peers w) \<and> alive (peers w ! i) \<and> authenticated (peers w ! i)"

definition keyed :: "('c \<Rightarrow> 'c \<Rightarrow> bool) \<Rightarrow> ('k, 'c) peer \<Rightarrow> ('k, 'c) peer \<Rightarrow> bool" where
  "keyed R p q \<longleftrightarrow> (\<exists>ce cd. enc_ctx p = Ptr ce \<and> dec_ctx q = Ptr cd \<and> R ce cd)"

definition linked ::
  "('c \<Rightarrow> 'c \<Rightarrow> bool) \<Rightarrow> nat \<Rightarrow> ('k, 'c, 'a) peer_state_scheme \<Rightarrow> nat \<Rightarrow> ('k, 'c, 'b) peer_state_scheme \<Rightarrow> bool" where
  "linked R i wa j wb \<longleftrightarrow>
     node_ok R wa \<and> node_ok R wb \<and> end_of i wa \<and> end_of j wb \<and>
     keyed R (peers wa ! i) (peers wb ! j) \<and> keyed R (peers wb ! j) (peers wa ! i) \<and>
     host_le wb = host_le wa \<and> tuntap_tap_mode wb = tuntap_tap_mode wa"

lemma linked_sym: "linked R i wa j wb \<Longrightarrow> linked R j wb i wa"
  by (simp add: linked_def)

text \<open>A paired context encrypts any packet the device hands over.\<close>

lemma enc_closed_paired:
  assumes "cbc_pairs ssl R"
  shows "enc_closed ssl (\<lambda>c. R c cd)"
  unfolding enc_closed_def
proof (intro allI impI)
  fix c d c' ct
  assume "R c cd" "length (d :: byte list) < 2 ^ 31" "evp_enc_run ssl c d = Some (c', ct)"
  then show "R c' cd" using assms unfolding cbc_pairs_def by (metis option.inject prod.inject)
qed

lemma node_sends_ok:
  assumes "cbc_sizes ssl" and "cbc_pairs ssl R" and "node_ok R w" and "length p < FRAME_PAYLOAD_MAXSIZE"
  shows "sends_ok ssl p w"
proof -
  have "can_encrypt ssl p (peers w ! k)" if k: "k < length (peers w)" for k
    unfolding can_encrypt_def
  proof (intro impI)
    assume "alive (peers w ! k) \<and> authenticated (peers w ! k)"
    then obtain c cd where c: "enc_ctx (peers w ! k) = Ptr c" "R c cd"
      using assms(3) k unfolding node_ok_def paired_def by blast
    have small: "length p < 2 ^ 31" using assms(4) by (simp add: frame_sizes)
    obtain ce' cd' ct where run: "evp_enc_run ssl c p = Some (ce', ct)" by (rule cbc_pairsD [OF assms(2) c(2) small])
    have "length ct \<le> FRAME_PAYLOAD_MAXSIZE"
      using enc_run_length [OF assms(1) run] assms(4) by (simp add: cbc_padded_def frame_sizes)
    with c(1) run show "\<exists>c c' ct. enc_ctx (peers w ! k) = Ptr c \<and> evp_enc_run ssl c p = Some (c', ct) \<and>
        length ct \<le> FRAME_PAYLOAD_MAXSIZE" by blast
  qed
  with assms(3) show ?thesis by (simp add: sends_ok_def node_ok_def)
qed

text \<open>Sends keep a node in order, and the keys of its connections.\<close>

lemma core_flags:
  assumes "sends_only w w'" and "k < length (peers w)"
  shows "alive (peers w' ! k) = alive (peers w ! k)" and "authenticated (peers w' ! k) = authenticated (peers w ! k)"
    and "sockfd (peers w' ! k) = sockfd (peers w ! k)" and "peer_routes (peers w' ! k) = peer_routes (peers w ! k)"
  using peer_core_eqD [OF sends_only_nth [OF assms]] by simp_all

lemma paired_kept:
  assumes "cbc_pairs ssl R" and "ctx_kept ssl w w'" and "alive (peers w' ! k) = alive (peers w ! k)"
    and "authenticated (peers w' ! k) = authenticated (peers w ! k)" and "paired R (peers w ! k)"
  shows "paired R (peers w' ! k)"
  unfolding paired_def
proof
  assume "alive (peers w' ! k) \<and> authenticated (peers w' ! k)"
  then obtain c cd where c: "enc_ctx (peers w ! k) = Ptr c" "R c cd" using assms(3-5) by (auto simp: paired_def)
  obtain c' where "enc_ctx (peers w' ! k) = Ptr c'" "R c' cd"
    by (rule ctx_keptD [OF assms(2) enc_closed_paired [OF assms(1)] c])
  then show "\<exists>c cd. enc_ctx (peers w' ! k) = Ptr c \<and> R c cd" by blast
qed

lemma node_ok_kept:
  assumes "cbc_pairs ssl R" and "node_ok R w" and "sends_only w w'" and "ctx_kept ssl w w'" and "send_good w'"
  shows "node_ok R w'"
  using assms(2,5) paired_kept [OF assms(1,4) core_flags(1,2) [OF assms(3)]] sends_only_fields [OF assms(3)]
    core_flags [OF assms(3)]
  unfolding node_ok_def by simp

lemma keyed_kept:
  assumes "cbc_pairs ssl R" and "ctx_kept ssl w w'"
  shows "keyed R (peers w ! i) q \<Longrightarrow> keyed R (peers w' ! i) q" and "keyed R q (peers w ! i) \<Longrightarrow> keyed R q (peers w' ! i)"
proof -
  show "keyed R (peers w' ! i) q" if k: "keyed R (peers w ! i) q"
  proof -
    obtain c cd where c: "enc_ctx (peers w ! i) = Ptr c" "R c cd" and q: "dec_ctx q = Ptr cd"
      using k unfolding keyed_def by blast
    obtain c' where "enc_ctx (peers w' ! i) = Ptr c'" "R c' cd"
      by (rule ctx_keptD [OF assms(2) enc_closed_paired [OF assms(1)] c])
    with q show ?thesis by (auto simp: keyed_def)
  qed
  show "keyed R q (peers w' ! i)" if "keyed R q (peers w ! i)"
    using that assms(2) by (simp add: keyed_def ctx_kept_def)
qed

section \<open>A packet crosses\<close>

text \<open>
  One turn of the device loop here, one frame there. \<open>seg\<close> is what the kernels make of the bytes on the
  way, \<open>buf\<close> what the receiver's frame buffer held.
\<close>

definition cross ::
  "('k, 'c) openssl \<Rightarrow> (byte list \<Rightarrow> byte list list) \<Rightarrow> stack \<Rightarrow> byte list \<Rightarrow> nat \<Rightarrow> nat \<Rightarrow> byte list
     \<Rightarrow> tun_vars \<Rightarrow> ('k, 'c, 'a) peer_state_scheme \<Rightarrow> ('k, 'c, 'b) peer_state_scheme
     \<Rightarrow> (tun_vars \<times> ('k, 'c, 'a) peer_state_scheme \<times> ('k, 'c, 'b) peer_state_scheme) option" where
  "cross ssl seg st buf i j p v wa wb =
     do {
       (v', wa') \<leftarrow> broadcast_packet ssl p v wa;
       let s = sockfd (peers wa ! i);
       (ret, r) \<leftarrow> receive_frame (host_le wb)
         \<lparr>rx_buf = buf, rx_type = 0, rx_len = 0, rx_in = seg (drop (length (wire wa s)) (wire wa' s))\<rparr>;
       (res, wb') \<leftarrow> process_frame ssl st j (rx_buf r) (rx_type r) (rx_len r) wb;
       Some (v', wa', wb')
     }"

definition segments :: "(byte list \<Rightarrow> byte list list) \<Rightarrow> bool" where
  "segments seg \<longleftrightarrow> (\<forall>bs. concat (seg bs) = bs \<and> chunks_ok (seg bs))"

text \<open>An IP packet of a size the code handles.\<close>

definition good_packet :: "('k, 'c, 'a) peer_state_scheme \<Rightarrow> byte list \<Rightarrow> bool" where
  "good_packet w p \<longleftrightarrow>
     HEADER_SPAN \<le> length p \<and> length p < FRAME_PAYLOAD_MAXSIZE \<and> packet_addr (tuntap_tap_mode w) p True \<noteq> None"

definition same_peers :: "('k, 'c, 'a) peer_state_scheme \<Rightarrow> ('k, 'c, 'a) peer_state_scheme \<Rightarrow> bool" where
  "same_peers w w' \<longleftrightarrow>
     length (peers w') = length (peers w) \<and> host_le w' = host_le w \<and> tuntap_tap_mode w' = tuntap_tap_mode w \<and>
     (\<forall>k < length (peers w). alive (peers w' ! k) = alive (peers w ! k) \<and>
        authenticated (peers w' ! k) = authenticated (peers w ! k) \<and> sockfd (peers w' ! k) = sockfd (peers w ! k))"

definition same_routes :: "nat set \<Rightarrow> ('k, 'c, 'a) peer_state_scheme \<Rightarrow> ('k, 'c, 'a) peer_state_scheme \<Rightarrow> bool" where
  "same_routes js w w' \<longleftrightarrow>
     (\<forall>k < length (peers w). k \<notin> js \<longrightarrow> peer_routes (peers w' ! k) = peer_routes (peers w ! k))"

lemma sends_same:
  assumes "sends_only w w'"
  shows "same_peers w w'" and "same_routes js w w'"
  using sends_only_fields [OF assms] core_flags [OF assms]
  by (simp_all add: same_peers_def same_routes_def tuntap_tap_mode_def)

lemma end_of_same: "same_peers w w' \<Longrightarrow> end_of i w \<Longrightarrow> end_of i w'"
  by (simp add: same_peers_def end_of_def)

text \<open>A turn of the device loop keeps the node in order.\<close>

lemma broadcast_kept:
  assumes ssl: "cbc_sizes ssl" "cbc_pairs ssl R" and w: "node_ok R w" and v: "wf_tun v" and p: "good_packet w p"
    and run: "broadcast_packet ssl p v w = Some (v', w')"
  shows "node_ok R w' \<and> ctx_kept ssl w w' \<and> same_peers w w' \<and> same_routes {} w w'"
proof -
  have len: "length p < FRAME_PAYLOAD_MAXSIZE" using p by (simp add: good_packet_def)
  then have "length p \<le> FRAME_PAYLOAD_MAXSIZE" by simp
  then obtain r1 r2 where step: "broadcast_packet ssl p v w =
       map_option (\<lambda>w2. (\<lparr>tun_buf = p @ drop (length p) (tun_buf v), tun_route = r2\<rparr>, w2))
         (pass_on ssl (p @ drop (length p) (tun_buf v)) (of_nat (length p)) r2 (learn_local r1 w))"
    using broadcast_packet_step [OF v, of p ssl w] by metis
  let ?w1 = "learn_local r1 w"
  have w1: "node_ok R ?w1" "ctx_kept ssl w ?w1" "same_peers w ?w1" "same_routes {} w ?w1"
    using w learn_local_keys(2) [of w r1]
    by (simp_all add: learn_local_fields node_ok_def send_good_def same_peers_def same_routes_def)
  have un: "unat (of_nat (length p) :: u32) = length p" using len by (simp add: unat_of_nat frame_sizes)
  have "pass_on ssl (p @ drop (length p) (tun_buf v)) (of_nat (length p)) r2 ?w1 = Some w'" using run step by auto
  from pass_on_kept [OF node_sends_ok [OF ssl w1(1) len] _ _ _ this] un len
  have p: "sends_only ?w1 w'" "ctx_kept ssl ?w1 w'" "send_good w'" by (simp_all add: frame_sizes)
  have "same_peers w w'" "same_routes {} w w'"
    using w1(3,4) sends_same [OF p(1)] by (auto simp: same_peers_def same_routes_def)
  with node_ok_kept [OF ssl(2) w1(1) p] ctx_kept_trans [OF w1(2) p(2)] show ?thesis by blast
qed

text \<open>The sender's half.\<close>

lemma crossing_sent:
  assumes ssl: "cbc_sizes ssl" "cbc_pairs ssl R" and w: "node_ok R w" "end_of i w"
    and v: "wf_tun v" and p: "good_packet w p"
    and to: "\<forall>k < length (peers w). k \<noteq> i \<longrightarrow> \<not> holds_route (wire_key w p False) (peers w ! k)"
  shows "\<exists>v' w'. broadcast_packet ssl p v w = Some (v', w') \<and> wf_tun v' \<and> node_ok R w' \<and> ctx_kept ssl w w' \<and>
           same_peers w w' \<and> same_routes {} w w' \<and> tun_out w' = tun_out w \<and>
           route_keys (local_routes w') = insert (wire_key w p True) (route_keys (local_routes w)) \<and>
           wire w' (sockfd (peers w ! i)) = wire w (sockfd (peers w ! i)) @ frame_for ssl FRAME_HDR_NETPACKET p w i"
proof -
  have ip: "HEADER_SPAN \<le> length p" "length p < FRAME_PAYLOAD_MAXSIZE" "packet_addr (tuntap_tap_mode w) p True \<noteq> None"
    using p by (simp_all add: good_packet_def)
  have i: "i < length (peers w)" "alive (peers w ! i)" using w(2) by (simp_all add: end_of_def)
  note ok = node_sends_ok [OF ssl w(1) ip(2)]
  obtain v' w' where run: "broadcast_packet ssl p v w = Some (v', w')" "wf_tun v'"
    "route_keys (local_routes w') = insert (wire_key w p True) (route_keys (local_routes w))" "tun_out w' = tun_out w"
    and out: "case find_index (holds_route (wire_key w p False)) (peers w) of
              Some t \<Rightarrow> wire w' = (wire w)(sockfd (peers w ! t) :=
                  wire w (sockfd (peers w ! t)) @ frame_for ssl FRAME_HDR_NETPACKET p w t)
            | None \<Rightarrow> (\<forall>j < length (peers w). alive (peers w ! j) \<longrightarrow>
                   wire w' (sockfd (peers w ! j)) = wire w (sockfd (peers w ! j)) @
                     frame_for ssl FRAME_HDR_NETPACKET p w j)"
    using broadcast_packet_exact [OF v ip ok] by blast
  have wire: "wire w' (sockfd (peers w ! i)) = wire w (sockfd (peers w ! i)) @ frame_for ssl FRAME_HDR_NETPACKET p w i"
    using out i to by (auto simp: find_index_Some split: option.splits)
  with run broadcast_kept [OF ssl w(1) v p run(1)] show ?thesis by blast
qed

text \<open>The receiver's half: the device gets the packet whether its destination is local or unknown.\<close>

lemma deliver_local_state:
  assumes "mallocs w = []" and "write_rets w = []" and "0 \<le> if_fd w" and "p \<noteq> []" and "unat n = length p"
    and "parse_packet_addr (host_le w) (tuntap_tap_mode w) (p @ q) r True = Some r0"
  shows "deliver_local j (p @ q) n r w =
           Some ((if get_peer_route r0 w = None
                  then set_peer j ((peers w ! j)\<lparr>peer_routes := append_route r0 (peer_routes (peers w ! j))\<rparr>) w
                  else w)\<lparr>tun_out := tun_out w @ [p]\<rparr>)"
proof -
  have rd: "mem_read (p @ q) 0 (unat n) = Some p" using assms(5) by (simp add: mem_read_def)
  have wr: "snd (tuntap_write p u) = u\<lparr>tun_out := tun_out u @ [p]\<rparr>"
    if "write_rets u = []" "0 \<le> if_fd u" for u :: "('a, 'b, 'c) peer_state_scheme"
    using tuntap_write_delivers [OF that(2,1) assms(4)] by simp
  show ?thesis
    using assms(1-3,6) by (simp add: deliver_local_def rd Let_def add_netroute_def wr set_peer_def)
qed

definition learns_from :: "nat \<Rightarrow> byte list \<Rightarrow> ('k, 'c, 'a) peer_state_scheme \<Rightarrow> ('k, 'c, 'a) peer_state_scheme \<Rightarrow> bool" where
  "learns_from j p w w' \<longleftrightarrow>
     route_keys (peer_routes (peers w' ! j)) =
       (if wire_key w p False \<in> route_keys (local_routes w) \<and> \<not> (\<exists>q \<in> set (peers w). holds_route (wire_key w p True) q)
        then insert (wire_key w p True) (route_keys (peer_routes (peers w ! j)))
        else route_keys (peer_routes (peers w ! j)))"

lemma routed_known:
  assumes w: "node_ok R w" "j < length (peers w)" and p: "good_packet w p" and st: "wf_stack st"
    and local: "wire_key w p False \<in> route_keys (local_routes w)"
  shows "\<exists>w'. route_packet ssl st j (p @ q) (of_nat (length p)) w = Some w' \<and> node_ok R w' \<and> ctx_kept ssl w w' \<and>
           same_peers w w' \<and> same_routes {j} w w' \<and> local_routes w' = local_routes w \<and>
           tun_out w' = tun_out w @ [p] \<and> learns_from j p w w'"
proof -
  have ip: "HEADER_SPAN \<le> length p" "length p < FRAME_PAYLOAD_MAXSIZE" "packet_addr (tuntap_tap_mode w) p src \<noteq> None" for src
    using p packet_addr_source [of "tuntap_tap_mode w" p True src] by (simp_all add: good_packet_def)
  have un: "unat (of_nat (length p) :: u32) = length p" using ip(2) by (simp add: unat_of_nat frame_sizes)
  have ne: "p \<noteq> []" using ip(1) by (auto simp: HEADER_SPAN_def)
  have io: "mallocs w = []" "write_rets w = []" "0 \<le> if_fd w" using w(1) by (simp_all add: node_ok_def)
  obtain r where r: "parse_packet_addr (host_le w) (tuntap_tap_mode w) (p @ q) (stale_route st) False = Some r"
      "wf_route r" "route_key r = wire_key w p False"
    using ip(1) st ip(3) by (rule parse_wire_key)
  obtain r0 where r0: "parse_packet_addr (host_le w) (tuntap_tap_mode w) (p @ q) r True = Some r0"
      "wf_route r0" "route_key r0 = wire_key w p True"
    using ip(1) r(2) ip(3) by (rule parse_wire_key)
  have "is_local_route r w" using local by (simp add: is_local_route_known route_known_key r(3))
  with r(1) deliver_local_state [OF io ne un r0(1)]
  have run: "route_packet ssl st j (p @ q) (of_nat (length p)) w =
      Some ((if get_peer_route r0 w = None
             then set_peer j ((peers w ! j)\<lparr>peer_routes := append_route r0 (peer_routes (peers w ! j))\<rparr>) w
             else w)\<lparr>tun_out := tun_out w @ [p]\<rparr>)" (is "_ = Some ?w'")
    by (simp add: route_packet_def)
  have new: "get_peer_route r0 w = None \<longleftrightarrow> \<not> (\<exists>q \<in> set (peers w). holds_route (wire_key w p True) q)"
    using get_peer_route_holds [OF r0(3), of w] by (simp add: find_index_None)
  have peer: "length (peers ?w') = length (peers w)" "alive (peers ?w' ! k) = alive (peers w ! k)"
    "authenticated (peers ?w' ! k) = authenticated (peers w ! k)" "sockfd (peers ?w' ! k) = sockfd (peers w ! k)"
    "enc_ctx (peers ?w' ! k) = enc_ctx (peers w ! k)" "dec_ctx (peers ?w' ! k) = dec_ctx (peers w ! k)"
    "k \<noteq> j \<Longrightarrow> peer_routes (peers ?w' ! k) = peer_routes (peers w ! k)" for k
    using w(2) by (auto simp: set_peer_def nth_list_update)
  have "node_ok R ?w'" using w(1) peer by (simp add: node_ok_def paired_def) (simp add: set_peer_def send_good_def)
  moreover have "ctx_kept ssl w ?w'" using peer by (simp add: ctx_kept_def)
  moreover have "same_peers w ?w'" "same_routes {j} w ?w'"
    using peer by (simp_all add: same_peers_def same_routes_def) (simp add: set_peer_def tuntap_tap_mode_def)
  moreover have "learns_from j p w ?w'"
    using local w(2) new r0(3) by (simp add: learns_from_def set_peer_def append_route_def route_keys_def)
  ultimately show ?thesis using run by (intro exI [of _ ?w']) (simp add: set_peer_def)
qed

lemma routed_unknown:
  assumes ssl: "cbc_sizes ssl" "cbc_pairs ssl R" and w: "node_ok R w" and p: "good_packet w p" and st: "wf_stack st"
    and away: "wire_key w p False \<notin> route_keys (local_routes w)"
    and none: "\<forall>k < length (peers w). \<not> holds_route (wire_key w p False) (peers w ! k)"
  shows "\<exists>w'. route_packet ssl st j (p @ q) (of_nat (length p)) w = Some w' \<and> node_ok R w' \<and> ctx_kept ssl w w' \<and>
           same_peers w w' \<and> same_routes {j} w w' \<and> local_routes w' = local_routes w \<and>
           tun_out w' = tun_out w @ [p] \<and> (j < length (peers w) \<longrightarrow> learns_from j p w w')"
proof -
  let ?n = "of_nat (length p) :: u32" and ?w1 = "w\<lparr>tun_out := tun_out w @ [p]\<rparr>"
  have ip: "HEADER_SPAN \<le> length p" "length p < FRAME_PAYLOAD_MAXSIZE" "packet_addr (tuntap_tap_mode w) p False \<noteq> None"
    using p packet_addr_source [of "tuntap_tap_mode w" p True False] by (simp_all add: good_packet_def)
  have un: "unat ?n = length p" using ip(2) by (simp add: unat_of_nat frame_sizes)
  then have n: "p = take (unat ?n) (p @ q)" "unat ?n \<le> length (p @ q)" "unat ?n < 2 ^ 31"
    using ip(2) by (simp_all add: frame_sizes)
  have "p \<noteq> []" using ip(1) by (auto simp: HEADER_SPAN_def)
  then have tun: "snd (tuntap_write p w) = ?w1" using w by (simp add: tuntap_write_delivers node_ok_def)
  obtain r where r: "parse_packet_addr (host_le w) (tuntap_tap_mode w) (p @ q) (stale_route st) False = Some r"
      "route_key r = wire_key w p False"
    using ip(1) st ip(3) by (rule parse_wire_key)
  have far: "\<not> is_local_route r w" using away by (simp add: is_local_route_known route_known_key r(2))
  have "\<forall>x \<in> set (peers w). \<not> holds_route (wire_key w p False) x" using none by (simp add: all_set_conv_all_nth)
  then have no: "get_peer_route r w = None" using get_peer_route_holds [OF r(2), of w] by (simp add: find_index_None)
  have w1: "node_ok R ?w1" "ctx_kept ssl w ?w1" using w by (simp_all add: node_ok_def send_good_def)
  note ok = node_sends_ok [OF ssl w1(1) ip(2)]
  obtain w' where b: "broadcast_data_to_peers ssl FRAME_HDR_NETPACKET (p @ q) ?n True (Some j) ?w1 = Some w'"
    using broadcast_ok [OF ok n] by blast
  then have run: "route_packet ssl st j (p @ q) ?n w = Some w'"
    using far no un tun r(1) by (simp add: route_packet_def mem_read_def)
  have s: "sends_only ?w1 w'" "ctx_kept ssl ?w1 w'" "send_good w'" using sends_kept(2) [OF ok n b] by simp_all
  have same: "same_peers w w'" "same_routes {j} w w'"
    using sends_same(1) [OF s(1)] sends_same(2) [OF s(1), of "{j}"]
    by (simp_all add: same_peers_def same_routes_def tuntap_tap_mode_def)
  have "j < length (peers w) \<longrightarrow> learns_from j p w w'"
    using core_flags(4) [OF s(1), of j] away by (simp add: learns_from_def)
  then show ?thesis
    using run same node_ok_kept [OF ssl(2) w1(1) s] ctx_kept_trans [OF w1(2) s(2)] sends_only_fields [OF s(1)]
    by (intro exI [of _ w']) simp
qed

text \<open>Receiving uses the decryption context once, and routes on the state after that.\<close>

lemma dec_used_peer:
  assumes "j < length (peers w)"
  shows "alive (peers (dec_used j c w) ! k) = alive (peers w ! k)"
    and "authenticated (peers (dec_used j c w) ! k) = authenticated (peers w ! k)"
    and "sockfd (peers (dec_used j c w) ! k) = sockfd (peers w ! k)"
    and "enc_ctx (peers (dec_used j c w) ! k) = enc_ctx (peers w ! k)"
    and "peer_routes (peers (dec_used j c w) ! k) = peer_routes (peers w ! k)"
  using assms by (simp_all add: dec_used_nth)

lemma dec_used_same:
  assumes "j < length (peers w)"
  shows "wire_key (dec_used j c w) p src = wire_key w p src"
    and "holds_route key (peers (dec_used j c w) ! k) = holds_route key (peers w ! k)"
    and "node_ok R (dec_used j c w) = node_ok R w" and "good_packet (dec_used j c w) p = good_packet w p"
    and "same_peers (dec_used j c w) w' = same_peers w w'" and "same_routes js (dec_used j c w) w' = same_routes js w w'"
  by (simp_all add: wire_key_def dec_used_fields dec_used_peer [OF assms] holds_route_def node_ok_def paired_def send_good_def
      good_packet_def same_peers_def same_routes_def)

lemma dec_used_holds:
  assumes "j < length (peers w)"
  shows "(\<exists>q \<in> set (peers (dec_used j c w)). holds_route k q) \<longleftrightarrow> (\<exists>q \<in> set (peers w). holds_route k q)"
  by (metis dec_used_same(2) [OF assms] in_set_conv_nth dec_used_fields(1))

lemma crossing_received:
  assumes ssl: "cbc_sizes ssl" "cbc_pairs ssl R" and w: "node_ok R w" "j < length (peers w)" and p: "good_packet w p"
    and st: "wf_stack st" and none: "\<forall>k < length (peers w). \<not> holds_route (wire_key w p False) (peers w ! k)"
  shows "\<exists>w'. route_packet ssl st j (p @ q) (of_nat (length p)) (dec_used j cd' w) = Some w' \<and> node_ok R w' \<and>
           ctx_kept ssl (dec_used j cd' w) w' \<and> same_peers w w' \<and> same_routes {j} w w' \<and>
           local_routes w' = local_routes w \<and> tun_out w' = tun_out w @ [p] \<and> learns_from j p w w'"
proof -
  let ?w1 = "dec_used j cd' w"
  note same = dec_used_same [OF w(2)]
  have w1: "node_ok R ?w1" "j < length (peers ?w1)" "good_packet ?w1 p"
    using w p by (simp_all add: same dec_used_fields)
  have none1: "\<forall>k < length (peers ?w1). \<not> holds_route (wire_key ?w1 p False) (peers ?w1 ! k)"
    using none by (simp add: same dec_used_fields)
  obtain w' where w': "route_packet ssl st j (p @ q) (of_nat (length p)) ?w1 = Some w'"
    "node_ok R w'" "ctx_kept ssl ?w1 w'" "same_peers ?w1 w'" "same_routes {j} ?w1 w'" "local_routes w' = local_routes ?w1"
    "tun_out w' = tun_out ?w1 @ [p]" "learns_from j p ?w1 w'"
    using routed_known [OF w1 st] routed_unknown [OF ssl w1(1,3) st _ none1] w1(2) by blast
  have "learns_from j p w w'"
    using w'(8) w(2) by (simp add: learns_from_def same dec_used_holds dec_used_fields dec_used_nth)
  then show ?thesis using w' by (intro exI [of _ w']) (simp add: same dec_used_fields)
qed

text \<open>From the bytes on the socket to the routing of the packet.\<close>

lemma frame_routed:
  assumes w: "j < length (peers w)" "authenticated (peers w ! j)" and len: "length p < FRAME_PAYLOAD_MAXSIZE"
    and c: "dec_ctx (peers w ! j) = Ptr cd" "evp_dec_run ssl cd ct = Some (cd', p)"
    and fits: "length ct \<le> FRAME_PAYLOAD_MAXSIZE" "0 < length ct" and buf: "length buf = FRAME_MAXSIZE"
    and cs: "chunks_ok cs" "concat cs = frame_header (host_le w) FRAME_HDR_NETPACKET (of_nat (length ct)) @ ct"
    and run: "route_packet ssl st j (p @ map (stale_bytes st) [length p..<PACKET_DATA_SIZE]) (of_nat (length p))
                (dec_used j cd' w) = Some w'"
  obtains r' where
    "receive_frame (host_le w) \<lparr>rx_buf = buf, rx_type = 0, rx_len = 0, rx_in = cs\<rparr> = Some (5 + int (length ct), r')"
    and "process_frame ssl st j (rx_buf r') (rx_type r') (rx_len r') w = Some (0, w')"
proof -
  let ?r = "\<lparr>rx_buf = buf, rx_type = 0, rx_len = 0, rx_in = cs\<rparr>"
  have rx: "length (rx_buf ?r) = FRAME_MAXSIZE" "chunks_ok (rx_in ?r)"
    "concat (rx_in ?r) = frame_header (host_le w) FRAME_HDR_NETPACKET (of_nat (length ct)) @ ct"
    using buf cs by simp_all
  obtain r' where r': "receive_frame (host_le w) ?r = Some (5 + int (length ct), r')"
      "length (rx_buf r') = FRAME_MAXSIZE" "rx_type r' = FRAME_HDR_NETPACKET" "unat (rx_len r') = length ct"
      "take (unat (rx_len r')) (drop 5 (rx_buf r')) = ct"
    using rx(1,2) fits(1) rx(3) by (rule receive_netpacket)
  have dl: "unat (rx_len r') < 2 ^ 31" "unat (rx_len r') \<le> length (drop 5 (rx_buf r'))" "length p \<le> PACKET_DATA_SIZE"
    using r'(2,4) fits len by (simp_all add: frame_sizes packet_sizes)
  have "evp_dec_run ssl cd (take (unat (rx_len r')) (drop 5 (rx_buf r'))) = Some (cd', p)" using c(2) r'(5) by simp
  from process_netpacket_run [OF w(1) c(1) this dl, of st] run
  have "process_netpacket ssl st j (drop 5 (rx_buf r')) (rx_len r') w = Some w'" by simp
  from process_frame_netpacket [OF w r'(3) _ this] r'(1,4) fits(2) show thesis by (simp add: that)
qed

text \<open>Both halves: the packet arrives, and the daemons stay linked.\<close>

definition crossed ::
  "('c \<Rightarrow> 'c \<Rightarrow> bool) \<Rightarrow> nat \<Rightarrow> nat \<Rightarrow> byte list \<Rightarrow> ('k, 'c, 'a) peer_state_scheme \<Rightarrow> ('k, 'c, 'b) peer_state_scheme
     \<Rightarrow> ('k, 'c, 'a) peer_state_scheme \<Rightarrow> ('k, 'c, 'b) peer_state_scheme \<Rightarrow> bool" where
  "crossed R i j p wa wb wa' wb' \<longleftrightarrow>
     linked R i wa' j wb' \<and> same_peers wa wa' \<and> same_peers wb wb' \<and> same_routes {} wa wa' \<and> same_routes {j} wb wb' \<and>
     tun_out wa' = tun_out wa \<and> tun_out wb' = tun_out wb @ [p] \<and> local_routes wb' = local_routes wb \<and>
     route_keys (local_routes wa') = insert (wire_key wa p True) (route_keys (local_routes wa)) \<and>
     learns_from j p wb wb'"

text \<open>The receiving half, from the bytes on the socket to the device.\<close>

lemma crossing_arrives:
  assumes ssl: "cbc_sizes ssl" "cbc_pairs ssl R" and b: "node_ok R wb" "j < length (peers wb)" "authenticated (peers wb ! j)"
    and p: "good_packet wb p" and c: "dec_ctx (peers wb ! j) = Ptr cd" "evp_dec_run ssl cd ct = Some (cd', p)"
    and fits: "length ct \<le> FRAME_PAYLOAD_MAXSIZE" "0 < length ct" and st: "wf_stack st" and buf: "length buf = FRAME_MAXSIZE"
    and cs: "chunks_ok cs" "concat cs = frame_header (host_le wb) FRAME_HDR_NETPACKET (of_nat (length ct)) @ ct"
    and none: "\<forall>k < length (peers wb). \<not> holds_route (wire_key wb p False) (peers wb ! k)"
  obtains r' wb' where
    "receive_frame (host_le wb) \<lparr>rx_buf = buf, rx_type = 0, rx_len = 0, rx_in = cs\<rparr> = Some (5 + int (length ct), r')"
    and "process_frame ssl st j (rx_buf r') (rx_type r') (rx_len r') wb = Some (0, wb')" and "node_ok R wb'"
    and "ctx_kept ssl (dec_used j cd' wb) wb'" and "same_peers wb wb'" and "same_routes {j} wb wb'"
    and "local_routes wb' = local_routes wb" and "tun_out wb' = tun_out wb @ [p]" and "learns_from j p wb wb'"
proof -
  obtain wb' where w': "route_packet ssl st j (p @ map (stale_bytes st) [length p..<PACKET_DATA_SIZE]) (of_nat (length p))
      (dec_used j cd' wb) = Some wb'" "node_ok R wb'" "ctx_kept ssl (dec_used j cd' wb) wb'" "same_peers wb wb'"
    "same_routes {j} wb wb'" "local_routes wb' = local_routes wb" "tun_out wb' = tun_out wb @ [p]" "learns_from j p wb wb'"
    using crossing_received [OF ssl b(1,2) p st none] by blast
  have "length p < FRAME_PAYLOAD_MAXSIZE" using p by (simp add: good_packet_def)
  from frame_routed [OF b(2,3) this c fits buf cs w'(1)] obtain r' where
    "receive_frame (host_le wb) \<lparr>rx_buf = buf, rx_type = 0, rx_len = 0, rx_in = cs\<rparr> = Some (5 + int (length ct), r')"
    "process_frame ssl st j (rx_buf r') (rx_type r') (rx_len r') wb = Some (0, wb')" .
  then show thesis using w'(2-8) by (rule that)
qed

lemma crossing:
  assumes ssl: "cbc_sizes ssl" "cbc_pairs ssl R" and link: "linked R i wa j wb" and v: "wf_tun v" and st: "wf_stack st"
    and seg: "segments seg" and buf: "length buf = FRAME_MAXSIZE" and p: "good_packet wa p"
    and to: "\<forall>k < length (peers wa). k \<noteq> i \<longrightarrow> \<not> holds_route (wire_key wa p False) (peers wa ! k)"
    and none: "\<forall>k < length (peers wb). \<not> holds_route (wire_key wa p False) (peers wb ! k)"
  shows "\<exists>v' wa' wb'. cross ssl seg st buf i j p v wa wb = Some (v', wa', wb') \<and> wf_tun v' \<and> crossed R i j p wa wb wa' wb'"
proof -
  have a: "node_ok R wa" "end_of i wa" and b: "node_ok R wb" "j < length (peers wb)" "end_of j wb" "authenticated (peers wb ! j)"
    and le: "host_le wb = host_le wa" and tap: "tuntap_tap_mode wb = tuntap_tap_mode wa"
    and other: "keyed R (peers wb ! j) (peers wa ! i)"
    using link by (simp_all add: linked_def end_of_def)
  have key: "wire_key wb p src = wire_key wa p src" for src by (simp add: wire_key_def le tap)
  obtain ce cd where c: "enc_ctx (peers wa ! i) = Ptr ce" "dec_ctx (peers wb ! j) = Ptr cd" "R ce cd"
    using link unfolding linked_def keyed_def by blast
  have size: "length p < FRAME_PAYLOAD_MAXSIZE" "length p < 2 ^ 31" using p by (simp_all add: good_packet_def frame_sizes)
  obtain ce' cd' ct where run: "evp_enc_run ssl ce p = Some (ce', ct)" "evp_dec_run ssl cd ct = Some (cd', p)" "R ce cd'"
    by (rule cbc_pairsD [OF ssl(2) c(3) size(2)])
  have lct: "length ct = cbc_padded (length p)" using enc_run_length [OF ssl(1) run(1)] .
  then have fits: "length ct \<le> FRAME_PAYLOAD_MAXSIZE" "0 < length ct" using size(1) by (simp_all add: cbc_padded_def frame_sizes)
  obtain v' wa' where s: "broadcast_packet ssl p v wa = Some (v', wa')" "wf_tun v'" "node_ok R wa'" "ctx_kept ssl wa wa'"
    "same_peers wa wa'" "same_routes {} wa wa'" "tun_out wa' = tun_out wa"
    "route_keys (local_routes wa') = insert (wire_key wa p True) (route_keys (local_routes wa))"
    "wire wa' (sockfd (peers wa ! i)) = wire wa (sockfd (peers wa ! i)) @ frame_for ssl FRAME_HDR_NETPACKET p wa i"
    using crossing_sent [OF ssl a v p to] by blast
  let ?new = "drop (length (wire wa (sockfd (peers wa ! i)))) (wire wa' (sockfd (peers wa ! i)))"
  have "frame_for ssl FRAME_HDR_NETPACKET p wa i = frame_header (host_le wb) FRAME_HDR_NETPACKET (of_nat (length ct)) @ ct"
    using a(2) c(1) run(1) by (simp add: frame_for_def end_of_def frame_bytes_def le)
  then have cs: "chunks_ok (seg ?new)" "concat (seg ?new) = frame_header (host_le wb) FRAME_HDR_NETPACKET (of_nat (length ct)) @ ct"
    using s(9) seg by (simp_all add: segments_def)
  have pb: "good_packet wb p" and nb: "\<forall>k < length (peers wb). \<not> holds_route (wire_key wb p False) (peers wb ! k)"
    using p none by (simp_all add: good_packet_def tap key)
  obtain r' wb' where
    r': "receive_frame (host_le wb) \<lparr>rx_buf = buf, rx_type = 0, rx_len = 0, rx_in = seg ?new\<rparr> = Some (5 + int (length ct), r')"
    and frame: "process_frame ssl st j (rx_buf r') (rx_type r') (rx_len r') wb = Some (0, wb')" and n: "node_ok R wb'"
    and k: "ctx_kept ssl (dec_used j cd' wb) wb'" and w': "same_peers wb wb'" "same_routes {j} wb wb'"
      "local_routes wb' = local_routes wb" "tun_out wb' = tun_out wb @ [p]" "learns_from j p wb wb'"
    by (rule crossing_arrives [OF ssl b(1,2,4) pb c(2) run(2) fits st buf cs nb])
  have dec: "dec_ctx (peers (dec_used j cd' wb) ! j) = Ptr cd'" "enc_ctx (peers (dec_used j cd' wb) ! j) = enc_ctx (peers wb ! j)"
    using b(2) by (simp_all add: dec_used_nth)
  have "keyed R (peers wa ! i) (peers (dec_used j cd' wb) ! j)" "keyed R (peers (dec_used j cd' wb) ! j) (peers wa ! i)"
    using c(1) run(3) dec other by (simp_all add: keyed_def)
  then have "keyed R (peers wa' ! i) (peers wb' ! j)" "keyed R (peers wb' ! j) (peers wa' ! i)"
    using keyed_kept [OF ssl(2) s(4)] keyed_kept [OF ssl(2) k] by simp_all
  then have "linked R i wa' j wb'"
    using s(3,5) n w'(1) end_of_same [OF s(5) a(2)] end_of_same [OF w'(1) b(3)] le tap
    by (simp add: linked_def same_peers_def)
  then have "crossed R i j p wa wb wa' wb'" using s w' by (simp add: crossed_def)
  then show ?thesis using s(1,2) r' frame by (simp add: cross_def Let_def)
qed

text \<open>Who holds an address after a crossing: the sender's table is as before, the receiver's may have the source.\<close>

lemma crossed_sender:
  assumes "crossed R i j p wa wb wa' wb'"
  shows "length (peers wa') = length (peers wa)" and "wire_key wa' x src = wire_key wa x src"
    and "k < length (peers wa) \<Longrightarrow> holds_route key (peers wa' ! k) = holds_route key (peers wa ! k)"
    and "good_packet wa' x = good_packet wa x" and "wire_key wa p True \<in> route_keys (local_routes wa')"
  using assms by (simp_all add: crossed_def same_peers_def same_routes_def holds_route_def wire_key_def good_packet_def)

lemma crossed_receiver:
  assumes "crossed R i j p wa wb wa' wb'"
  shows "length (peers wb') = length (peers wb)" and "wire_key wb' x src = wire_key wb x src"
    and "k < length (peers wb) \<Longrightarrow> k \<noteq> j \<Longrightarrow> holds_route key (peers wb' ! k) = holds_route key (peers wb ! k)"
    and "local_routes wb' = local_routes wb" and "key \<noteq> wire_key wb p True \<Longrightarrow> holds_route key (peers wb' ! j) = holds_route key (peers wb ! j)"
  using assms
  by (auto simp: crossed_def same_peers_def same_routes_def holds_route_def wire_key_def learns_from_def linked_def end_of_def
      split: if_splits)

lemma crossed_learnt:
  assumes "crossed R i j p wa wb wa' wb'" and "wire_key wb p False \<in> route_keys (local_routes wb)"
    and "\<forall>k < length (peers wb). k \<noteq> j \<longrightarrow> \<not> holds_route (wire_key wb p True) (peers wb ! k)"
  shows "find_index (holds_route (wire_key wb p True)) (peers wb') = Some j"
proof -
  have j: "j < length (peers wb)" "alive (peers wb ! j)" "alive (peers wb' ! j)"
    using assms(1) by (auto simp: crossed_def linked_def end_of_def same_peers_def)
  have "\<not> (\<exists>q \<in> set (peers wb). holds_route (wire_key wb p True) q) \<or> holds_route (wire_key wb p True) (peers wb ! j)"
    using assms(3) by (auto simp: in_set_conv_nth)
  then have "holds_route (wire_key wb p True) (peers wb' ! j)"
    using assms(1,2) j by (auto simp: crossed_def learns_from_def holds_route_def)
  then show ?thesis
    using assms(3) j(1) crossed_receiver(1,3) [OF assms(1)] by (auto simp: find_index_Some)
qed

text \<open>Nobody has the address; and a linked pair agrees on addresses.\<close>

definition unheld :: "bool \<times> bool \<times> byte list \<Rightarrow> ('k, 'c, 'a) peer_state_scheme \<Rightarrow> bool" where
  "unheld key w \<longleftrightarrow> (\<forall>k < length (peers w). \<not> holds_route key (peers w ! k))"

lemma linked_keys: "linked R i wa j wb \<Longrightarrow> wire_key wb x src = wire_key wa x src \<and> good_packet wb x = good_packet wa x"
  by (simp add: linked_def wire_key_def good_packet_def)

text \<open>A packet and the reply to it; the first then knows where the second is.\<close>

lemma two_crossings:
  assumes ssl: "cbc_sizes ssl" "cbc_pairs ssl R" and link: "linked R i wa j wb" and v: "wf_tun va" "wf_tun vb"
    and st: "wf_stack st" and seg: "segments seg" and buf: "length buf = FRAME_MAXSIZE"
    and good: "good_packet wa p" "good_packet wa q"
    and keys: "wire_key wa p True = a" "wire_key wa p False = b" "wire_key wa q True = b" "wire_key wa q False = a"
    and free: "unheld a wa" "unheld b wa" "unheld a wb" "unheld b wb"
  obtains va1 wa1 wb1 vb2 wb2 wa2 where "cross ssl seg st buf i j p va wa wb = Some (va1, wa1, wb1)" and "wf_tun va1"
    and "crossed R i j p wa wb wa1 wb1"
    and "cross ssl seg st buf j i q vb wb1 wa1 = Some (vb2, wb2, wa2)" and "crossed R j i q wb1 wa1 wb2 wa2"
    and "find_index (holds_route b) (peers wa2) = Some i"
proof -
  have key: "wire_key wb x src = wire_key wa x src" for x src using linked_keys [OF link] by simp
  obtain va1 wa1 wb1 where c1: "cross ssl seg st buf i j p va wa wb = Some (va1, wa1, wb1)" "wf_tun va1"
    and x1: "crossed R i j p wa wb wa1 wb1"
    using crossing [OF ssl link v(1) st seg buf good(1)] keys(2) free(2,4) unfolding unheld_def by blast
  note s1 = crossed_sender [OF x1] and r1 = crossed_receiver [OF x1]
  have l1: "linked R j wb1 i wa1" using x1 linked_sym by (auto simp: crossed_def)
  have g1: "good_packet wb1 q" using good(2) s1(4) linked_keys [OF l1] by simp
  have to1: "\<forall>k < length (peers wb1). k \<noteq> j \<longrightarrow> \<not> holds_route (wire_key wb1 q False) (peers wb1 ! k)"
    using keys(4) free(3) r1(1,3) by (simp add: unheld_def r1(2) key)
  have no1: "\<forall>k < length (peers wa1). \<not> holds_route (wire_key wb1 q False) (peers wa1 ! k)"
    using keys(4) free(1) s1(1,3) by (simp add: unheld_def r1(2) key)
  obtain vb2 wb2 wa2 where c2: "cross ssl seg st buf j i q vb wb1 wa1 = Some (vb2, wb2, wa2)"
    and x2: "crossed R j i q wb1 wa1 wb2 wa2"
    using crossing [OF ssl l1 v(2) st seg buf g1 to1 no1] by blast
  have "find_index (holds_route (wire_key wa1 q True)) (peers wa2) = Some i"
    using keys(1,3,4) free(2) s1(1-3,5) by (intro crossed_learnt [OF x2]) (simp_all add: unheld_def)
  then have "find_index (holds_route b) (peers wa2) = Some i" using keys(3) s1(2) by simp
  with c1 x1 c2 x2 show thesis by (rule that)
qed

section \<open>The handshake links\<close>

lemma authenticated_node:
  assumes "authenticate_peer ssl i r w = Some (True, r', w')" and "settled i w w'" and "alive (peers w ! i)"
    and "node_ok R w" and "keyed_with ssl key iv (peers w' ! i)" and "cbc_pairs ssl R"
    and "evp_dec_init ssl key iv = Some cd"
  shows "node_ok R w'" and "end_of i w'" and "host_le w' = host_le w" and "tuntap_tap_mode w' = tuntap_tap_mode w"
proof -
  have i: "i < length (peers w)" and a: "auth_only i w w'" and t: "authenticated (peers w' ! i)"
    using authenticate_peer_result [OF assms(1)] by blast+
  have same: "sockfd (peers w' ! k) = sockfd (peers w ! k) \<and> alive (peers w' ! k) = alive (peers w ! k)"
    if k: "k < length (peers w)" for k
  proof -
    have u: "unkeyed (peers w' ! k) = unkeyed (peers w ! k)" using a k by (simp add: auth_only_def)
    from arg_cong [OF u, of sockfd] arg_cong [OF u, of alive] show ?thesis by (simp add: unkeyed_def)
  qed
  obtain ce where "enc_ctx (peers w' ! i) = Ptr ce" "evp_enc_init ssl key iv = Some ce"
    using assms(5) by (auto simp: keyed_with_def)
  moreover from this(2) have "R ce cd" using assms(6,7) unfolding cbc_pairs_def by blast
  ultimately have own: "paired R (peers w' ! i)" by (auto simp: paired_def)
  have "paired R (peers w' ! k)" if "k < length (peers w)" for k
    using that own assms(2,4) by (cases "k = i") (simp_all add: settled_def node_ok_def)
  with assms(2,4) a same show "node_ok R w'"
    by (simp add: node_ok_def settled_def auth_only_def)
  show "end_of i w'" using i a t same assms(3) by (simp add: end_of_def auth_only_def)
  show "host_le w' = host_le w" "tuntap_tap_mode w' = tuntap_tap_mode w"
    using a by (simp_all add: auth_only_def tuntap_tap_mode_def)
qed

lemma keyed_withD:
  assumes "keyed_with ssl key iv p"
  obtains ce cd where "enc_ctx p = Ptr ce" "dec_ctx p = Ptr cd" "evp_enc_init ssl key iv = Some ce"
    "evp_dec_init ssl key iv = Some cd"
  using assms by (auto simp: keyed_with_def)

section \<open>Properties\<close>

text \<open>C2. The handshake is what links two daemons: run by two daemons that trust each other's key, over
  any segmentation and beside any connections they already have, it leaves them linked, as
  \<open>tunnel_exchange\<close> asks: each side's decryption context belongs to the other's encryption
  context, and every other connection of either is as it was.\<close>

theorem handshake_links:
  assumes "handshake_ready ssl i ks kc ws" and "\<not> is_client (peers ws ! i)"
    and "handshake_ready ssl j kc ks wc" and "is_client (peers wc ! j)"
    and "daemon_privkey wc = Ptr priv" and "host_le wc = host_le ws"
    and "pem_text ssl" and "rsa_pair ssl kc priv" and "rand_ok ssl" and "evp_ready ssl"
    and "74 \<le> rsa_size ssl kc" and "rsa_size ssl kc \<le> FRAME_PAYLOAD_MAXSIZE"
    and "length (rx_buf rs) = FRAME_MAXSIZE" and "chunks_ok (rx_in rs)"
    and "concat (rx_in rs) = wire_frame (host_le ws) FRAME_HDR_AUTH (pem_write_pub ssl kc)"
    and "cbc_pairs ssl R" and "node_ok R ws" and "node_ok R wc" and "tuntap_tap_mode wc = tuntap_tap_mode ws"
    and "length buf = FRAME_MAXSIZE" and "segments seg"
  shows "\<exists>rs' ws' rc' wc'. authenticate_peer ssl i rs ws = Some (True, rs', ws') \<and>
           authenticate_peer ssl j
             \<lparr>rx_buf = buf, rx_type = 0, rx_len = 0,
              rx_in = seg (drop (length (wire ws (sockfd (peers ws ! i)))) (wire ws' (sockfd (peers ws ! i))))\<rparr> wc =
             Some (True, rc', wc') \<and>
           linked R i ws' j wc' \<and>
           (\<forall>k. k \<noteq> i \<longrightarrow> peers ws' ! k = peers ws ! k) \<and> (\<forall>k. k \<noteq> j \<longrightarrow> peers wc' ! k = peers wc ! k)"
proof -
  obtain rs' ws' key iv where s: "authenticate_peer ssl i rs ws = Some (True, rs', ws')"
    "keyed_with ssl key iv (peers ws' ! i)" "settled i ws ws'"
    and c: "\<And>rc. length (rx_buf rc) = FRAME_MAXSIZE \<Longrightarrow> chunks_ok (rx_in rc) \<Longrightarrow>
              concat (rx_in rc) = drop (length (wire ws (sockfd (peers ws ! i)))) (wire ws' (sockfd (peers ws ! i))) \<Longrightarrow>
              \<exists>rc' wc'. authenticate_peer ssl j rc wc = Some (True, rc', wc') \<and>
                 keyed_with ssl key iv (peers wc' ! j) \<and> settled j wc wc'"
    using handshake_run [OF assms(1-15)] by blast
  let ?rc = "\<lparr>rx_buf = buf, rx_type = 0, rx_len = 0,
              rx_in = seg (drop (length (wire ws (sockfd (peers ws ! i)))) (wire ws' (sockfd (peers ws ! i))))\<rparr>"
  obtain rc' wc' where d: "authenticate_peer ssl j ?rc wc = Some (True, rc', wc')"
    "keyed_with ssl key iv (peers wc' ! j)" "settled j wc wc'"
    using c [of ?rc] assms(20,21) by (auto simp: segments_def)
  have up: "alive (peers ws ! i)" "alive (peers wc ! j)" using assms(1,3) by (simp_all add: handshake_ready_def)
  obtain es ds where a: "enc_ctx (peers ws' ! i) = Ptr es" "dec_ctx (peers ws' ! i) = Ptr ds"
    "evp_enc_init ssl key iv = Some es" "evp_dec_init ssl key iv = Some ds" by (rule keyed_withD [OF s(2)])
  obtain ec dc where b: "enc_ctx (peers wc' ! j) = Ptr ec" "dec_ctx (peers wc' ! j) = Ptr dc"
    "evp_enc_init ssl key iv = Some ec" "evp_dec_init ssl key iv = Some dc" by (rule keyed_withD [OF d(2)])
  have "R es ds" using assms(16) a(3,4) unfolding cbc_pairs_def by blast
  then have "keyed R (peers ws' ! i) (peers wc' ! j)" "keyed R (peers wc' ! j) (peers ws' ! i)"
    using a b by (simp_all add: keyed_def)
  then have "linked R i ws' j wc'"
    using authenticated_node [OF s(1,3) up(1) assms(17) s(2) assms(16) a(4)]
      authenticated_node [OF d(1,3) up(2) assms(18) d(2) assms(16) a(4)] assms(6,19)
    by (simp add: linked_def)
  with s(1,3) d(1,3) show ?thesis by (auto simp: settled_def)
qed

theorem handshake_links_witness:
  "\<exists>rs' ws' rc' wc'.
     authenticate_peer toy_ssl 0 (demo_rx [wire_frame True FRAME_HDR_AUTH (pem_write_pub toy_ssl True)])
       (demo_side False True False\<lparr>if_fd := 7\<rparr>) = Some (True, rs', ws') \<and>
     authenticate_peer toy_ssl 0 (demo_rx (map (\<lambda>b. [b]) (wire ws' 4))) (demo_side True False True\<lparr>if_fd := 7\<rparr>) =
       Some (True, rc', wc') \<and>
     linked (\<lambda>_ _. True) 0 ws' 0 wc'"
proof -
  let ?s = "demo_side False True False\<lparr>if_fd := 7\<rparr>" and ?c = "demo_side True False True\<lparr>if_fd := 7\<rparr>"
  let ?f = "wire_frame True FRAME_HDR_AUTH (pem_write_pub toy_ssl True)"
  have ready: "handshake_ready toy_ssl 0 False True ?s" "handshake_ready toy_ssl 0 True False ?c"
    using demo_ready by (simp_all add: handshake_ready_def send_good_def)
  have s: "\<not> is_client (peers ?s ! 0)" "is_client (peers ?c ! 0)" "daemon_privkey ?c = Ptr True" "host_le ?c = host_le ?s"
    by (simp_all add: demo_side_fields initialize_peer_def)
  have c: "chunks_ok (rx_in (demo_rx [?f]))" "concat (rx_in (demo_rx [?f])) = wire_frame (host_le ?s) FRAME_HDR_AUTH (pem_write_pub toy_ssl True)"
    by (simp_all add: demo_rx_ok demo_side_fields frame_bytes_def frame_header_def)
  have rets: "write_rets (demo_side a b c) = []" "if_tap (demo_side a b c) = False" for a b c
    by (simp_all add: demo_side_def peer_state_init_def key_init_def iface_init_def cfg_init_def log_init_def
        os_init_def os.defs log_state.defs cfg_state.defs iface_state.defs key_state.defs)
  have n: "node_ok (\<lambda>_ _. True) ?s" "node_ok (\<lambda>_ _. True) ?c" "tuntap_tap_mode ?c = tuntap_tap_mode ?s"
    by (simp_all add: node_ok_def paired_def demo_side_fields rets send_good_def tuntap_tap_mode_def initialize_peer_def)
  have seg: "segments (map (\<lambda>b. [b]))" by (simp add: segments_def list_all_iff)
  have buf: "length (replicate 2053 (0 :: byte)) = FRAME_MAXSIZE" by (simp add: frame_sizes)
  have w: "wire ?s (sockfd (peers ?s ! 0)) = []" "sockfd (peers ?s ! 0) = 4" by (simp_all add: demo_side_fields)
  have rx: "demo_rx cs = \<lparr>rx_buf = replicate 2053 0, rx_type = 0, rx_len = 0, rx_in = cs\<rparr>" for cs by (simp add: demo_rx_def)
  show ?thesis
    using handshake_links [OF ready(1) s(1) ready(2) s(2-4) toy_pem_text toy_rsa_pair toy_rand_ok toy_evp_ready
        demo_size demo_rx_ok(1) c toy_cbc_pairs n buf seg] unfolding w rx [symmetric] by (auto simp: demo_side_fields)
qed

text \<open>C3. The network works: of two linked daemons the first reads a packet \<open>p\<close> from its device, the second a
  reply \<open>q\<close>, the first a further packet \<open>p2\<close>. Each arrives unchanged on the other's device, whatever the
  segmentation and whatever the buffers and stack variables held; the daemons stay linked; and
  afterwards each has the other's address as a route of the connection, so that packets between the
  two go to this peer alone and are no longer flooded.\<close>

theorem tunnel_exchange:
  assumes "cbc_sizes ssl" and "cbc_pairs ssl R" and "linked R i wa j wb" and "wf_tun va" and "wf_tun vb"
    and "wf_stack st" and "segments seg" and "length buf = FRAME_MAXSIZE"
    and "good_packet wa p" and "good_packet wa q" and "good_packet wa p2"
    and "wire_key wa p True = a" and "wire_key wa p False = b" and "wire_key wa q True = b" and "wire_key wa q False = a"
    and "wire_key wa p2 True = a" and "wire_key wa p2 False = b" and "a \<noteq> b"
    and "unheld a wa" and "unheld b wa" and "unheld a wb" and "unheld b wb"
  shows "\<exists>va1 wa1 wb1 vb2 wb2 wa2 va3 wa3 wb3.
           cross ssl seg st buf i j p va wa wb = Some (va1, wa1, wb1) \<and>
           cross ssl seg st buf j i q vb wb1 wa1 = Some (vb2, wb2, wa2) \<and>
           cross ssl seg st buf i j p2 va1 wa2 wb2 = Some (va3, wa3, wb3) \<and>
           tun_out wb3 = tun_out wb @ [p, p2] \<and> tun_out wa3 = tun_out wa @ [q] \<and> linked R i wa3 j wb3 \<and>
           find_index (holds_route b) (peers wa3) = Some i \<and> find_index (holds_route a) (peers wb3) = Some j"
proof -
  note ssl = assms(1,2)
  have key: "wire_key wb x src = wire_key wa x src" for x src using linked_keys [OF assms(3)] by simp
  obtain va1 wa1 wb1 vb2 wb2 wa2 where c1: "cross ssl seg st buf i j p va wa wb = Some (va1, wa1, wb1)" "wf_tun va1"
    and x1: "crossed R i j p wa wb wa1 wb1"
    and c2: "cross ssl seg st buf j i q vb wb1 wa1 = Some (vb2, wb2, wa2)" and x2: "crossed R j i q wb1 wa1 wb2 wa2"
    and f2: "find_index (holds_route b) (peers wa2) = Some i"
    by (rule two_crossings [OF assms(1-10,12-15,19-22)])
  note s1 = crossed_sender [OF x1] and r1 = crossed_receiver [OF x1]
  note s2 = crossed_sender [OF x2] and r2 = crossed_receiver [OF x2]
  have l1: "linked R j wb1 i wa1" using x1 linked_sym by (auto simp: crossed_def)
  have l2: "linked R i wa2 j wb2" using x2 linked_sym by (auto simp: crossed_def)
  have kb: "wire_key wb1 x src = wire_key wa x src" "wire_key wa2 x src = wire_key wa x src" "wire_key wb2 x src = wire_key wa x src" for x src
    using r1(2) s2(2) r2(2) s1(2) key by simp_all
  have g2: "good_packet wa2 p2" using assms(11) s1(4) s2(4) linked_keys [OF l2] linked_keys [OF l1] by simp
  have to2: "\<forall>k < length (peers wa2). k \<noteq> i \<longrightarrow> \<not> holds_route (wire_key wa2 p2 False) (peers wa2 ! k)"
    using assms(17,20) s1(1,3) r2(1,3) by (simp add: unheld_def kb)
  have no2: "\<forall>k < length (peers wb2). \<not> holds_route (wire_key wa2 p2 False) (peers wb2 ! k)"
  proof (intro allI impI)
    fix k assume "k < length (peers wb2)"
    then show "\<not> holds_route (wire_key wa2 p2 False) (peers wb2 ! k)"
      using assms(12,17,18,22) r1(1,3,5) s2(1,3) by (cases "k = j") (simp_all add: unheld_def kb key)
  qed
  obtain va3 wa3 wb3 where c3: "cross ssl seg st buf i j p2 va1 wa2 wb2 = Some (va3, wa3, wb3)"
    and x3: "crossed R i j p2 wa2 wb2 wa3 wb3"
    using crossing [OF ssl l2 c1(2) assms(6-8) g2 to2 no2] by blast
  have "find_index (holds_route (wire_key wb2 p2 True)) (peers wb3) = Some j"
    using assms(14,16,17,21) s2(1,3,5) r1(1,3) by (intro crossed_learnt [OF x3]) (simp_all add: unheld_def kb)
  then have f3: "find_index (holds_route a) (peers wb3) = Some j" using assms(16) kb(3) by simp
  have "find_index (holds_route b) (peers wa3) = Some i"
    using f2 crossed_sender(1,3) [OF x3] by (auto simp: find_index_Some)
  then show ?thesis using c1(1) c2 c3 f3 x1 x2 x3 by (auto simp: crossed_def)
qed

definition demo_reply :: "byte list" where
  "demo_reply = [0, 0, 8, 0] @ replicate 12 0 @ [10, 0, 0, 2] @ [10, 0, 0, 1] @ replicate 20 7"

definition demo_vars :: tun_vars where
  "demo_vars = tun_vars_init (\<lambda>_. 9) (\<lambda>_. 9)"

lemma demo_linked: "linked (\<lambda>_ _. True) 0 demo_world 0 demo_world"
  by (simp add: linked_def node_ok_def end_of_def keyed_def paired_def demo_world_fields demo_peer_fields send_good_def)

lemma demo_keys:
  "wire_key demo_world demo_packet True = (False, True, [1, 0, 0, 10])"
  "wire_key demo_world demo_packet False = (False, True, [2, 0, 0, 10])"
  "wire_key demo_world demo_reply True = (False, True, [2, 0, 0, 10])"
  "wire_key demo_world demo_reply False = (False, True, [1, 0, 0, 10])"
  by (simp_all add: wire_key_def demo_world_fields tuntap_tap_mode_def demo_packet_def demo_reply_def packet_addr_def
      be_u16_def ETH_P_IP_def host_order_def)

lemma demo_good: "good_packet demo_world demo_packet" "good_packet demo_world demo_reply"
  by (simp_all add: good_packet_def demo_packet_def demo_reply_def packet_addr_def be_u16_def ETH_P_IP_def HEADER_SPAN_def
      frame_sizes demo_world_fields tuntap_tap_mode_def)

theorem tunnel_exchange_witness:
  "\<exists>va1 wa1 wb1 vb2 wb2 wa2 va3 wa3 wb3.
     cross toy_ssl (map (\<lambda>b. [b])) demo_stack (replicate 2053 0) 0 0 demo_packet demo_vars demo_world demo_world = Some (va1, wa1, wb1) \<and>
     cross toy_ssl (map (\<lambda>b. [b])) demo_stack (replicate 2053 0) 0 0 demo_reply demo_vars wb1 wa1 = Some (vb2, wb2, wa2) \<and>
     cross toy_ssl (map (\<lambda>b. [b])) demo_stack (replicate 2053 0) 0 0 demo_packet va1 wa2 wb2 = Some (va3, wa3, wb3) \<and>
     tun_out wb3 = [demo_packet, demo_packet] \<and> tun_out wa3 = [demo_reply]"
proof -
  have v: "wf_tun demo_vars" by (simp add: demo_vars_def wf_tun_def tun_vars_init_def wf_route_def)
  have seg: "segments (map (\<lambda>b. [b]))" by (simp add: segments_def list_all_iff)
  have buf: "length (replicate 2053 (0 :: byte)) = FRAME_MAXSIZE" by (simp add: frame_sizes)
  have free: "unheld k demo_world" for k
    by (simp add: unheld_def holds_route_def demo_world_fields demo_peer_fields route_keys_def)
  have out: "tun_out demo_world = []" by (simp add: demo_world_fields)
  show ?thesis
    using tunnel_exchange [OF toy_cbc_sizes toy_cbc_pairs demo_linked v v demo_stack_wf seg buf demo_good demo_good(1)
        demo_keys demo_keys(1,2) _ free free free free]
    unfolding out by auto
qed

end
