(* ===== verification/Switch.thy ===== *)
theory Switch
  imports Tunnel
begin

text \<open>
  What the daemon is for its network: a switch with one port per connection and one for the device.
  \<open>switch_step\<close> is the whole of its behaviour on addresses; \<open>switch_of\<close> reads the tables of a daemon as a
  switch. The daemon refines the switch: fed any sequence of packets, from its device and in frames
  from the other ends of its connections, it hands each packet to the ports the switch names, in the
  order of the switch.
\<close>

section \<open>The switch\<close>

type_synonym key = "bool \<times> bool \<times> byte list"

record switch =
  up :: "nat list"
  here :: "key set"
  there :: "nat \<Rightarrow> key set"

definition owner :: "switch \<Rightarrow> key \<Rightarrow> nat option" where
  "owner s b = find (\<lambda>k. b \<in> there s k) (up s)"

definition learn_at :: "nat \<Rightarrow> key \<Rightarrow> switch \<Rightarrow> switch" where
  "learn_at j a s = (if owner s a = None then s\<lparr>there := (there s)(j := insert a (there s j))\<rparr> else s)"

text \<open>
  A packet from the device (\<open>None\<close>) or a port, with its source and destination; the result is where it
  goes. A source is learnt from the device always, from a port only when the packet is delivered to the
  device because its destination is here.
\<close>

fun switch_step :: "nat option \<Rightarrow> key \<Rightarrow> key \<Rightarrow> switch \<Rightarrow> nat option list \<times> switch" where
  "switch_step None a b s =
     ((case owner s b of Some t \<Rightarrow> [Some t] | None \<Rightarrow> map Some (up s)), s\<lparr>here := insert a (here s)\<rparr>)"
| "switch_step (Some j) a b s =
     (if b \<in> here s then ([None], learn_at j a s)
      else (case owner s b of Some t \<Rightarrow> [Some t] | None \<Rightarrow> None # map Some (filter (\<lambda>k. k \<noteq> j) (up s)), s))"

text \<open>A sequence of packets; the outputs are pairs of a port and a packet.\<close>

fun switch_run ::
  "(byte list \<Rightarrow> bool \<Rightarrow> key) \<Rightarrow> (nat option \<times> byte list) list \<Rightarrow> switch
     \<Rightarrow> (nat option \<times> byte list) list \<times> switch" where
  "switch_run key [] s = ([], s)"
| "switch_run key ((from, p) # evs) s =
     (let (outs, s1) = switch_step from (key p True) (key p False) s;
          (rest, s2) = switch_run key evs s1
      in (map (\<lambda>d. (d, p)) outs @ rest, s2))"

definition packets_at :: "nat option \<Rightarrow> (nat option \<times> byte list) list \<Rightarrow> byte list list" where
  "packets_at d outs = map snd (filter (\<lambda>(d', p). d' = d) outs)"

lemma packets_at_append: "packets_at d (xs @ ys) = packets_at d xs @ packets_at d ys"
  by (simp add: packets_at_def)

lemma packets_at_step:
  "distinct outs \<Longrightarrow> packets_at d (map (\<lambda>d. (d, p)) outs) = (if d \<in> set outs then [p] else [])"
  by (induction outs) (auto simp: packets_at_def)

lemma switch_step_up: "up (snd (switch_step from a b s)) = up s"
  by (cases "from") (simp_all add: learn_at_def)

lemma switch_step_distinct: "distinct (up s) \<Longrightarrow> distinct (fst (switch_step from a b s))"
  by (cases "from") (auto simp: distinct_map split: option.split)

section \<open>A daemon as a switch\<close>

definition switch_of :: "('k, 'c, 'a) peer_state_scheme \<Rightarrow> switch" where
  "switch_of w =
     \<lparr>up = filter (\<lambda>k. alive (peers w ! k)) [0..<length (peers w)], here = route_keys (local_routes w),
      there = (\<lambda>k. if k < length (peers w) then route_keys (peer_routes (peers w ! k)) else {})\<rparr>"

lemma find_filter: "find P (filter Q xs) = find (\<lambda>x. Q x \<and> P x) xs"
  by (induction xs) auto

lemma find_upt: "find (\<lambda>k. P (xs ! k)) [0..<length xs] = find_index P xs"
proof -
  have "find (\<lambda>k. P (xs ! k)) [0..<length xs] = Some i \<longleftrightarrow> find_index P xs = Some i" for i
    by (auto simp: find_Some_iff find_index_Some)
  then show ?thesis by (metis not_None_eq)
qed

lemma find_cong': "(\<And>x. x \<in> set xs \<Longrightarrow> P x = Q x) \<Longrightarrow> find P xs = find Q xs"
  by (induction xs) auto

lemma owner_switch_of: "owner (switch_of w) b = find_index (holds_route b) (peers w)"
proof -
  have "owner (switch_of w) b = find (\<lambda>k. holds_route b (peers w ! k)) [0..<length (peers w)]"
    by (auto simp: owner_def switch_of_def find_filter holds_route_def intro!: find_cong')
  then show ?thesis by (simp add: find_upt)
qed

lemma switch_of_up: "k \<in> set (up (switch_of w)) \<longleftrightarrow> k < length (peers w) \<and> alive (peers w ! k)"
  "distinct (up (switch_of w))"
  by (auto simp: switch_of_def)

lemma switch_of_here [simp]: "here (switch_of w) = route_keys (local_routes w)"
  by (simp add: switch_of_def)

text \<open>The switch of a state, from the tables it has been left with.\<close>

lemma switch_of_tables:
  assumes "same_peers w w'"
  shows "switch_of w' =
    \<lparr>up = up (switch_of w), here = route_keys (local_routes w'),
     there = (\<lambda>k. if k < length (peers w) then route_keys (peer_routes (peers w' ! k)) else {})\<rparr>"
  using assms by (auto simp: switch_of_def same_peers_def intro!: filter_cong)

lemma switch_of_eq:
  assumes "same_peers w w'"
    and "\<And>k. k < length (peers w) \<Longrightarrow> route_keys (peer_routes (peers w' ! k)) = route_keys (peer_routes (peers w ! k))"
  shows "switch_of w' = (switch_of w)\<lparr>here := route_keys (local_routes w')\<rparr>"
  unfolding switch_of_tables [OF assms(1)] using assms(2) by (simp add: switch_of_def cong: if_cong)

lemma switch_of_learnt:
  assumes "same_peers w w'" and "same_routes {j} w w'" and "local_routes w' = local_routes w" and "j < length (peers w)"
    and "learns_from j p w w'" and "wire_key w p False \<in> route_keys (local_routes w)"
  shows "switch_of w' = learn_at j (wire_key w p True) (switch_of w)"
proof -
  have "owner (switch_of w) (wire_key w p True) = None \<longleftrightarrow> \<not> (\<exists>q \<in> set (peers w). holds_route (wire_key w p True) q)"
    by (simp add: owner_switch_of find_index_None)
  with assms(2,4-6) have "(if k < length (peers w) then route_keys (peer_routes (peers w' ! k)) else {}) =
      there (learn_at j (wire_key w p True) (switch_of w)) k" for k
    by (simp add: learn_at_def switch_of_def [of w] learns_from_def same_routes_def)
  then have "switch_of w' = \<lparr>up = up (switch_of w), here = here (switch_of w),
      there = there (learn_at j (wire_key w p True) (switch_of w))\<rparr>"
    unfolding switch_of_tables [OF assms(1)] assms(3) by simp
  then show ?thesis by (simp add: learn_at_def)
qed

lemma switch_of_here_same [simp]: "(switch_of w)\<lparr>here := route_keys (local_routes w)\<rparr> = switch_of w"
  by (simp add: switch_of_def)

text \<open>What one packet does, on the side of the daemon.\<close>

definition switched ::
  "('k, 'c) openssl \<Rightarrow> nat option \<Rightarrow> byte list \<Rightarrow> ('k, 'c, 'a) peer_state_scheme \<Rightarrow> ('k, 'c, 'a) peer_state_scheme \<Rightarrow> bool"
  where
  "switched ssl from p w w' \<longleftrightarrow>
     (case switch_step from (wire_key w p True) (wire_key w p False) (switch_of w) of (outs, s) \<Rightarrow>
        switch_of w' = s \<and> tun_out w' = tun_out w @ (if None \<in> set outs then [p] else []) \<and>
        (\<forall>k < length (peers w). alive (peers w ! k) \<longrightarrow>
           wire w' (sockfd (peers w ! k)) = wire w (sockfd (peers w ! k)) @
             (if Some k \<in> set outs then frame_for ssl FRAME_HDR_NETPACKET p w k else [])))"

lemma node_sockets:
  assumes "node_ok R w" and "i < length (peers w)" and "j < length (peers w)" and "alive (peers w ! i)" and "alive (peers w ! j)"
  shows "sockfd (peers w ! i) = sockfd (peers w ! j) \<longleftrightarrow> i = j"
  using assms unfolding node_ok_def by blast

lemma device_switched:
  assumes ssl: "cbc_sizes ssl" "cbc_pairs ssl R" and w: "node_ok R w" and v: "wf_tun v" and p: "good_packet w p"
  shows "\<exists>v' w'. broadcast_packet ssl p v w = Some (v', w') \<and> wf_tun v' \<and> node_ok R w' \<and> ctx_kept ssl w w' \<and>
           same_peers w w' \<and> switched ssl None p w w'"
proof -
  have ip: "HEADER_SPAN \<le> length p" "length p < FRAME_PAYLOAD_MAXSIZE" "packet_addr (tuntap_tap_mode w) p True \<noteq> None"
    using p by (simp_all add: good_packet_def)
  note ok = node_sends_ok [OF ssl w ip(2)]
  obtain v' w' where run: "broadcast_packet ssl p v w = Some (v', w')" "wf_tun v'"
    "route_keys (local_routes w') = insert (wire_key w p True) (route_keys (local_routes w))" "tun_out w' = tun_out w"
    and out: "case find_index (holds_route (wire_key w p False)) (peers w) of
              Some t \<Rightarrow> wire w' = (wire w)(sockfd (peers w ! t) :=
                  wire w (sockfd (peers w ! t)) @ frame_for ssl FRAME_HDR_NETPACKET p w t)
            | None \<Rightarrow> (\<forall>j < length (peers w). alive (peers w ! j) \<longrightarrow>
                   wire w' (sockfd (peers w ! j)) = wire w (sockfd (peers w ! j)) @
                     frame_for ssl FRAME_HDR_NETPACKET p w j)"
    using broadcast_packet_exact [OF v ip ok] by blast
  have kept: "node_ok R w'" "ctx_kept ssl w w'" "same_peers w w'" "same_routes {} w w'"
    using broadcast_kept [OF ssl w v p run(1)] by blast+
  have sw: "switch_of w' = (switch_of w)\<lparr>here := insert (wire_key w p True) (route_keys (local_routes w))\<rparr>"
    using switch_of_eq [OF kept(3)] kept(4) run(3) by (simp add: same_routes_def)
  have "switched ssl None p w w'"
  proof (cases "find_index (holds_route (wire_key w p False)) (peers w)")
    case None
    then show ?thesis
      using out sw run(4) by (auto simp: switched_def owner_switch_of switch_of_up)
  next
    case (Some t)
    then have "t < length (peers w)" "alive (peers w ! t)"
      using find_index_SomeD [OF Some] by (simp_all add: holds_route_def)
    then show ?thesis
      using out sw run(4) Some node_sockets [OF w] by (auto simp: switched_def owner_switch_of)
  qed
  with run(1,2) kept(1-3) show ?thesis by blast
qed

lemma routed_to_peer:
  assumes ssl: "cbc_sizes ssl" "cbc_pairs ssl R" and w: "node_ok R w" and p: "good_packet w p" and st: "wf_stack st"
    and far: "wire_key w p False \<notin> route_keys (local_routes w)"
    and some: "find_index (holds_route (wire_key w p False)) (peers w) = Some t"
    and run: "route_packet ssl st j (p @ q) (of_nat (length p)) w = Some w'"
  shows "sends_only w w' \<and> ctx_kept ssl w w' \<and> send_good w'"
proof -
  let ?n = "of_nat (length p) :: u32"
  have ip: "HEADER_SPAN \<le> length p" "length p < FRAME_PAYLOAD_MAXSIZE" "packet_addr (tuntap_tap_mode w) p False \<noteq> None"
    using p packet_addr_source [of "tuntap_tap_mode w" p True False] by (simp_all add: good_packet_def)
  have "unat ?n = length p" using ip(2) by (simp add: unat_of_nat frame_sizes)
  then have n: "p = take (unat ?n) (p @ q)" "unat ?n \<le> length (p @ q)" "unat ?n < 2 ^ 31"
    using ip(2) by (simp_all add: frame_sizes)
  obtain r where r: "parse_packet_addr (host_le w) (tuntap_tap_mode w) (p @ q) (stale_route st) False = Some r"
      "route_key r = wire_key w p False"
    using ip(1) st ip(3) by (rule parse_wire_key)
  have "\<not> is_local_route r w" "get_peer_route r w = Some t"
    using far some get_peer_route_holds [OF r(2), of w] by (simp_all add: is_local_route_known route_known_key r(2))
  then have "send_data_to_peer ssl FRAME_HDR_NETPACKET (p @ q) ?n True t w = Some w'"
    using run r(1) by (simp add: route_packet_def)
  then show ?thesis
    using sends_kept(1) [OF node_sends_ok [OF ssl w ip(2)] n] find_index_SomeD(1) [OF some] by blast
qed

text \<open>The port side, after decryption.\<close>

lemma route_switched:
  assumes ssl: "cbc_sizes ssl" "cbc_pairs ssl R" and w: "node_ok R w" "j < length (peers w)" and p: "good_packet w p"
    and st: "wf_stack st"
  shows "\<exists>w'. route_packet ssl st j (p @ q) (of_nat (length p)) w = Some w' \<and> node_ok R w' \<and> ctx_kept ssl w w' \<and>
           same_peers w w' \<and> switched ssl (Some j) p w w'"
proof -
  let ?a = "wire_key w p True" and ?b = "wire_key w p False"
  have ip: "HEADER_SPAN \<le> length p" "length p < FRAME_PAYLOAD_MAXSIZE" "packet_addr (tuntap_tap_mode w) p False \<noteq> None"
    using p packet_addr_source [of "tuntap_tap_mode w" p True False] by (simp_all add: good_packet_def)
  note ok = node_sends_ok [OF ssl w(1) ip(2)]
  obtain w' where run: "route_packet ssl st j (p @ q) (of_nat (length p)) w = Some w'" "routed_as_specified ssl j p w w'"
    using route_packet_exact [OF w(2) ip(1,2) st ip(3) ok] by blast
  show ?thesis
  proof (cases "?b \<in> route_keys (local_routes w)")
    case True
    have kept: "node_ok R w'" "ctx_kept ssl w w'" "same_peers w w'" "same_routes {j} w w'" "local_routes w' = local_routes w"
      "learns_from j p w w'"
      using routed_known [OF w p st True, of ssl q] run(1) by auto
    then have "switched ssl (Some j) p w w'"
      using run(2) True switch_of_learnt [OF kept(3-5) w(2) kept(6)]
      by (simp add: switched_def routed_as_specified_def packet_fate_def)
    with run(1) kept(1-3) show ?thesis by blast
  next
    case far: False
    show ?thesis
    proof (cases "find_index (holds_route ?b) (peers w)")
      case None
      have "\<forall>k < length (peers w). \<not> holds_route ?b (peers w ! k)" using None by (simp add: find_index_None)
      then have kept: "node_ok R w'" "ctx_kept ssl w w'" "same_peers w w'" "same_routes {j} w w'"
        "local_routes w' = local_routes w" "learns_from j p w w'"
        using routed_unknown [OF ssl w(1) p st far, of j q] run(1) w(2) by auto
      have "switch_of w' = switch_of w"
        using switch_of_eq [OF kept(3)] kept(4-6) far by (fastforce simp: same_routes_def learns_from_def)
      with run(2) far None have "switched ssl (Some j) p w w'"
        by (auto simp: switched_def routed_as_specified_def packet_fate_def owner_switch_of switch_of_up)
      with run(1) kept(1-3) show ?thesis by blast
    next
      case (Some t)
      have t: "t < length (peers w)" "alive (peers w ! t)"
        using find_index_SomeD [OF Some] by (simp_all add: holds_route_def)
      have kept: "sends_only w w'" "ctx_kept ssl w w'" "send_good w'"
        using routed_to_peer [OF ssl w(1) p st far Some run(1)] by blast+
      have "switch_of w' = switch_of w"
        using switch_of_eq [OF sends_same(1) [OF kept(1)]] core_flags(4) [OF kept(1)] sends_only_fields [OF kept(1)] by simp
      with run(2) far Some t have "switched ssl (Some j) p w w'"
        using node_sockets [OF w(1)]
        by (auto simp: switched_def routed_as_specified_def packet_fate_def owner_switch_of)
      with run(1) kept sends_same(1) [OF kept(1)] node_ok_kept [OF ssl(2) w(1) kept] show ?thesis by blast
    qed
  qed
qed

lemma switched_dec_used:
  assumes "switched ssl from p (dec_used j c w) w'" and "j < length (peers w)"
  shows "switched ssl from p w w'"
proof -
  have "switch_of (dec_used j c w) = switch_of w"
    using assms(2) by (simp add: switch_of_def dec_used_fields dec_used_peer cong: if_cong)
  then show ?thesis
    using assms(1) unfolding switched_def dec_used_same(1) [OF assms(2)] dec_used_fields dec_used_peer [OF assms(2)]
      dec_used_frame_for [OF assms(2)] by simp
qed

section \<open>The other ends of the connections\<close>

text \<open>
  Each connection has another end, with an encryption and a decryption context (\<open>fe k\<close>, \<open>fd k\<close>) that
  belong to the contexts of the slot.
\<close>

definition far_ends :: "('c \<Rightarrow> 'c \<Rightarrow> bool) \<Rightarrow> (nat \<Rightarrow> 'c) \<Rightarrow> (nat \<Rightarrow> 'c) \<Rightarrow> ('k, 'c, 'a) peer_state_scheme \<Rightarrow> bool" where
  "far_ends R fe fd w \<longleftrightarrow>
     (\<forall>k. end_of k w \<longrightarrow>
        (\<exists>ce cd. enc_ctx (peers w ! k) = Ptr ce \<and> dec_ctx (peers w ! k) = Ptr cd \<and> R ce (fd k) \<and> R (fe k) cd))"

text \<open>Reading a sequence of ciphertexts, and bytes that carry packets to a far end.\<close>

fun decrypt_all :: "('k, 'c) openssl \<Rightarrow> 'c \<Rightarrow> byte list list \<Rightarrow> ('c \<times> byte list list) option" where
  "decrypt_all ssl c [] = Some (c, [])"
| "decrypt_all ssl c (ct # cts) =
     do {
       (c1, p) \<leftarrow> evp_dec_run ssl c ct;
       (c2, ps) \<leftarrow> decrypt_all ssl c1 cts;
       Some (c2, p # ps)
     }"

definition carries :: "('k, 'c) openssl \<Rightarrow> bool \<Rightarrow> byte list \<Rightarrow> 'c \<Rightarrow> byte list list \<Rightarrow> 'c \<Rightarrow> bool" where
  "carries ssl le bs c ps c' \<longleftrightarrow>
     (\<exists>cts. bs = concat (map (wire_frame le FRAME_HDR_NETPACKET) cts) \<and> decrypt_all ssl c cts = Some (c', ps))"

lemma carries_nothing: "carries ssl le [] c [] c"
  by (auto simp: carries_def intro!: exI [of _ "[]"])

lemma carries_one: "evp_dec_run ssl c ct = Some (c', p) \<Longrightarrow> carries ssl le (wire_frame le FRAME_HDR_NETPACKET ct) c [p] c'"
  by (auto simp: carries_def intro!: exI [of _ "[ct]"])

lemma decrypt_all_append:
  "decrypt_all ssl c xs = Some (c1, ps) \<Longrightarrow> decrypt_all ssl c1 ys = Some (c2, qs) \<Longrightarrow>
     decrypt_all ssl c (xs @ ys) = Some (c2, ps @ qs)"
  by (induction xs arbitrary: c ps) (auto simp: Option.bind_eq_Some_conv)

lemma carries_append:
  assumes "carries ssl le bs c ps c1" and "carries ssl le bs' c1 qs c2"
  shows "carries ssl le (bs @ bs') c (ps @ qs) c2"
proof -
  obtain xs ys where x: "bs = concat (map (wire_frame le FRAME_HDR_NETPACKET) xs)" "decrypt_all ssl c xs = Some (c1, ps)"
    and y: "bs' = concat (map (wire_frame le FRAME_HDR_NETPACKET) ys)" "decrypt_all ssl c1 ys = Some (c2, qs)"
    using assms by (auto simp: carries_def)
  have "decrypt_all ssl c (xs @ ys) = Some (c2, ps @ qs)" using x(2) y(2) by (rule decrypt_all_append)
  with x(1) y(1) show ?thesis unfolding carries_def by (intro exI [of _ "xs @ ys"]) simp
qed

text \<open>What a port puts on its socket, read at the far end.\<close>

lemma port_output:
  assumes ssl: "cbc_pairs ssl R" and p: "length p < 2 ^ 31" and up: "alive (peers w ! k)" "authenticated (peers w ! k)"
    and enc: "enc_ctx (peers w ! k) = Ptr ce" "R ce cd" and kept: "ctx_kept ssl u w'" "enc_ctx (peers u ! k) = enc_ctx (peers w ! k)"
  obtains cd' ce' where "carries ssl (host_le w) (if sent then frame_for ssl FRAME_HDR_NETPACKET p w k else []) cd
      (if sent then [p] else []) cd'" and "enc_ctx (peers w' ! k) = Ptr ce'" and "R ce' cd'"
proof (cases sent)
  case False
  obtain ce' where "enc_ctx (peers w' ! k) = Ptr ce'" "R ce' cd"
    by (rule ctx_keptD [OF kept(1) enc_closed_paired [OF ssl] enc(1) [folded kept(2)] enc(2)])
  with False show thesis by (intro that [of cd ce']) (simp_all add: carries_nothing)
next
  case True
  obtain c1 cd' ct where run: "evp_enc_run ssl ce p = Some (c1, ct)" "evp_dec_run ssl cd ct = Some (cd', p)" "R ce cd'"
    by (rule cbc_pairsD [OF ssl enc(2) p])
  obtain ce' where "enc_ctx (peers w' ! k) = Ptr ce'" "R ce' cd'"
    by (rule ctx_keptD [OF kept(1) enc_closed_paired [OF ssl] enc(1) [folded kept(2)] run(3)])
  moreover have "frame_for ssl FRAME_HDR_NETPACKET p w k = wire_frame (host_le w) FRAME_HDR_NETPACKET ct"
    using up enc(1) run(1) by (simp add: frame_for_def)
  ultimately show thesis using True carries_one [OF run(2)] by (intro that [of cd' ce']) simp_all
qed

section \<open>Driving the daemon\<close>

text \<open>
  One packet: a turn of the device loop, or a frame from the far end of a connection, as segmented by
  the kernels (\<open>seg\<close>), into a buffer of any contents.
\<close>

definition drive_step ::
  "('k, 'c) openssl \<Rightarrow> (byte list \<Rightarrow> byte list list) \<Rightarrow> stack \<Rightarrow> byte list \<Rightarrow> nat option \<Rightarrow> byte list
     \<Rightarrow> (nat \<Rightarrow> 'c) \<times> tun_vars \<times> ('k, 'c, 'a) peer_state_scheme
     \<Rightarrow> ((nat \<Rightarrow> 'c) \<times> tun_vars \<times> ('k, 'c, 'a) peer_state_scheme) option" where
  "drive_step ssl seg st buf from p = (\<lambda>(fe, v, w).
     (case from of
        None \<Rightarrow> do { (v', w') \<leftarrow> broadcast_packet ssl p v w; Some (fe, v', w') }
      | Some j \<Rightarrow>
          do {
            (ce, ct) \<leftarrow> evp_enc_run ssl (fe j) p;
            (ret, r) \<leftarrow> receive_frame (host_le w)
              \<lparr>rx_buf = buf, rx_type = 0, rx_len = 0, rx_in = seg (wire_frame (host_le w) FRAME_HDR_NETPACKET ct)\<rparr>;
            (res, w') \<leftarrow> process_frame ssl st j (rx_buf r) (rx_type r) (rx_len r) w;
            Some (fe(j := ce), v, w')
          }))"

fun drive ::
  "('k, 'c) openssl \<Rightarrow> (byte list \<Rightarrow> byte list list) \<Rightarrow> stack \<Rightarrow> byte list \<Rightarrow> (nat option \<times> byte list) list
     \<Rightarrow> (nat \<Rightarrow> 'c) \<times> tun_vars \<times> ('k, 'c, 'a) peer_state_scheme
     \<Rightarrow> ((nat \<Rightarrow> 'c) \<times> tun_vars \<times> ('k, 'c, 'a) peer_state_scheme) option" where
  "drive ssl seg st buf [] \<sigma> = Some \<sigma>"
| "drive ssl seg st buf ((from, p) # evs) \<sigma> =
     do { \<sigma>' \<leftarrow> drive_step ssl seg st buf from p \<sigma>; drive ssl seg st buf evs \<sigma>' }"

text \<open>A frame that arrives, and one from a far end.\<close>

lemma frame_arrives:
  assumes ssl: "cbc_sizes ssl" "cbc_pairs ssl R" and w: "node_ok R w" "end_of j w" and p: "good_packet w p"
    and st: "wf_stack st" and seg: "segments seg" and buf: "length buf = FRAME_MAXSIZE"
    and c: "dec_ctx (peers w ! j) = Ptr cd" "evp_dec_run ssl cd ct = Some (cd', p)" "length ct = cbc_padded (length p)"
  obtains ret r' w' where "receive_frame (host_le w) \<lparr>rx_buf = buf, rx_type = 0, rx_len = 0,
        rx_in = seg (wire_frame (host_le w) FRAME_HDR_NETPACKET ct)\<rparr> = Some (ret, r')"
    and "process_frame ssl st j (rx_buf r') (rx_type r') (rx_len r') w = Some (0, w')"
    and "node_ok R w'" and "ctx_kept ssl (dec_used j cd' w) w'" and "same_peers w w'" and "switched ssl (Some j) p w w'"
proof -
  have j: "j < length (peers w)" "authenticated (peers w ! j)" using w(2) by (simp_all add: end_of_def)
  have size: "length p < FRAME_PAYLOAD_MAXSIZE" using p by (simp add: good_packet_def)
  then have fits: "length ct \<le> FRAME_PAYLOAD_MAXSIZE" "0 < length ct" using c(3) by (simp_all add: cbc_padded_def frame_sizes)
  let ?w1 = "dec_used j cd' w"
  have "node_ok R ?w1" "j < length (peers ?w1)" "good_packet ?w1 p"
    using w p j by (simp_all add: dec_used_same dec_used_fields)
  from route_switched [OF ssl this st, of "map (stale_bytes st) [length p..<PACKET_DATA_SIZE]"] obtain w' where
    r: "route_packet ssl st j (p @ map (stale_bytes st) [length p..<PACKET_DATA_SIZE]) (of_nat (length p)) ?w1 = Some w'"
    and w': "node_ok R w'" "ctx_kept ssl ?w1 w'" "same_peers ?w1 w'" "switched ssl (Some j) p ?w1 w'" by blast
  have cs: "chunks_ok (seg (wire_frame (host_le w) FRAME_HDR_NETPACKET ct))"
    "concat (seg (wire_frame (host_le w) FRAME_HDR_NETPACKET ct)) = frame_header (host_le w) FRAME_HDR_NETPACKET (of_nat (length ct)) @ ct"
    using seg by (simp_all add: segments_def frame_bytes_def)
  obtain r' where "receive_frame (host_le w) \<lparr>rx_buf = buf, rx_type = 0, rx_len = 0,
        rx_in = seg (wire_frame (host_le w) FRAME_HDR_NETPACKET ct)\<rparr> = Some (5 + int (length ct), r')"
    "process_frame ssl st j (rx_buf r') (rx_type r') (rx_len r') w = Some (0, w')"
    by (rule frame_routed [OF j size c(1,2) fits buf cs r])
  moreover have "same_peers w w'" using w'(3) j(1) by (simp add: dec_used_same)
  moreover have "switched ssl (Some j) p w w'" using w'(4) j(1) by (rule switched_dec_used)
  ultimately show thesis using w'(1,2) that by blast
qed

lemma frame_switched:
  assumes ssl: "cbc_sizes ssl" "cbc_pairs ssl R" and w: "node_ok R w" "end_of j w" and p: "good_packet w p"
    and st: "wf_stack st" and seg: "segments seg" and buf: "length buf = FRAME_MAXSIZE"
    and far: "dec_ctx (peers w ! j) = Ptr cd" "R (fe j) cd"
  shows "\<exists>ce cd' w'. drive_step ssl seg st buf (Some j) p (fe, v, w) = Some (fe(j := ce), v, w') \<and> R ce cd' \<and>
           node_ok R w' \<and> ctx_kept ssl (dec_used j cd' w) w' \<and> same_peers w w' \<and> switched ssl (Some j) p w w'"
proof -
  have size: "length p < 2 ^ 31" using p by (simp add: good_packet_def frame_sizes)
  obtain ce cd' ct where run: "evp_enc_run ssl (fe j) p = Some (ce, ct)" "evp_dec_run ssl cd ct = Some (cd', p)" "R ce cd'"
    by (rule cbc_pairsD [OF ssl(2) far(2) size])
  obtain ret r' w' where r: "receive_frame (host_le w) \<lparr>rx_buf = buf, rx_type = 0, rx_len = 0,
        rx_in = seg (wire_frame (host_le w) FRAME_HDR_NETPACKET ct)\<rparr> = Some (ret, r')"
    "process_frame ssl st j (rx_buf r') (rx_type r') (rx_len r') w = Some (0, w')"
    and w': "node_ok R w'" "ctx_kept ssl (dec_used j cd' w) w'" "same_peers w w'" "switched ssl (Some j) p w w'"
    by (rule frame_arrives [OF ssl w p st seg buf far(1) run(2) enc_run_length [OF ssl(1) run(1)]])
  have "drive_step ssl seg st buf (Some j) p (fe, v, w) = Some (fe(j := ce), v, w')"
    using run(1) r by (simp add: drive_step_def)
  then show ?thesis using run(3) w' by blast
qed

text \<open>One packet at all ports, with the contexts of the far ends.\<close>

definition driven ::
  "('k, 'c) openssl \<Rightarrow> ('c \<Rightarrow> 'c \<Rightarrow> bool) \<Rightarrow> (nat \<Rightarrow> 'c) \<Rightarrow> ('k, 'c, 'a) peer_state_scheme
     \<Rightarrow> (nat \<Rightarrow> 'c) \<Rightarrow> (nat \<Rightarrow> 'c) \<Rightarrow> ('k, 'c, 'a) peer_state_scheme \<Rightarrow> switch \<Rightarrow> (nat option \<times> byte list) list \<Rightarrow> bool" where
  "driven ssl R fd w fe' fd' w' s outs \<longleftrightarrow>
     node_ok R w' \<and> far_ends R fe' fd' w' \<and> same_peers w w' \<and> switch_of w' = s \<and>
     tun_out w' = tun_out w @ packets_at None outs \<and>
     (\<forall>k. end_of k w \<longrightarrow>
        (\<exists>bs. wire w' (sockfd (peers w ! k)) = wire w (sockfd (peers w ! k)) @ bs \<and>
           carries ssl (host_le w) bs (fd k) (packets_at (Some k) outs) (fd' k)))"

lemma driven_trans:
  assumes "driven ssl R fd w fe1 fd1 w1 s1 outs" and "driven ssl R fd1 w1 fe2 fd2 w2 s2 rest"
  shows "driven ssl R fd w fe2 fd2 w2 s2 (outs @ rest)"
proof -
  have same: "same_peers w w1" "same_peers w1 w2" using assms by (simp_all add: driven_def)
  then have eq: "end_of k w1 = end_of k w" "end_of k w \<Longrightarrow> sockfd (peers w1 ! k) = sockfd (peers w ! k)" "host_le w1 = host_le w" for k
    by (auto simp: same_peers_def end_of_def)
  have "\<exists>bs. wire w2 (sockfd (peers w ! k)) = wire w (sockfd (peers w ! k)) @ bs \<and>
           carries ssl (host_le w) bs (fd k) (packets_at (Some k) (outs @ rest)) (fd2 k)" if k: "end_of k w" for k
  proof -
    obtain bs where b: "wire w1 (sockfd (peers w ! k)) = wire w (sockfd (peers w ! k)) @ bs"
      "carries ssl (host_le w) bs (fd k) (packets_at (Some k) outs) (fd1 k)"
      using assms(1) k by (auto simp: driven_def)
    obtain bs' where c: "wire w2 (sockfd (peers w ! k)) = wire w1 (sockfd (peers w ! k)) @ bs'"
      "carries ssl (host_le w) bs' (fd1 k) (packets_at (Some k) rest) (fd2 k)"
      using assms(2) k eq by (auto simp: driven_def)
    show ?thesis using b(1) c(1) carries_append [OF b(2) c(2)] by (simp add: packets_at_append)
  qed
  moreover have "same_peers w w2" using same by (simp add: same_peers_def)
  ultimately show ?thesis using assms by (simp add: driven_def packets_at_append)
qed

lemma switched_driven:
  assumes ssl: "cbc_pairs ssl R" and p: "length p < 2 ^ 31" and sw: "switched ssl from p w w'"
    and w': "node_ok R w'" "same_peers w w'"
    and enc: "\<And>k. end_of k w \<Longrightarrow> \<exists>ce. enc_ctx (peers w ! k) = Ptr ce \<and> R ce (fd k)"
    and dec: "\<And>k. end_of k w \<Longrightarrow> \<exists>cd. dec_ctx (peers w' ! k) = Ptr cd \<and> R (fe' k) cd"
    and kept: "ctx_kept ssl u w'" "\<And>k. enc_ctx (peers u ! k) = enc_ctx (peers w ! k)"
    and st: "switch_step from (wire_key w p True) (wire_key w p False) (switch_of w) = (outs, s)"
  shows "\<exists>fd'. driven ssl R fd w fe' fd' w' s (map (\<lambda>d. (d, p)) outs)"
proof -
  have d: "distinct outs" using switch_step_distinct [OF switch_of_up(2)] st by (metis fst_conv)
  let ?bs = "\<lambda>k. if Some k \<in> set outs then frame_for ssl FRAME_HDR_NETPACKET p w k else []"
  have port: "\<exists>cd' ce'. carries ssl (host_le w) (?bs k) (fd k) (if Some k \<in> set outs then [p] else []) cd' \<and>
      enc_ctx (peers w' ! k) = Ptr ce' \<and> R ce' cd'" if k: "end_of k w" for k
  proof -
    obtain ce where ce: "enc_ctx (peers w ! k) = Ptr ce" "R ce (fd k)" using enc [OF k] by blast
    have up: "alive (peers w ! k)" "authenticated (peers w ! k)" using k by (simp_all add: end_of_def)
    from port_output [OF ssl p up ce, of u w' "Some k \<in> set outs"] kept show ?thesis by blast
  qed
  then have "\<forall>k. \<exists>cd'. end_of k w \<longrightarrow> (\<exists>ce'. carries ssl (host_le w) (?bs k) (fd k) (if Some k \<in> set outs then [p] else []) cd' \<and>
      enc_ctx (peers w' ! k) = Ptr ce' \<and> R ce' cd')" by blast
  then obtain fd' where fd': "\<forall>k. end_of k w \<longrightarrow> (\<exists>ce'. carries ssl (host_le w) (?bs k) (fd k) (if Some k \<in> set outs then [p] else []) (fd' k) \<and>
      enc_ctx (peers w' ! k) = Ptr ce' \<and> R ce' (fd' k))" by metis
  have same: "end_of k w' = end_of k w" for k using w'(2) by (auto simp: same_peers_def end_of_def)
  have "far_ends R fe' fd' w'" unfolding far_ends_def same using fd' dec by blast
  moreover have "packets_at dst (map (\<lambda>d. (d, p)) outs) = (if dst \<in> set outs then [p] else [])" for dst
    using d by (rule packets_at_step)
  moreover have "wire w' (sockfd (peers w ! k)) = wire w (sockfd (peers w ! k)) @ ?bs k" if "end_of k w" for k
    using that sw st by (simp add: switched_def end_of_def)
  ultimately have "driven ssl R fd w fe' fd' w' s (map (\<lambda>d. (d, p)) outs)"
    using w' fd' sw st by (auto simp: driven_def switched_def)
  then show ?thesis by blast
qed

lemma drive_one:
  assumes ssl: "cbc_sizes ssl" "cbc_pairs ssl R" and w: "node_ok R w" "far_ends R fe fd w" and v: "wf_tun v"
    and st: "wf_stack st" and seg: "segments seg" and buf: "length buf = FRAME_MAXSIZE"
    and p: "good_packet w p" and src: "case from of None \<Rightarrow> True | Some j \<Rightarrow> end_of j w"
    and step: "switch_step from (wire_key w p True) (wire_key w p False) (switch_of w) = (outs, s)"
  shows "\<exists>fe' fd' v' w'. drive_step ssl seg st buf from p (fe, v, w) = Some (fe', v', w') \<and> wf_tun v' \<and>
           driven ssl R fd w fe' fd' w' s (map (\<lambda>d. (d, p)) outs)"
proof -
  have size: "length p < 2 ^ 31" using p by (simp add: good_packet_def frame_sizes)
  have enc: "\<exists>ce. enc_ctx (peers w ! k) = Ptr ce \<and> R ce (fd k)" if "end_of k w" for k
    using w(2) that unfolding far_ends_def by blast
  have far: "\<exists>cd. dec_ctx (peers w ! k) = Ptr cd \<and> R (fe k) cd" if "end_of k w" for k
    using w(2) that unfolding far_ends_def by blast
  show ?thesis
  proof (cases "from")
    case None
    obtain v' w' where r: "broadcast_packet ssl p v w = Some (v', w')" "wf_tun v'" "node_ok R w'" "ctx_kept ssl w w'"
      "same_peers w w'" "switched ssl None p w w'"
      using device_switched [OF ssl w(1) v p] by blast
    have "\<exists>cd. dec_ctx (peers w' ! k) = Ptr cd \<and> R (fe k) cd" if "end_of k w" for k
      using far [OF that] r(4) by (simp add: ctx_kept_def)
    from switched_driven [OF ssl(2) size r(6,3,5) enc this r(4) refl step [unfolded None]] obtain fd' where
      "driven ssl R fd w fe fd' w' s (map (\<lambda>d. (d, p)) outs)" by blast
    with r(1,2) None show ?thesis by (auto simp: drive_step_def)
  next
    case (Some j)
    then have j: "end_of j w" "j < length (peers w)" using src by (simp_all add: end_of_def)
    obtain cd where cd: "dec_ctx (peers w ! j) = Ptr cd" "R (fe j) cd" using far [OF j(1)] by blast
    obtain ce cd' w' where r: "drive_step ssl seg st buf (Some j) p (fe, v, w) = Some (fe(j := ce), v, w')" "R ce cd'"
      "node_ok R w'" "ctx_kept ssl (dec_used j cd' w) w'" "same_peers w w'" "switched ssl (Some j) p w w'"
      using frame_switched [where fe = fe and R = R, OF ssl w(1) j(1) p st seg buf cd] by blast
    have "\<exists>cd. dec_ctx (peers w' ! k) = Ptr cd \<and> R ((fe(j := ce)) k) cd" if "end_of k w" for k
      using far [OF that] r(2,4) j(2) by (simp add: ctx_kept_def dec_used_nth)
    from switched_driven [OF ssl(2) size r(6,3,5) enc this r(4) dec_used_peer(4) [OF j(2)] step [unfolded Some]] obtain fd'
      where "driven ssl R fd w (fe(j := ce)) fd' w' s (map (\<lambda>d. (d, p)) outs)" by blast
    with r(1) v Some show ?thesis by blast
  qed
qed

lemma drive_run:
  assumes ssl: "cbc_sizes ssl" "cbc_pairs ssl R" and st: "wf_stack st" and seg: "segments seg" and buf: "length buf = FRAME_MAXSIZE"
  shows "node_ok R w \<Longrightarrow> far_ends R fe fd w \<Longrightarrow> wf_tun v \<Longrightarrow>
           \<forall>(from, p) \<in> set evs. good_packet w p \<and> (case from of None \<Rightarrow> True | Some j \<Rightarrow> end_of j w) \<Longrightarrow>
           \<exists>fe' fd' v' w'. drive ssl seg st buf evs (fe, v, w) = Some (fe', v', w') \<and> wf_tun v' \<and>
             driven ssl R fd w fe' fd' w' (snd (switch_run (wire_key w) evs (switch_of w)))
               (fst (switch_run (wire_key w) evs (switch_of w)))"
proof (induction evs arbitrary: w fe fd v)
  case Nil
  have "driven ssl R fd w fe fd w (switch_of w) []"
    using Nil by (simp add: driven_def same_peers_def packets_at_def carries_nothing)
  with Nil show ?case by auto
next
  case (Cons e evs)
  obtain "from" p where e: "e = (from, p)" by (cases e)
  obtain outs s where step: "switch_step from (wire_key w p True) (wire_key w p False) (switch_of w) = (outs, s)"
    by (rule prod.exhaust)
  have p: "good_packet w p" "case from of None \<Rightarrow> True | Some j \<Rightarrow> end_of j w" using Cons.prems(4) by (auto simp: e)
  obtain fe1 fd1 v1 w1 where one: "drive_step ssl seg st buf from p (fe, v, w) = Some (fe1, v1, w1)" "wf_tun v1"
    and d1: "driven ssl R fd w fe1 fd1 w1 s (map (\<lambda>d. (d, p)) outs)"
    using drive_one [OF ssl Cons.prems(1-3) st seg buf p step] by blast
  have w1: "node_ok R w1" "far_ends R fe1 fd1 w1" "same_peers w w1" "switch_of w1 = s" using d1 by (simp_all add: driven_def)
  have key: "wire_key w1 = wire_key w" "good_packet w1 = good_packet w" "end_of k w1 = end_of k w" for k
    using w1(3) by (auto simp: same_peers_def end_of_def wire_key_def good_packet_def fun_eq_iff)
  have "\<forall>(from, p) \<in> set evs. good_packet w1 p \<and> (case from of None \<Rightarrow> True | Some j \<Rightarrow> end_of j w1)"
    using Cons.prems(4) unfolding key by simp
  from Cons.IH [OF w1(1,2) one(2) this] obtain fe2 fd2 v2 w2 where
    rest: "drive ssl seg st buf evs (fe1, v1, w1) = Some (fe2, v2, w2)" "wf_tun v2"
    and d2: "driven ssl R fd1 w1 fe2 fd2 w2 (snd (switch_run (wire_key w) evs s)) (fst (switch_run (wire_key w) evs s))"
    unfolding key w1(4) by blast
  show ?case
    using one(1) rest driven_trans [OF d1 d2] by (auto simp: e step split_beta)
qed

section \<open>Properties\<close>

text \<open>C4. The daemon is a learning switch: fed any sequence of packets, each from its device or in a frame
  from the other end of a connection, it ends in the tables of the abstract switch, has written to its
  device exactly the packets the switch sends there, in order, and what it has put on the socket of
  each connection decrypts, in order, to exactly the packets the switch sends to that port. This holds
  for any segmentation of the frames and any contents of the buffers.\<close>

theorem daemon_refines_switch:
  assumes "cbc_sizes ssl" and "cbc_pairs ssl R" and "wf_stack st" and "segments seg" and "length buf = FRAME_MAXSIZE"
    and "node_ok R w" and "far_ends R fe fd w" and "wf_tun v"
    and "\<forall>(from, p) \<in> set evs. good_packet w p \<and> (case from of None \<Rightarrow> True | Some j \<Rightarrow> end_of j w)"
    and "switch_run (wire_key w) evs (switch_of w) = (outs, s)"
  shows "\<exists>fe' fd' v' w'. drive ssl seg st buf evs (fe, v, w) = Some (fe', v', w') \<and> switch_of w' = s \<and>
           tun_out w' = tun_out w @ packets_at None outs \<and>
           (\<forall>k. end_of k w \<longrightarrow>
              (\<exists>bs. wire w' (sockfd (peers w ! k)) = wire w (sockfd (peers w ! k)) @ bs \<and>
                 carries ssl (host_le w) bs (fd k) (packets_at (Some k) outs) (fd' k)))"
  using drive_run [OF assms(1-9)] unfolding assms(10) driven_def by auto

lemma demo_far: "far_ends (\<lambda>_ _. True) fe fd demo_world"
  by (simp add: far_ends_def end_of_def demo_world_fields demo_peer_fields)

lemma demo_switch:
  "switch_run (wire_key demo_world) [(None, demo_packet), (Some 0, demo_reply), (None, demo_packet)] (switch_of demo_world) =
     ([(Some 0, demo_packet), (None, demo_reply), (Some 0, demo_packet)],
      \<lparr>up = [0], here = {(False, True, [1, 0, 0, 10])}, there = (\<lambda>k. {})(0 := {(False, True, [2, 0, 0, 10])})\<rparr>)"
proof -
  have "switch_of demo_world = \<lparr>up = [0], here = {}, there = (\<lambda>k. {})\<rparr>"
    by (auto simp: switch_of_def demo_world_fields demo_peer_fields route_keys_def fun_eq_iff)
  then show ?thesis by (simp add: demo_keys owner_def learn_at_def)
qed

theorem daemon_refines_switch_witness:
  "\<exists>fe' fd' v' w'.
     drive toy_ssl (map (\<lambda>b. [b])) demo_stack (replicate 2053 0) [(None, demo_packet), (Some 0, demo_reply), (None, demo_packet)]
       (\<lambda>_. [], demo_vars, demo_world) = Some (fe', v', w') \<and>
     tun_out w' = [demo_reply] \<and> carries toy_ssl True (wire w' 4) [] [demo_packet, demo_packet] (fd' (0 :: nat))"
proof -
  have v: "wf_tun demo_vars" by (simp add: demo_vars_def wf_tun_def tun_vars_init_def wf_route_def)
  have seg: "segments (map (\<lambda>b. [b]))" by (simp add: segments_def list_all_iff)
  have buf: "length (replicate 2053 (0 :: byte)) = FRAME_MAXSIZE" by (simp add: frame_sizes)
  have n: "node_ok (\<lambda>_ _. True) demo_world" and e: "end_of 0 demo_world" using demo_linked by (simp_all add: linked_def)
  have evs: "\<forall>(from, p) \<in> set [(None, demo_packet), (Some 0, demo_reply), (None, demo_packet)].
      good_packet demo_world p \<and> (case from of None \<Rightarrow> True | Some j \<Rightarrow> end_of j demo_world)"
    using demo_good e by simp
  have d: "tun_out demo_world = []" "sockfd (peers demo_world ! 0) = 4" "wire demo_world 4 = []" "host_le demo_world = True"
    by (simp_all add: demo_world_fields demo_peer_fields)
  have fd: "far_ends (\<lambda>_ _. True) (\<lambda>_. []) (\<lambda>_. []) demo_world" by (rule demo_far)
  from daemon_refines_switch [OF toy_cbc_sizes toy_cbc_pairs demo_stack_wf seg buf n fd v evs demo_switch]
  obtain fe' fd' v' w' where r: "drive toy_ssl (map (\<lambda>b. [b])) demo_stack (replicate 2053 0)
      [(None, demo_packet), (Some 0, demo_reply), (None, demo_packet)] (\<lambda>_. [], demo_vars, demo_world) = Some (fe', v', w')"
    and t: "tun_out w' = [demo_reply]"
    and k: "\<forall>k. end_of k demo_world \<longrightarrow> (\<exists>bs. wire w' (sockfd (peers demo_world ! k)) = wire demo_world (sockfd (peers demo_world ! k)) @ bs \<and>
          carries toy_ssl (host_le demo_world) bs [] (packets_at (Some k)
            [(Some 0, demo_packet), (None, demo_reply), (Some 0, demo_packet)]) (fd' k))"
    by (auto simp: d packets_at_def)
  from k e have "carries toy_ssl True (wire w' 4) [] [demo_packet, demo_packet] (fd' 0)"
    by (auto simp: d packets_at_def)
  with r t show ?thesis by blast
qed

end
