(* ===== verification/Storm.thy ===== *)
theory Storm
  imports Switch
begin

text \<open>
  Several daemons connected in a circle. Packets carry no hop count and the daemons remember none they
  have passed on, so a packet whose destination no daemon of the circle has goes around it for ever:
  each daemon floods it, or sends it where its tables say, which may be where it came from.
\<close>

section \<open>A circle of daemons\<close>

text \<open>
  \<open>relay\<close>: what a daemon makes of the bytes that arrive at port \<open>i\<close>, seen at port \<open>o'\<close>. Daemon \<open>k\<close> of
  the circle is connected to daemon \<open>k + 1\<close>; \<open>ports k\<close> are its ports to its two neighbours.
\<close>

definition relay ::
  "('k, 'c) openssl \<Rightarrow> (byte list \<Rightarrow> byte list list) \<Rightarrow> stack \<Rightarrow> byte list \<Rightarrow> nat \<times> nat \<Rightarrow> byte list
     \<Rightarrow> ('k, 'c, 'a) peer_state_scheme \<Rightarrow> (byte list \<times> ('k, 'c, 'a) peer_state_scheme) option" where
  "relay ssl seg st buf = (\<lambda>(i, o') bs w.
     do {
       (ret, r) \<leftarrow> receive_frame (host_le w) \<lparr>rx_buf = buf, rx_type = 0, rx_len = 0, rx_in = seg bs\<rparr>;
       (res, w') \<leftarrow> process_frame ssl st i (rx_buf r) (rx_type r) (rx_len r) w;
       let s = sockfd (peers w ! o');
       Some (drop (length (wire w s)) (wire w' s), w')
     })"

fun circulate ::
  "('k, 'c) openssl \<Rightarrow> (byte list \<Rightarrow> byte list list) \<Rightarrow> stack \<Rightarrow> byte list \<Rightarrow> nat \<Rightarrow> (nat \<Rightarrow> nat \<times> nat) \<Rightarrow> nat \<Rightarrow> nat
     \<Rightarrow> byte list \<Rightarrow> (nat \<Rightarrow> ('k, 'c, 'a) peer_state_scheme)
     \<Rightarrow> (byte list \<times> (nat \<Rightarrow> ('k, 'c, 'a) peer_state_scheme)) option" where
  "circulate ssl seg st buf m ports 0 k bs ws = Some (bs, ws)"
| "circulate ssl seg st buf m ports (Suc n) k bs ws =
     do {
       (bs', w') \<leftarrow> relay ssl seg st buf (ports k) bs (ws k);
       circulate ssl seg st buf m ports n (Suc k mod m) bs' (ws(k := w'))
     }"

text \<open>
  A daemon passes a packet on from one port to another when the destination is not one of its own and
  its table names that port, or no port.
\<close>

definition passes :: "nat \<times> nat \<Rightarrow> byte list \<Rightarrow> ('k, 'c, 'a) peer_state_scheme \<Rightarrow> bool" where
  "passes = (\<lambda>(i, o') p w.
     wire_key w p False \<notin> route_keys (local_routes w) \<and>
     (case find_index (holds_route (wire_key w p False)) (peers w) of Some t \<Rightarrow> t = o' | None \<Rightarrow> i \<noteq> o'))"

definition floods :: "byte list \<Rightarrow> ('k, 'c, 'a) peer_state_scheme \<Rightarrow> bool" where
  "floods p w \<longleftrightarrow> find_index (holds_route (wire_key w p False)) (peers w) = None"

definition circle ::
  "('c \<Rightarrow> 'c \<Rightarrow> bool) \<Rightarrow> nat \<Rightarrow> (nat \<Rightarrow> nat \<times> nat) \<Rightarrow> byte list \<Rightarrow> (nat \<Rightarrow> ('k, 'c, 'a) peer_state_scheme) \<Rightarrow> bool" where
  "circle R m ports p ws \<longleftrightarrow>
     (\<forall>k < m. node_ok R (ws k) \<and> end_of (fst (ports k)) (ws k) \<and> end_of (snd (ports k)) (ws k) \<and>
        good_packet (ws k) p \<and> passes (ports k) p (ws k) \<and> host_le (ws (Suc k mod m)) = host_le (ws k) \<and>
        keyed R (peers (ws k) ! snd (ports k)) (peers (ws (Suc k mod m)) ! fst (ports (Suc k mod m))))"

lemma circleD:
  assumes "circle R m ports p ws" and "k < m"
  shows "node_ok R (ws k)" and "end_of (fst (ports k)) (ws k)" and "end_of (snd (ports k)) (ws k)" and "good_packet (ws k) p"
    and "passes (ports k) p (ws k)" and "host_le (ws (Suc k mod m)) = host_le (ws k)"
    and "keyed R (peers (ws k) ! snd (ports k)) (peers (ws (Suc k mod m)) ! fst (ports (Suc k mod m)))"
  using assms unfolding circle_def by blast+

text \<open>A frame with the packet on its way from one daemon to the next.\<close>

definition on_its_way ::
  "('k, 'c) openssl \<Rightarrow> ('c \<Rightarrow> 'c \<Rightarrow> bool) \<Rightarrow> byte list \<Rightarrow> ('k, 'c) peer \<Rightarrow> ('k, 'c) peer \<Rightarrow> bool \<Rightarrow> byte list \<Rightarrow> bool" where
  "on_its_way ssl R p from to le bs \<longleftrightarrow>
     (\<exists>ce cd ct cd'. enc_ctx from = Ptr ce \<and> dec_ctx to = Ptr cd \<and> evp_dec_run ssl cd ct = Some (cd', p) \<and> R ce cd' \<and>
        length ct = cbc_padded (length p) \<and> bs = wire_frame le FRAME_HDR_NETPACKET ct)"

lemma sent_on:
  assumes ssl: "cbc_sizes ssl" "cbc_pairs ssl R" and p: "length p < 2 ^ 31" and up: "end_of k w" "end_of k w'"
    and link: "keyed R (peers w ! k) q" and kept: "ctx_kept ssl u w'" "enc_ctx (peers u ! k) = enc_ctx (peers w ! k)"
  shows "keyed R (peers w' ! k) q" and "on_its_way ssl R p (peers w' ! k) q (host_le w) (frame_for ssl FRAME_HDR_NETPACKET p w k)"
proof -
  obtain ce cd where c: "enc_ctx (peers w ! k) = Ptr ce" "dec_ctx q = Ptr cd" "R ce cd"
    using link by (auto simp: keyed_def)
  obtain c1 cd' ct where run: "evp_enc_run ssl ce p = Some (c1, ct)" "evp_dec_run ssl cd ct = Some (cd', p)" "R ce cd'"
    by (rule cbc_pairsD [OF ssl(2) c(3) p])
  obtain c' where c': "enc_ctx (peers w' ! k) = Ptr c'" "R c' cd"
    by (rule ctx_keptD [OF kept(1) enc_closed_paired [OF ssl(2)] c(1) [folded kept(2)] c(3)])
  then show "keyed R (peers w' ! k) q" using c(2) by (simp add: keyed_def)
  obtain c2 where c2: "enc_ctx (peers w' ! k) = Ptr c2" "R c2 cd'"
    by (rule ctx_keptD [OF kept(1) enc_closed_paired [OF ssl(2)] c(1) [folded kept(2)] run(3)])
  have "frame_for ssl FRAME_HDR_NETPACKET p w k = wire_frame (host_le w) FRAME_HDR_NETPACKET ct"
    using up(1) c(1) run(1) by (simp add: frame_for_def end_of_def)
  then show "on_its_way ssl R p (peers w' ! k) q (host_le w) (frame_for ssl FRAME_HDR_NETPACKET p w k)"
    using c(2) c2 run(2) enc_run_length [OF ssl(1) run(1)] by (auto simp: on_its_way_def)
qed

text \<open>A packet that is passed on changes no table, so it is passed on the next time.\<close>

lemma passed_on:
  assumes "passes (i, o') p w" and "switched ssl (Some i) p w w'" and "same_peers w w'" and "end_of o' w"
  shows "switch_of w' = switch_of w" and "passes (i, o') p w'" and "floods p w' = floods p w"
    and "tun_out w' = tun_out w @ (if floods p w then [p] else [])"
    and "wire w' (sockfd (peers w ! o')) = wire w (sockfd (peers w ! o')) @ frame_for ssl FRAME_HDR_NETPACKET p w o'"
proof -
  let ?b = "wire_key w p False"
  have key: "wire_key w' p False = ?b" using assms(3) by (simp add: same_peers_def wire_key_def)
  have far: "?b \<notin> route_keys (local_routes w)" using assms(1) by (simp add: passes_def)
  have out: "fst (switch_step (Some i) (wire_key w p True) ?b (switch_of w)) =
      (case owner (switch_of w) ?b of Some t \<Rightarrow> [Some t] | None \<Rightarrow> None # map Some (filter (\<lambda>k. k \<noteq> i) (up (switch_of w))))"
    and same: "snd (switch_step (Some i) (wire_key w p True) ?b (switch_of w)) = switch_of w" using far by simp_all
  then show s: "switch_of w' = switch_of w" using assms(2) by (auto simp: switched_def)
  then have find: "find_index (holds_route ?b) (peers w') = find_index (holds_route ?b) (peers w)"
    "route_keys (local_routes w') = route_keys (local_routes w)"
    by (metis owner_switch_of, metis switch_of_here)
  then show "passes (i, o') p w'" "floods p w' = floods p w" using assms(1) by (simp_all add: passes_def floods_def key)
  have o': "o' < length (peers w)" "alive (peers w ! o')" using assms(4) by (simp_all add: end_of_def)
  have "Some o' \<in> set (fst (switch_step (Some i) (wire_key w p True) ?b (switch_of w)))"
    "None \<in> set (fst (switch_step (Some i) (wire_key w p True) ?b (switch_of w))) \<longleftrightarrow> floods p w"
    unfolding out using assms(1) o' by (auto simp: passes_def owner_switch_of switch_of_up floods_def split: option.splits)
  then show "tun_out w' = tun_out w @ (if floods p w then [p] else [])"
    "wire w' (sockfd (peers w ! o')) = wire w (sockfd (peers w ! o')) @ frame_for ssl FRAME_HDR_NETPACKET p w o'"
    using assms(2) o' by (auto simp: switched_def split_beta)
qed

section \<open>One hop, and all\<close>

lemma Suc_mod_inj: "2 \<le> m \<Longrightarrow> j < m \<Longrightarrow> k < m \<Longrightarrow> Suc j mod m = Suc k mod m \<Longrightarrow> j = k"
  by (cases "Suc j = m"; cases "Suc k = m") auto

lemma Suc_mod_neq: "2 \<le> m \<Longrightarrow> k < m \<Longrightarrow> Suc k mod m \<noteq> k"
  by (cases "Suc k = m") auto

text \<open>The circle after one of its daemons has moved, and the two links it has.\<close>

lemma circle_update:
  assumes c: "circle R m ports p ws" and m: "2 \<le> m" and k: "prev < m" "k = Suc prev mod m"
    and w': "node_ok R w'" "same_peers (ws k) w'" "passes (ports k) p w'"
    and link: "keyed R (peers (ws prev) ! snd (ports prev)) (peers w' ! fst (ports k))"
      "keyed R (peers w' ! snd (ports k)) (peers (ws (Suc k mod m)) ! fst (ports (Suc k mod m)))"
  shows "circle R m ports p (ws(k := w'))"
  unfolding circle_def
proof (intro allI impI)
  fix j assume j: "j < m"
  let ?n = "Suc j mod m"
  have km: "k < m" using k m by simp
  have same: "end_of x w' = end_of x (ws k)" "good_packet w' p = good_packet (ws k) p" "host_le w' = host_le (ws k)" for x
    using w'(2) by (auto simp: same_peers_def end_of_def good_packet_def)
  note at = circleD [OF c]
  have le: "host_le ((ws(k := w')) x) = host_le (ws x)" for x by (simp add: same)
  have "keyed R (peers ((ws(k := w')) j) ! snd (ports j)) (peers ((ws(k := w')) ?n) ! fst (ports ?n))"
  proof (cases "j = k")
    case True
    then show ?thesis using link(2) Suc_mod_neq [OF m km] by simp
  next
    case False
    show ?thesis
    proof (cases "?n = k")
      case True
      then have "j = prev" using Suc_mod_inj [OF m j k(1)] k(2) by simp
      then show ?thesis using link(1) False True by simp
    qed (use False at(7) [OF j] in simp)
  qed
  then show "node_ok R ((ws(k := w')) j) \<and> end_of (fst (ports j)) ((ws(k := w')) j) \<and> end_of (snd (ports j)) ((ws(k := w')) j) \<and>
      good_packet ((ws(k := w')) j) p \<and> passes (ports j) p ((ws(k := w')) j) \<and>
      host_le ((ws(k := w')) ?n) = host_le ((ws(k := w')) j) \<and>
      keyed R (peers ((ws(k := w')) j) ! snd (ports j)) (peers ((ws(k := w')) ?n) ! fst (ports ?n))"
    unfolding le using at [OF j] at(2-4) [OF km] w'(1,3) by (simp add: same)
qed

lemma hop:
  assumes ssl: "cbc_sizes ssl" "cbc_pairs ssl R" and st: "wf_stack st" and seg: "segments seg" and buf: "length buf = FRAME_MAXSIZE"
    and c: "circle R m ports p ws" and m: "2 \<le> m" and k: "prev < m" "k = Suc prev mod m"
    and way: "on_its_way ssl R p (peers (ws prev) ! snd (ports prev)) (peers (ws k) ! fst (ports k)) (host_le (ws k)) bs"
  shows "\<exists>bs' w'. relay ssl seg st buf (ports k) bs (ws k) = Some (bs', w') \<and> circle R m ports p (ws(k := w')) \<and>
           on_its_way ssl R p (peers w' ! snd (ports k)) (peers (ws (Suc k mod m)) ! fst (ports (Suc k mod m)))
             (host_le (ws (Suc k mod m))) bs' \<and>
           floods p w' = floods p (ws k) \<and> tun_out w' = tun_out (ws k) @ (if floods p (ws k) then [p] else [])"
proof -
  let ?w = "ws k"
  obtain i o' where io: "ports k = (i, o')" by (cases "ports k")
  have km: "k < m" using k m by simp
  have at: "node_ok R ?w" "end_of i ?w" "end_of o' ?w" "good_packet ?w p" "passes (i, o') p ?w"
    "host_le (ws (Suc k mod m)) = host_le ?w" "keyed R (peers ?w ! o') (peers (ws (Suc k mod m)) ! fst (ports (Suc k mod m)))"
    using circleD [OF c km] by (simp_all add: io)
  have size: "length p < 2 ^ 31" using at(4) by (simp add: good_packet_def frame_sizes)
  obtain ce cd ct cd' where w: "enc_ctx (peers (ws prev) ! snd (ports prev)) = Ptr ce" "dec_ctx (peers ?w ! i) = Ptr cd"
    "evp_dec_run ssl cd ct = Some (cd', p)" "R ce cd'" "length ct = cbc_padded (length p)"
    and bs: "bs = wire_frame (host_le ?w) FRAME_HDR_NETPACKET ct"
    using way io by (auto simp: on_its_way_def)
  obtain ret r' w' where r: "receive_frame (host_le ?w) \<lparr>rx_buf = buf, rx_type = 0, rx_len = 0, rx_in = seg bs\<rparr> = Some (ret, r')"
    "process_frame ssl st i (rx_buf r') (rx_type r') (rx_len r') ?w = Some (0, w')"
    and w': "node_ok R w'" "ctx_kept ssl (dec_used i cd' ?w) w'" "same_peers ?w w'" "switched ssl (Some i) p ?w w'"
    unfolding bs by (rule frame_arrives [OF ssl at(1,2,4) st seg buf w(2,3,5)])
  have i: "i < length (peers ?w)" using at(2) by (simp add: end_of_def)
  note on = passed_on [OF at(5) w'(4,3) at(3)]
  have up: "end_of o' w'" using end_of_same [OF w'(3) at(3)] .
  note out = sent_on [OF ssl size at(3) up at(7) w'(2) dec_used_peer(4) [OF i]]
  have "dec_ctx (peers w' ! i) = Ptr cd'" using w'(2) i by (simp add: ctx_kept_def dec_used_nth)
  then have "keyed R (peers (ws prev) ! snd (ports prev)) (peers w' ! i)" using w(1,4) by (simp add: keyed_def)
  then have "circle R m ports p (ws(k := w'))"
    using circle_update [OF c m k w'(1,3)] on(2) out(1) by (simp add: io)
  moreover have "relay ssl seg st buf (ports k) bs ?w = Some (frame_for ssl FRAME_HDR_NETPACKET p ?w o', w')"
    using r on(5) by (simp add: relay_def io Let_def)
  ultimately show ?thesis using out(2) on(3,4) at(6) io by (intro exI [of _ "frame_for ssl FRAME_HDR_NETPACKET p ?w o'"] exI [of _ w']) simp
qed

text \<open>How often a walk of \<open>n\<close> steps around the circle from \<open>k\<close> comes by \<open>j\<close>.\<close>

definition visits :: "nat \<Rightarrow> nat \<Rightarrow> nat \<Rightarrow> nat \<Rightarrow> nat" where
  "visits m n k j = length (filter (\<lambda>t. (k + t) mod m = j) [0..<n])"

lemma visits_Suc: "k < m \<Longrightarrow> visits m (Suc n) k j = (if k = j then 1 else 0) + visits m n (Suc k mod m) j"
proof -
  assume k: "k < m"
  have "(k + Suc t) mod m = (Suc k mod m + t) mod m" for t using mod_add_left_eq [of "Suc k" m t] by simp
  then have "(\<lambda>t. (k + t) mod m = j) \<circ> Suc = (\<lambda>t. (Suc k mod m + t) mod m = j)" by (simp add: fun_eq_iff)
  then have eq: "length (filter (\<lambda>t. (k + t) mod m = j) (map Suc [0..<n])) = visits m n (Suc k mod m) j"
    by (simp only: visits_def filter_map length_map)
  moreover have "[0..<Suc n] = 0 # map Suc [0..<n]" by (simp add: upt_conv_Cons map_Suc_upt del: upt_Suc)
  ultimately have "visits m (Suc n) k j =
      (if k mod m = j then 1 else 0) + length (filter (\<lambda>t. (k + t) mod m = j) (map Suc [0..<n]))"
    unfolding visits_def by simp
  with eq k show ?thesis by simp
qed

lemma circulates:
  assumes ssl: "cbc_sizes ssl" "cbc_pairs ssl R" and st: "wf_stack st" and seg: "segments seg" and buf: "length buf = FRAME_MAXSIZE"
    and m: "2 \<le> m"
  shows "circle R m ports p ws \<Longrightarrow> prev < m \<Longrightarrow> k = Suc prev mod m \<Longrightarrow>
           on_its_way ssl R p (peers (ws prev) ! snd (ports prev)) (peers (ws k) ! fst (ports k)) (host_le (ws k)) bs \<Longrightarrow>
           \<exists>bs' ws'. circulate ssl seg st buf m ports n k bs ws = Some (bs', ws') \<and> bs' \<noteq> [] \<and>
             (\<forall>j < m. tun_out (ws' j) = tun_out (ws j) @ (if floods p (ws j) then replicate (visits m n k j) p else []))"
proof (induction n arbitrary: ws prev k bs)
  case 0
  have "bs \<noteq> []" using 0(4) by (auto simp: on_its_way_def frame_bytes_def frame_header_def)
  then show ?case by (simp add: visits_def)
next
  case (Suc n)
  have km: "k < m" using Suc.prems(2,3) m by simp
  obtain b1 w' where h: "relay ssl seg st buf (ports k) bs (ws k) = Some (b1, w')" and c: "circle R m ports p (ws(k := w'))"
    and way: "on_its_way ssl R p (peers w' ! snd (ports k)) (peers (ws (Suc k mod m)) ! fst (ports (Suc k mod m)))
             (host_le (ws (Suc k mod m))) b1"
    and t: "floods p w' = floods p (ws k)" "tun_out w' = tun_out (ws k) @ (if floods p (ws k) then [p] else [])"
    using hop [OF ssl st seg buf Suc.prems(1) m Suc.prems(2-4)] by blast
  have "on_its_way ssl R p (peers ((ws(k := w')) k) ! snd (ports k))
      (peers ((ws(k := w')) (Suc k mod m)) ! fst (ports (Suc k mod m))) (host_le ((ws(k := w')) (Suc k mod m))) b1"
    using way Suc_mod_neq [OF m km] by simp
  from Suc.IH [OF c km refl this] obtain bs' ws' where
    r: "circulate ssl seg st buf m ports n (Suc k mod m) b1 (ws(k := w')) = Some (bs', ws')" "bs' \<noteq> []"
    and o: "\<forall>j < m. tun_out (ws' j) = tun_out ((ws(k := w')) j) @
        (if floods p ((ws(k := w')) j) then replicate (visits m n (Suc k mod m) j) p else [])" by blast
  have "\<forall>j < m. tun_out (ws' j) = tun_out (ws j) @ (if floods p (ws j) then replicate (visits m (Suc n) k j) p else [])"
    using o t by (auto simp: visits_Suc [OF km] replicate_append_same)
  then show ?case using h r by (intro exI [of _ bs'] exI [of _ ws']) simp
qed

text \<open>The daemon that starts it, with a packet of its device.\<close>

lemma started:
  assumes ssl: "cbc_sizes ssl" "cbc_pairs ssl R" and c: "circle R m ports p ws" and m: "2 \<le> m" and k: "k < m"
    and v: "wf_tun v" and ab: "wire_key (ws k) p True \<noteq> wire_key (ws k) p False"
  shows "\<exists>v' w'. broadcast_packet ssl p v (ws k) = Some (v', w') \<and> circle R m ports p (ws(k := w')) \<and>
           on_its_way ssl R p (peers w' ! snd (ports k)) (peers (ws (Suc k mod m)) ! fst (ports (Suc k mod m)))
             (host_le (ws (Suc k mod m)))
             (drop (length (wire (ws k) (sockfd (peers (ws k) ! snd (ports k)))))
                (wire w' (sockfd (peers (ws k) ! snd (ports k))))) \<and>
           floods p w' = floods p (ws k) \<and> tun_out w' = tun_out (ws k)"
proof -
  let ?w = "ws k" and ?b = "wire_key (ws k) p False"
  obtain i o' where io: "ports k = (i, o')" by (cases "ports k")
  define prev where "prev = (if k = 0 then m - 1 else k - 1)"
  have prev: "prev < m" "k = Suc prev mod m" using m k by (auto simp: prev_def)
  have at: "node_ok R ?w" "end_of i ?w" "end_of o' ?w" "good_packet ?w p" "passes (i, o') p ?w"
    "host_le (ws (Suc k mod m)) = host_le ?w" "keyed R (peers ?w ! o') (peers (ws (Suc k mod m)) ! fst (ports (Suc k mod m)))"
    "keyed R (peers (ws prev) ! snd (ports prev)) (peers ?w ! i)"
    using circleD [OF c k] circleD(7) [OF c prev(1), folded prev(2)] by (simp_all add: io)
  have size: "length p < 2 ^ 31" using at(4) by (simp add: good_packet_def frame_sizes)
  obtain v' w' where r: "broadcast_packet ssl p v ?w = Some (v', w')" "node_ok R w'" "ctx_kept ssl ?w w'" "same_peers ?w w'"
    and sw: "switched ssl None p ?w w'"
    using device_switched [OF ssl at(1) v at(4)] by blast
  have key: "wire_key w' p False = ?b" using r(4) by (simp add: same_peers_def wire_key_def)
  have s: "switch_of w' = (switch_of ?w)\<lparr>here := insert (wire_key ?w p True) (route_keys (local_routes ?w))\<rparr>"
    using sw by (simp add: switched_def)
  then have "owner (switch_of w') ?b = owner (switch_of ?w) ?b" by (simp add: owner_def)
  then have find: "find_index (holds_route ?b) (peers w') = find_index (holds_route ?b) (peers ?w)"
    by (simp add: owner_switch_of)
  have "route_keys (local_routes w') = insert (wire_key ?w p True) (route_keys (local_routes ?w))"
    using switch_of_here [of w'] by (simp add: s)
  then have on: "passes (ports k) p w'" "floods p w' = floods p ?w"
    using at(5) ab find by (simp_all add: passes_def floods_def key io)
  have o': "o' < length (peers ?w)" "alive (peers ?w ! o')" using at(3) by (simp_all add: end_of_def)
  have "wire w' (sockfd (peers ?w ! o')) = wire ?w (sockfd (peers ?w ! o')) @ frame_for ssl FRAME_HDR_NETPACKET p ?w o'"
    "tun_out w' = tun_out ?w"
    using sw at(5) o' by (auto simp: switched_def passes_def owner_switch_of switch_of_up split: option.splits)
  moreover note out = sent_on [OF ssl size at(3) end_of_same [OF r(4) at(3)] at(7) r(3) refl]
  moreover have "keyed R (peers (ws prev) ! snd (ports prev)) (peers w' ! fst (ports k))"
    using keyed_kept(2) [OF ssl(2) r(3) at(8)] by (simp add: io)
  then have "circle R m ports p (ws(k := w'))"
    using circle_update [OF c m prev r(2,4) on(1)] out(1) by (simp add: io)
  ultimately show ?thesis using r(1) on(2) at(6) io by (intro exI [of _ v'] exI [of _ w']) simp
qed

section \<open>Properties\<close>

text \<open>C19. Packets can go around for ever: in a circle of two or more daemons, none of which has the
  destination of a packet and each of which floods it or has the next as its route, a packet that one of
  them reads from its device is on its way again after any number of hops, and every daemon that
  floods it has written it to its device each time it came by. (Three daemons that are all connected
  are such a circle for any unknown address; two that hold each other for the route of an address are one.)\<close>

theorem packet_storm:
  assumes "cbc_sizes ssl" and "cbc_pairs ssl R" and "wf_stack st" and "segments seg" and "length buf = FRAME_MAXSIZE"
    and "2 \<le> m" and "circle R m ports p ws" and "k < m" and "wf_tun v"
    and "wire_key (ws k) p True \<noteq> wire_key (ws k) p False"
  shows "\<exists>v' w'. broadcast_packet ssl p v (ws k) = Some (v', w') \<and>
           (\<forall>n. \<exists>bs ws'. circulate ssl seg st buf m ports n (Suc k mod m)
                  (drop (length (wire (ws k) (sockfd (peers (ws k) ! snd (ports k)))))
                     (wire w' (sockfd (peers (ws k) ! snd (ports k))))) (ws(k := w')) = Some (bs, ws') \<and> bs \<noteq> [] \<and>
              (\<forall>j < m. tun_out (ws' j) = tun_out (ws j) @
                 (if floods p (ws j) then replicate (visits m n (Suc k mod m) j) p else [])))"
proof -
  obtain v' w' where r: "broadcast_packet ssl p v (ws k) = Some (v', w')" and c: "circle R m ports p (ws(k := w'))"
    and way: "on_its_way ssl R p (peers w' ! snd (ports k)) (peers (ws (Suc k mod m)) ! fst (ports (Suc k mod m)))
             (host_le (ws (Suc k mod m))) (drop (length (wire (ws k) (sockfd (peers (ws k) ! snd (ports k)))))
                (wire w' (sockfd (peers (ws k) ! snd (ports k)))))" (is "on_its_way _ _ _ _ _ _ ?bs")
    and t: "floods p w' = floods p (ws k)" "tun_out w' = tun_out (ws k)"
    using started [OF assms(1,2,7,6,8-10)] by blast
  have "on_its_way ssl R p (peers ((ws(k := w')) k) ! snd (ports k))
      (peers ((ws(k := w')) (Suc k mod m)) ! fst (ports (Suc k mod m))) (host_le ((ws(k := w')) (Suc k mod m))) ?bs"
    using way Suc_mod_neq [OF assms(6,8)] by simp
  note run = circulates [OF assms(1-6) c assms(8) refl this]
  have same: "floods p ((ws(k := w')) j) = floods p (ws j)" "tun_out ((ws(k := w')) j) = tun_out (ws j)" for j
    using t by simp_all
  show ?thesis using r run [unfolded same] by blast
qed

definition demo_hub :: "(bool, byte list) peer_state" where
  "demo_hub = demo_world\<lparr>peers := [demo_peer, demo_peer\<lparr>sockfd := 5\<rparr>]\<rparr>"

theorem packet_storm_witness:
  "\<exists>v' w'. broadcast_packet toy_ssl demo_packet demo_vars demo_hub = Some (v', w') \<and>
     (\<exists>bs ws'. circulate toy_ssl (map (\<lambda>b. [b])) demo_stack (replicate 2053 0) 3 (\<lambda>_. (0, 1)) 6 1
        (wire w' 5) ((\<lambda>_. demo_hub)(0 := w')) = Some (bs, ws') \<and> bs \<noteq> [] \<and>
        tun_out (ws' 0) = [demo_packet, demo_packet] \<and> tun_out (ws' 1) = [demo_packet, demo_packet] \<and>
        tun_out (ws' 2) = [demo_packet, demo_packet])"
proof -
  have v: "wf_tun demo_vars" by (simp add: demo_vars_def wf_tun_def tun_vars_init_def wf_route_def)
  have seg: "segments (map (\<lambda>b. [b]))" by (simp add: segments_def list_all_iff)
  have buf: "length (replicate 2053 (0 :: byte)) = FRAME_MAXSIZE" by (simp add: frame_sizes)
  have key: "wire_key demo_hub p src = wire_key demo_world p src" "good_packet demo_hub p = good_packet demo_world p" for p src
    by (simp_all add: demo_hub_def wire_key_def good_packet_def tuntap_tap_mode_def)
  have none: "find_index (holds_route a) (peers demo_hub) = None" for a
    by (simp add: demo_hub_def holds_route_def demo_peer_fields route_keys_def)
  have n: "node_ok (\<lambda>_ _. True) demo_hub"
    by (simp add: node_ok_def paired_def demo_hub_def demo_world_fields demo_peer_fields send_good_def
        less_Suc_eq numeral_2_eq_2)
  have e: "end_of 0 demo_hub" "end_of 1 demo_hub" by (simp_all add: end_of_def demo_hub_def demo_peer_fields)
  have d: "keyed (\<lambda>_ _. True) (peers demo_hub ! 1) (peers demo_hub ! 0)" "route_keys (local_routes demo_hub) = {}"
    "tun_out demo_hub = []" "wire demo_hub 5 = []" "sockfd (peers demo_hub ! 1) = 5"
    by (simp_all add: keyed_def demo_hub_def demo_peer_fields demo_world_fields route_keys_def)
  have c: "circle (\<lambda>_ _. True) 3 (\<lambda>_. (0, 1)) demo_packet (\<lambda>_. demo_hub)"
    using n e d demo_good(1) none by (simp add: circle_def passes_def key)
  have ab: "wire_key demo_hub demo_packet True \<noteq> wire_key demo_hub demo_packet False" by (simp add: key demo_keys)
  have vis: "visits 3 6 1 0 = 2" "visits 3 6 1 1 = 2" "visits 3 6 1 2 = 2" by (simp_all add: visits_def upt_rec)
  have f: "floods demo_packet demo_hub" by (simp add: floods_def none)
  have one: "Suc 0 mod 3 = (1 :: nat)" by simp
  have m: "2 \<le> (3 :: nat)" "0 < (3 :: nat)" by simp_all
  have two: "replicate 2 x = [x, x]" for x :: "byte list" by (simp add: numeral_2_eq_2)
  obtain v' w' where r: "broadcast_packet toy_ssl demo_packet demo_vars demo_hub = Some (v', w')"
    and all: "\<forall>n. \<exists>bs ws'. circulate toy_ssl (map (\<lambda>b. [b])) demo_stack (replicate 2053 0) 3 (\<lambda>_. (0, 1)) n (Suc 0 mod 3)
        (drop (length (wire demo_hub (sockfd (peers demo_hub ! snd (0, 1))))) (wire w' (sockfd (peers demo_hub ! snd (0, 1)))))
        ((\<lambda>_. demo_hub)(0 := w')) = Some (bs, ws') \<and> bs \<noteq> [] \<and>
        (\<forall>j < 3. tun_out (ws' j) = tun_out demo_hub @ (if floods demo_packet demo_hub then replicate (visits 3 n (Suc 0 mod 3) j) demo_packet else []))"
    using packet_storm [OF toy_cbc_sizes toy_cbc_pairs demo_stack_wf seg buf m(1) c m(2) v ab] by auto
  obtain bs ws' where "circulate toy_ssl (map (\<lambda>b. [b])) demo_stack (replicate 2053 0) 3 (\<lambda>_. (0, 1)) 6 1
        (wire w' 5) ((\<lambda>_. demo_hub)(0 := w')) = Some (bs, ws')" "bs \<noteq> []"
    and t: "\<forall>j < 3. tun_out (ws' j) = replicate (visits 3 6 1 j) demo_packet"
    using all [THEN spec, of 6, unfolded one snd_conv d] f by auto
  moreover have "tun_out (ws' 0) = [demo_packet, demo_packet]" "tun_out (ws' 1) = [demo_packet, demo_packet]"
    "tun_out (ws' 2) = [demo_packet, demo_packet]"
    using t [rule_format, of 0] t [rule_format, of 1] t [rule_format, of 2] vis by (simp_all add: two)
  ultimately show ?thesis using r by blast
qed

end
