(* ===== verification/Pthreads.thy ===== *)
theory Pthreads
  imports Locks Daemon_System
begin

text \<open>
  The objects of the pthread library: mutexes, which are initialised and destroyed, and threads, which
  are created and then joined or detached. Elsewhere they are just there; here each function is
  followed by the calls it makes for them, and a state of the library says whether a call is one that
  POSIX defines: a mutex is initialised once before it is destroyed, and a thread that exists is
  joined or detached once. A handle that \<open>pthread_create\<close> did not fill stands for no thread. Whether a
  mutex is held is the matter of the theory \<open>Locks\<close>.
\<close>

section \<open>The library\<close>

datatype pthread = Device_thread | Connection_thread nat | Receive_thread nat

datatype pcall = Mutex_init lock | Mutex_destroy lock | Create pthread bool | Cancel pthread | Join pthread | Detach pthread

record objects =
  inits :: "lock set"
  handles :: "pthread set"

fun do_call :: "pcall \<Rightarrow> objects \<Rightarrow> objects option" where
  "do_call (Mutex_init l) w = (if l \<in> inits w then None else Some (w\<lparr>inits := insert l (inits w)\<rparr>))"
| "do_call (Mutex_destroy l) w = (if l \<in> inits w then Some (w\<lparr>inits := inits w - {l}\<rparr>) else None)"
| "do_call (Create t ok) w = Some (if ok then w\<lparr>handles := insert t (handles w)\<rparr> else w)"
| "do_call (Cancel t) w = (if t \<in> handles w then Some w else None)"
| "do_call (Join t) w = (if t \<in> handles w then Some (w\<lparr>handles := handles w - {t}\<rparr>) else None)"
| "do_call (Detach t) w = (if t \<in> handles w then Some (w\<lparr>handles := handles w - {t}\<rparr>) else None)"

fun do_calls :: "pcall list \<Rightarrow> objects \<Rightarrow> objects option" where
  "do_calls [] w = Some w"
| "do_calls (c # cs) w = do { w1 \<leftarrow> do_call c w; do_calls cs w1 }"



definition created :: "pcall list \<Rightarrow> bool" where
  "created cs \<longleftrightarrow> (\<forall>c \<in> set cs. case c of Create t ok \<Rightarrow> ok | _ \<Rightarrow> True)"

lemma created_simps [simp]:
  "created []" "created (c # cs) \<longleftrightarrow> (case c of Create t ok \<Rightarrow> ok | _ \<Rightarrow> True) \<and> created cs"
  "created (xs @ ys) \<longleftrightarrow> created xs \<and> created ys"
  by (auto simp: created_def)

section \<open>The calls of each function\<close>

definition init_logger_calls :: "pcall list" where
  "init_logger_calls = [Mutex_init Logger_mutex]"

definition free_logger_calls :: "pcall list" where
  "free_logger_calls = [Mutex_destroy Logger_mutex]"

definition tuntap_open_calls :: "int \<Rightarrow> pcall list" where
  "tuntap_open_calls fd = (if fd = -1 then [] else [Mutex_init Tuntap_mutex])"

definition tuntap_close_calls :: "'a iface_state_scheme \<Rightarrow> pcall list" where
  "tuntap_close_calls w = (if if_fd w > 0 then [Mutex_destroy Tuntap_mutex] else [])"

definition initialize_peer_calls :: "nat \<Rightarrow> pcall list" where
  "initialize_peer_calls i = [Mutex_init (Peer_mutex i)]"

definition set_peer_info_calls :: "nat \<Rightarrow> pcall list" where
  "set_peer_info_calls i = [Mutex_destroy (Peer_mutex i), Mutex_init (Peer_mutex i)]"

definition create_peer_calls :: "nat \<Rightarrow> pcall list" where
  "create_peer_calls i = initialize_peer_calls i @ set_peer_info_calls i"

definition add_peer_calls :: "('k, 'c, 'a) peer_state_scheme \<Rightarrow> pcall list" where
  "add_peer_calls w =
     (case find_index (\<lambda>p. alive p = False) (peers w) of
        Some i \<Rightarrow> set_peer_info_calls i
      | None \<Rightarrow> if fst (malloc w) then create_peer_calls (length (peers w)) else [])"

definition destroy_peers_calls :: "('k, 'c, 'a) peer_state_scheme \<Rightarrow> pcall list" where
  "destroy_peers_calls w = map (\<lambda>i. Mutex_destroy (Peer_mutex i)) [0..<length (peers w)]"

text \<open>The thread of a connection waits for the thread that receives; \<open>block\<close> is the client's call.\<close>

definition connection_thread_calls :: "nat \<Rightarrow> bool \<Rightarrow> pcall list" where
  "connection_thread_calls n ok = [Create (Receive_thread n) ok, Join (Receive_thread n)]"

definition peer_connection_calls :: "nat \<Rightarrow> bool \<Rightarrow> bool \<Rightarrow> bool \<Rightarrow> pcall list" where
  "peer_connection_calls n block ok ok_recv =
     Create (Connection_thread n) ok # (if ok then connection_thread_calls n ok_recv else []) @
     [if block then Join (Connection_thread n) else Detach (Connection_thread n)]"

definition broadcast_tuntap_device_calls :: "bool \<Rightarrow> pcall list" where
  "broadcast_tuntap_device_calls ok = [Create Device_thread ok]"

section \<open>A run of the process\<close>

text \<open>
  What happens while the process serves: a connection (with the answers of \<open>pthread_create\<close> for its two
  threads), the end of one, or a SIGINT. The number counts the connections, to name their threads.
\<close>

datatype serve_event = Connected string u16 int bool bool bool bool | Ended nat | Interrupted

fun serve_step ::
  "('k, 'c) openssl \<Rightarrow> serve_event \<Rightarrow> nat \<Rightarrow> ('k, 'c, 'a) daemon_scheme
     \<Rightarrow> (pcall list \<times> ('k, 'c, 'a) daemon_scheme) option" where
  "serve_step ssl (Connected adr prt s client block ok ok_recv) n w =
     do {
       (i, w') \<leftarrow> peer_connection adr prt s client w;
       Some (add_peer_calls w @ (if i = None then [] else peer_connection_calls n block ok ok_recv), w')
     }"
| "serve_step ssl (Ended i) n w = (if i < length (peers w) then Some ([], peer_disconnect i w) else None)"
| "serve_step ssl Interrupted n w =
     do { w' \<leftarrow> interrupt_program_handler ssl w; Some (tuntap_close_calls w, w') }"

fun serve ::
  "('k, 'c) openssl \<Rightarrow> serve_event list \<Rightarrow> nat \<Rightarrow> ('k, 'c, 'a) daemon_scheme
     \<Rightarrow> (pcall list \<times> ('k, 'c, 'a) daemon_scheme) option" where
  "serve ssl [] n w = Some ([], w)"
| "serve ssl (ev # evs) n w =
     do {
       (cs, w1) \<leftarrow> serve_step ssl ev n w;
       (ds, w2) \<leftarrow> serve ssl evs (Suc n) w1;
       Some (cs @ ds, w2)
     }"

definition close_vpnd_calls :: "('k, 'c, 'a) daemon_scheme \<Rightarrow> pcall list" where
  "close_vpnd_calls w = (if already_closing w then [] else tuntap_close_calls w @ destroy_peers_calls w)"

definition vpnd_calls ::
  "('k, 'c) openssl \<Rightarrow> env \<Rightarrow> args \<Rightarrow> bool \<Rightarrow> serve_event list \<Rightarrow> ('k, 'c, 'a) daemon_scheme
     \<Rightarrow> (pcall list \<times> ('k, 'c, 'a) daemon_scheme) option" where
  "vpnd_calls ssl e a ok evs w =
     do {
       (started, w1) \<leftarrow> vpnd_start ssl e a w;
       if \<not> started then Some ([], w1)
       else
         do {
           (cs, w2) \<leftarrow> serve ssl evs 0 w1;
           w3 \<leftarrow> close_vpnd w2;
           Some (tuntap_open_calls (open_ret e) @ broadcast_tuntap_device_calls ok @ cs @
                   close_vpnd_calls w2 @ [Cancel Device_thread, Join Device_thread], w3)
         }
     }"

section \<open>The objects of a state\<close>


















section \<open>The whole run\<close>



text \<open>
  The mutex of the log is not among them: nothing calls \<open>init_logger\<close>, and every line of the log locks
  a mutex that is all zero, as static memory is.
\<close>

lemma serve_step_no_logger: "serve_step ssl ev n w = Some (cs, w') \<Longrightarrow> Mutex_init Logger_mutex \<notin> set cs"
  by (cases ev)
    (auto simp: Option.bind_eq_Some_conv peer_connection_calls_def connection_thread_calls_def add_peer_calls_def
      create_peer_calls_def initialize_peer_calls_def set_peer_info_calls_def tuntap_close_calls_def
      split: option.splits if_splits)

lemma serve_no_logger: "serve ssl evs n w = Some (cs, w') \<Longrightarrow> Mutex_init Logger_mutex \<notin> set cs"
  by (induction evs arbitrary: n w cs) (auto simp: Option.bind_eq_Some_conv dest: serve_step_no_logger)

lemma logger_never_initialised:
  assumes "vpnd_calls ssl e a ok evs w = Some (cs, w')"
  shows "set init_logger_calls \<inter> set cs = {}"
  using assms serve_no_logger [of ssl evs 0]
  by (fastforce simp: vpnd_calls_def Option.bind_eq_Some_conv init_logger_calls_def tuntap_open_calls_def
      broadcast_tuntap_device_calls_def close_vpnd_calls_def tuntap_close_calls_def destroy_peers_calls_def
      split: if_splits)

lemma logger_pair: "Logger_mutex \<notin> inits w \<Longrightarrow> do_calls (init_logger_calls @ free_logger_calls) w = Some w"
  by (cases w) (simp add: init_logger_calls_def free_logger_calls_def)




end
