(* ===== verification/Spec2Isabelle.thy ===== *)
theory Spec2Isabelle
  imports Netroute_Heap Peer_Heap Connection_Runs Races Locks Shutdown Encryption_Race Storm Pthreads
begin

text \<open>
  VPNd is a peer-to-peer VPN daemon in C. Each process opens a TUN/TAP device, connects to other
  daemons over TCP, authenticates each connection with RSA keys from a directory of trusted keys,
  agrees on an AES key and from then on carries the packets of the device in encrypted frames,
  routing them by the addresses it has learnt. This library models all the program's own logic and
  proves what each part does, also where what it does is a fault.

  \<^bold>\<open>Conventions.\<close> A function of the C code is a definition of the same name. What it may do is in its
  type: the outermost \<open>None\<close> means that the C program has undefined behaviour (an access outside an
  object, a use or a second \<open>free\<close> of freed memory); error codes, null pointers and early returns
  are ordinary values inside \<open>Some\<close>. Machine integers have their width (\<open>byte\<close>, \<open>u16\<close>, \<open>u32\<close>); C
  buffers are byte lists of the size of the object; an owning pointer is a \<open>cptr\<close>: null, pointing to
  a live object, or dangling. Uninitialised memory is an argument, and the theorems hold for all its
  values. The kernel and the allocator answer from scripts in the state, one answer per call, so any
  call may fail; what the program does to the outside (bytes on sockets, packets on the device, closed
  descriptors, printed lines) is recorded in the state. The functions of OpenSSL are a record that is a
  parameter of the model; what is assumed of them are the named laws of \<open>OpenSSL_API\<close>, which the
  concrete \<open>toy_ssl\<close> satisfies.

  \<^bold>\<open>State.\<close> The static variables of the source files form one record, extended file by file:
  \<open>os\<close> (the outside), \<open>log_state\<close> (\<open>src/logger.c\<close>), \<open>cfg_state\<close> (\<open>src/config.c\<close>), \<open>iface_state\<close>
  (\<open>src/interface.c\<close>), \<open>key_state\<close> (\<open>src/rsa.c\<close>), \<open>peer_state\<close> (\<open>src/peer.c\<close>), \<open>tcp_state\<close>
  (\<open>src/tcp.c\<close>), \<open>daemon\<close> (\<open>src/vpnd.c\<close>). An operation of a file works on every extension of the file's
  record, as the functions of one file are called by the next.

  \<^bold>\<open>The theories\<close>, in the order in which they build on each other:

  \<^item> \<open>VPNd_Prelude\<close>, \<open>OS_Model\<close>, \<open>OpenSSL_API\<close>: buffers, pointers, words; the kernel, and the loop
    \<open>put_all\<close> that writes until everything is out, with the contracts \<open>byte_sink\<close> and \<open>reliable_sink\<close>;
    the cryptographic library. \<open>Chain\<close>: linked cells of a heap, for any record with a link field
    (\<open>link_field\<close>).
  \<^item> \<open>Protocol\<close> (\<open>src/protocol.c\<close>): the frame header and its codec, with the contract \<open>frame_codec\<close>; a
    stream of frames is taken apart into the same frames; hosts of different byte order misread each
    other's lengths.
  \<^item> \<open>Logger\<close>, \<open>Config\<close>, \<open>Interface\<close>: levels and output lines, the configuration directory and
    \<open>join_paths\<close>, the device and its two-state machine.
  \<^item> \<open>Netroute\<close> and \<open>Netroute_Heap\<close> (\<open>src/netroute.c\<close>): route lists as lists, with the contracts
    \<open>route_table\<close> and \<open>route_list\<close> (a list stands for the set of its addresses), and as linked cells
    of a heap; the second refines the first and frees each cell once. The loops of the heap version
    are \<open>partial_function\<close>s, since they need not end on a cyclic chain; on a proper list they return.
  \<^item> \<open>Packet_Header\<close> (\<open>src/packet_header.c\<close>): the parser agrees with the reference \<open>packet_addr\<close>.
  \<^item> \<open>Encryption\<close> (\<open>src/encryption.c\<close>), \<open>Rsa\<close> (\<open>src/rsa.c\<close>): the AES calls undo each other and stay
    within their buffers; keys, the trusted list, and exactly which keys it accepts.
  \<^item> \<open>Peer\<close> and \<open>Peer_Heap\<close> (\<open>src/peer.c\<close>): the table of connections as a list of slots that are only
    added or reused, and as linked cells of a heap that refine it. The other theories name a peer by
    its slot, as the code does by its address, which no function changes.
  \<^item> \<open>Frame_IO\<close> (\<open>src/peer_net.c\<close>): sending, broadcasting and receiving frames over calls that may be
    partial or fail. \<open>receive_frame\<close> refines a reader of the concatenated stream, so segmentation does
    not matter.
  \<^item> \<open>Peer_Net\<close>, \<open>Handshake\<close> (\<open>src/peer_net.c\<close>), \<open>Tun_Broadcast\<close> (\<open>src/peer.c\<close>): where a received or a
    local packet goes and what is learnt from it; both roles of the handshake; the frame loop, which
    consumes at least five bytes of the stream per turn and so ends with it.
  \<^item> \<open>Connection\<close> (\<open>src/peer.c\<close>): the whole thread of a connection. It ends on every stream without an
    oversized header, and closes its own socket and nothing else; a peer that is not
    authenticated reaches neither the device nor another socket.
  \<^item> \<open>Tunnel\<close>: two daemons. The handshake leaves them \<open>linked\<close>; every packet that crosses arrives
    unchanged and keeps them so, and after one exchange each knows where the other's address is.
  \<^item> \<open>Switch\<close>: a daemon among any number of connections. It refines a learning switch with one port per
    connection and one for the device, \<open>switch_of\<close> reading its tables as those of the switch: any
    sequence of packets goes to the same ports in the same order. \<open>Storm\<close>: daemons in a circle, where
    \<open>relay\<close> makes what one puts on a socket the input of the next.
  \<^item> \<open>Tcp\<close> (\<open>src/tcp.c\<close>, \<open>src/tcp4.c\<close>, \<open>src/tcp6.c\<close>): listening, accepting over what \<open>poll\<close> answers,
    connecting. The loop is recursive in the list of those answers; a result \<open>None\<close> inside \<open>Some\<close> means
    that it still polls.
  \<^item> \<open>Args\<close> (\<open>src/args.c\<close>): the command line over what \<open>getopt_long\<close> answers, with every exit and text.
  \<^item> \<open>Daemon\<close> (\<open>src/vpnd.c\<close>, \<open>src/scripts.c\<close>, \<open>src/signals.c\<close>): start, serving, shutdown and the signal
    handlers; a server run closes everything it opened exactly once.
  \<^item> \<open>Daemon_System\<close>: the daemon as a transition system in which connections, device packets and
    signals interleave, one handler call per step, and the invariant \<open>sys_inv\<close> of its reachable
    states, through the contract \<open>invariant_system\<close>.
  \<^item> \<open>Connection_Runs\<close>: the functions of a connection called one after the other, as in \<open>Connection\<close>,
    are a path of that transition system.
  \<^item> \<open>Races\<close>: three functions cut in two, and what happens when another thread runs between the halves.
    The C code has no lock for the peer table, so the steps of \<open>Daemon_System\<close> are an
    idealisation, and these two theories show where it fails.
  \<^item> \<open>Locks\<close>: the sections that the mutexes of the log, the device and each peer guard, as a
    transition system of the calls of the kernel inside them, through the contract \<open>invariant_system\<close>:
    what is on a socket is a sequence of frames, so there a handler call as one step is no
    idealisation; and the signal handler, which runs on the stack of the thread it interrupts.
  \<^item> \<open>Shutdown\<close>: \<open>destroy_peer\<close>, which waits ten seconds for the thread of a connection, beside that
    thread. \<open>Encryption_Race\<close>: \<open>aes_encrypt\<close> cut at its OpenSSL calls, since it uses the context of a
    peer before the mutex of the peer is taken.
  \<^item> \<open>Pthreads\<close>: the calls of each function that initialise and destroy mutexes and create, join, detach
    and cancel threads, over a whole run of \<open>vpnd\<close>, and whether POSIX defines each of them.

  \<^bold>\<open>Faults.\<close> Some theorems state undefined behaviour or a wrong result, and when exactly it occurs:
  oversized frames are read past the buffer, before and after authentication; a packet of 2048 bytes
  overruns the cipher buffer; a reused slot and a failed start free twice; a non-IP packet of the
  device makes the previous destination local; IPv6 peers are read outside the socket address; a
  client that cannot connect reports success; a signal inside a section whose lock its handler needs
  blocks the daemon; a failed send leaves half a header before a payload; the shutdown closes sockets
  twice or frees a peer under its thread; a slot that changes hands takes a frame, a socket or a
  walk over its routes with it; two threads that encrypt for one peer overrun a buffer; packets circulate
  for ever among daemons connected in a circle; a thread that could not be created is joined, detached
  or cancelled all the same. The theorems that promise definedness have the complementary
  hypotheses.

  \<^bold>\<open>Not modelled.\<close> \<open>setsockopt\<close>, which changes no state of the program; the formatting of log calls, and
  the log calls that only print; \<open>getopt_long\<close>, \<open>getaddrinfo\<close>, the file system and the
  cryptography, which are arguments. Interleavings inside a handler, other than those of \<open>Races\<close>,
  \<open>Locks\<close>, \<open>Shutdown\<close> and \<open>Encryption_Race\<close>, are not covered by the invariant; in particular it takes
  the uses of one cipher context to exclude each other, which the code does not ensure.
\<close>

end
